(* ===== verification/Visus_Prelude.thy ===== *)
theory Visus_Prelude
  imports Main "HOL-Library.AList"
begin

text \<open>
  Shared material of the development: the collections of rewrite rules, the reading of Go's
  \<^verbatim>\<open>(value, error)\<close> pairs as a sum type, and the lemmas on association lists that the
  components use.  A Go map is an association list with distinct keys: its order is the
  (unspecified) order in which a \<^verbatim>\<open>range\<close> loop visits the entries, so that a theorem about
  every such list is a theorem about every iteration order.
\<close>

named_theorems go_float \<open>arithmetic of the float64 model\<close>
named_theorems store_simps \<open>equations of the store operations\<close>
named_theorems api_laws \<open>documented behaviour of the libraries the program calls\<close>

section \<open>Errors and panics\<close>

text \<open>
  A Go call returns an error value or panics; a panic is kept apart from an error because the
  code handles the one and not the other.  \<^verbatim>\<open>log.Fatal\<close>, which ends the process, is listed with
  the panics.
\<close>

type_synonym go_error = string

datatype go_panic = NilDereference | SliceCapacity | CounterDecrease | LabelCardinality | LabelEncoding | IndexOutOfRange | ProcessExit

datatype fault = Err go_error | Panic go_panic

type_synonym 'a result = "fault + 'a"

definition bind_result :: "'a result \<Rightarrow> ('a \<Rightarrow> 'b result) \<Rightarrow> 'b result" where
  "bind_result r f = (case r of Inl e \<Rightarrow> Inl e | Inr a \<Rightarrow> f a)"

lemma bind_result_simps [simp]:
  "bind_result (Inl e) f = Inl e"
  "bind_result (Inr a) f = f a"
  by (simp_all add: bind_result_def)

lemma bind_result_Inr: "bind_result r f = Inr b \<longleftrightarrow> (\<exists>a. r = Inr a \<and> f a = Inr b)"
  by (cases r) auto

text \<open>
  An operation on a state \<open>'s\<close> that may fail after it has changed the state: the state is
  returned on both paths.
\<close>

type_synonym ('s, 'a) op = "'s \<Rightarrow> 'a result \<times> 's"

definition op_return :: "'a \<Rightarrow> ('s, 'a) op" where
  "op_return a s = (Inr a, s)"

definition op_bind :: "('s, 'a) op \<Rightarrow> ('a \<Rightarrow> ('s, 'b) op) \<Rightarrow> ('s, 'b) op" where
  "op_bind f g s = (case f s of (Inl e, s') \<Rightarrow> (Inl e, s') | (Inr a, s') \<Rightarrow> g a s')"

lemma op_return_apply [simp]: "op_return a s = (Inr a, s)"
  by (simp add: op_return_def)

lemma op_bind_Inl: "f s = (Inl e, s') \<Longrightarrow> op_bind f g s = (Inl e, s')"
  by (simp add: op_bind_def)

lemma op_bind_Inr: "f s = (Inr a, s') \<Longrightarrow> op_bind f g s = g a s'"
  by (simp add: op_bind_def)

text \<open>The views of such an operation as an update and as a query, for contracts on the error-free path.\<close>

definition as_update :: "('s, 'a) op \<Rightarrow> 's \<Rightarrow> 's result" where
  "as_update f s = (case f s of (Inl e, _) \<Rightarrow> Inl e | (Inr _, s') \<Rightarrow> Inr s')"

definition as_query :: "('s, 'a) op \<Rightarrow> 's \<Rightarrow> 'a result" where
  "as_query f s = fst (f s)"

definition as_insert :: "('s, 'a) op \<Rightarrow> 's \<Rightarrow> ('a \<times> 's) result" where
  "as_insert f s = (case f s of (Inl e, _) \<Rightarrow> Inl e | (Inr a, s') \<Rightarrow> Inr (a, s'))"

section \<open>Go maps as association lists\<close>

type_synonym ('k, 'v) gomap = "('k \<times> 'v) list"

definition keys :: "('k, 'v) gomap \<Rightarrow> 'k list" where
  "keys m = map fst m"

definition wf_map :: "('k, 'v) gomap \<Rightarrow> bool" where
  "wf_map m = distinct (keys m)"

lemma set_keys [simp]: "set (keys m) = dom (map_of m)"
  by (simp add: keys_def dom_map_of_conv_image_fst)

lemma keys_Nil [simp]: "keys [] = []"
  by (simp add: keys_def)

lemma keys_Cons [simp]: "keys (p # m) = fst p # keys m"
  by (simp add: keys_def)

lemma wf_map_Nil [simp]: "wf_map []"
  by (simp add: wf_map_def)

lemma wf_map_Cons [simp]: "wf_map (p # m) = (map_of m (fst p) = None \<and> wf_map m)"
  by (auto simp: wf_map_def domIff)

lemma wf_map_update [intro]: "wf_map m \<Longrightarrow> wf_map (AList.update k v m)"
  by (simp add: wf_map_def keys_def distinct_update)

lemma wf_map_delete [intro]: "wf_map m \<Longrightarrow> wf_map (AList.delete k m)"
  by (simp add: wf_map_def keys_def distinct_delete)

lemma wf_map_filter [intro]: "wf_map m \<Longrightarrow> wf_map (filter P m)"
  by (simp add: wf_map_def keys_def distinct_map_filter)

lemma map_of_update [simp]: "map_of (AList.update k v m) = (map_of m)(k \<mapsto> v)"
  by (rule update_conv')

lemma map_of_delete [simp]: "map_of (AList.delete k m) = (map_of m)(k := None)"
  by (rule delete_conv')

lemma wf_map_in_set: "wf_map m \<Longrightarrow> (k, v) \<in> set m \<longleftrightarrow> map_of m k = Some v"
  by (simp add: wf_map_def keys_def)

lemma map_of_filter_key:
  "map_of (filter (\<lambda>(k, v). P k) m) k = (if P k then map_of m k else None)"
  by (induction m) auto

end
