(* ===== verification/Go_Float.thy ===== *)
theory Go_Float
  imports Visus_Prelude Complex_Main "HOL-Library.Log_Nat" "HOL-Library.Word"
begin

text \<open>
  Go's \<^verbatim>\<open>float64\<close>: finite values as rationals, rounded to nearest, ties to even, with 53
  significant bits, a least exponent of -1074 and overflow to an infinity, as the language
  takes them from IEEE 754.  Negative zero is identified with zero: no operation of the
  program tells them apart.  The theory gives the operations the translator and the collector
  use (\<^verbatim>\<open>+ - * / < <= ==\<close>, conversions from and to integers, \<^verbatim>\<open>math.Floor\<close>,
  \<^verbatim>\<open>math.Pow10\<close>), and the facts their proofs rest on: rounding is monotone, exact on
  integers up to \<open>2 ^ 53\<close>, and has a bounded relative error.
\<close>

datatype float64 = Fin rat | PInf | NInf | NaN

section \<open>Rounding a rational\<close>

definition rhe :: "rat \<Rightarrow> int" where
  "rhe x = (let f = \<lfloor>x\<rfloor>; d = x - of_int f
            in if d < 1/2 then f else if d > 1/2 then f + 1 else if even f then f else f + 1)"

definition ilog2 :: "rat \<Rightarrow> int" where
  "ilog2 x = (if x \<ge> 1 then bitlen \<lfloor>x\<rfloor> - 1 else - bitlen (\<lceil>1 / x\<rceil> - 1))"

definition qexp :: "rat \<Rightarrow> int" where
  "qexp x = max (ilog2 \<bar>x\<bar> - 52) (-1074)"

definition rnd_at :: "int \<Rightarrow> rat \<Rightarrow> rat" where
  "rnd_at k x = of_int (rhe (x / 2 powi k)) * 2 powi k"

definition rnd :: "rat \<Rightarrow> rat" where
  "rnd x = (if x = 0 then 0 else rnd_at (qexp x) x)"

text \<open>A rounded magnitude of \<open>2 ^ 1024\<close> or more overflows to the infinity of its sign.\<close>

definition round64 :: "rat \<Rightarrow> float64" where
  "round64 x = (let r = rnd x in
     if r = 0 \<or> ilog2 \<bar>r\<bar> < 1024 then Fin r else if r > 0 then PInf else NInf)"

text \<open>A magnitude below which rounding never overflows.\<close>

definition huge :: rat where
  "huge = 2 powi 1023"

section \<open>Operations\<close>

fun fneg :: "float64 \<Rightarrow> float64" where
  "fneg (Fin a) = Fin (- a)"
| "fneg PInf = NInf"
| "fneg NInf = PInf"
| "fneg NaN = NaN"

fun fadd :: "float64 \<Rightarrow> float64 \<Rightarrow> float64" where
  "fadd (Fin a) (Fin b) = round64 (a + b)"
| "fadd NaN _ = NaN"
| "fadd _ NaN = NaN"
| "fadd PInf NInf = NaN"
| "fadd NInf PInf = NaN"
| "fadd PInf _ = PInf"
| "fadd NInf _ = NInf"
| "fadd _ PInf = PInf"
| "fadd _ NInf = NInf"

definition fsub :: "float64 \<Rightarrow> float64 \<Rightarrow> float64" where
  "fsub a b = fadd a (fneg b)"

definition finf_sgn :: "rat \<Rightarrow> float64" where
  "finf_sgn s = (if s > 0 then PInf else if s < 0 then NInf else NaN)"

fun fsgn :: "float64 \<Rightarrow> rat" where
  "fsgn (Fin a) = sgn a"
| "fsgn PInf = 1"
| "fsgn NInf = -1"
| "fsgn NaN = 0"

fun fmul :: "float64 \<Rightarrow> float64 \<Rightarrow> float64" where
  "fmul (Fin a) (Fin b) = round64 (a * b)"
| "fmul NaN _ = NaN"
| "fmul _ NaN = NaN"
| "fmul a b = finf_sgn (fsgn a * fsgn b)"

fun fdiv :: "float64 \<Rightarrow> float64 \<Rightarrow> float64" where
  "fdiv (Fin a) (Fin b) = (if b = 0 then finf_sgn (sgn a) else round64 (a / b))"
| "fdiv NaN _ = NaN"
| "fdiv _ NaN = NaN"
| "fdiv (Fin a) _ = Fin 0"
| "fdiv a (Fin b) = (if b = 0 then a else finf_sgn (fsgn a * sgn b))"
| "fdiv _ _ = NaN"

fun flt :: "float64 \<Rightarrow> float64 \<Rightarrow> bool" where
  "flt (Fin a) (Fin b) = (a < b)"
| "flt NaN _ = False"
| "flt _ NaN = False"
| "flt NInf b = (b \<noteq> NInf)"
| "flt _ NInf = False"
| "flt PInf _ = False"
| "flt _ PInf = True"

fun feq :: "float64 \<Rightarrow> float64 \<Rightarrow> bool" where
  "feq NaN _ = False"
| "feq a b = (a = b)"

definition fle :: "float64 \<Rightarrow> float64 \<Rightarrow> bool" where
  "fle a b = (flt a b \<or> feq a b)"

fun ffloor :: "float64 \<Rightarrow> float64" where
  "ffloor (Fin a) = Fin (of_int \<lfloor>a\<rfloor>)"
| "ffloor a = a"

definition float_of_int :: "int \<Rightarrow> float64" where
  "float_of_int n = round64 (of_int n)"

definition float_of_uint64 :: "64 word \<Rightarrow> float64" where
  "float_of_uint64 w = round64 (of_int (uint w))"

text \<open>
  The conversion \<^verbatim>\<open>uint64(x)\<close>: truncation towards zero; the language leaves the result open
  when the value does not fit, so that result is the argument \<open>oor\<close>.
\<close>

fun uint64_of_float :: "(float64 \<Rightarrow> 64 word) \<Rightarrow> float64 \<Rightarrow> 64 word" where
  "uint64_of_float oor (Fin a) =
     (if -1 < a \<and> a < 2 ^ 64 then word_of_int \<lfloor>\<bar>a\<bar>\<rfloor> else oor (Fin a))"
| "uint64_of_float oor x = oor x"

text \<open>
  \<^verbatim>\<open>math.Pow10\<close>: a table for exponents below 32, a product (or quotient) of two table
  entries beyond, and the limits the library documents.
\<close>

definition pow10tab :: "nat \<Rightarrow> float64" where
  "pow10tab n = round64 (10 ^ n)"

definition pow10 :: "int \<Rightarrow> float64" where
  "pow10 n =
     (if 0 \<le> n \<and> n \<le> 308
      then fmul (pow10tab (32 * (nat n div 32))) (pow10tab (nat n mod 32))
      else if -323 \<le> n \<and> n \<le> 0
      then fdiv (round64 (1 / 10 ^ (32 * (nat (- n) div 32)))) (pow10tab (nat (- n) mod 32))
      else if n > 0 then PInf else Fin 0)"

section \<open>Binary exponents\<close>

lemma bitlen_le: "x > 0 \<Longrightarrow> 2 ^ nat (bitlen x - 1) \<le> x" and bitlen_gt: "x > 0 \<Longrightarrow> x < 2 ^ nat (bitlen x)"
  using bitlen_bounds[of x] by auto

lemma bitlen_pos: "x > 0 \<Longrightarrow> bitlen x > 0"
  by (subst compute_bitlen) (simp add: bitlen_nonneg add_nonneg_pos)

lemma ilog2_bounds:
  assumes "x > 0"
  shows "2 powi ilog2 x \<le> x" "x < 2 powi (ilog2 x + 1)"
proof -
  have "2 powi ilog2 x \<le> x \<and> x < 2 powi (ilog2 x + 1)"
  proof (cases "x \<ge> 1")
    case True
    define n where "n = \<lfloor>x\<rfloor>"
    from True have n: "n > 0" by (simp add: n_def)
    then have b: "bitlen n > 0" by (rule bitlen_pos)
    have "(2::rat) powi ilog2 x = of_int (2 ^ nat (bitlen n - 1))"
      using True b by (simp add: ilog2_def n_def power_int_def)
    also have "\<dots> \<le> of_int n" using bitlen_le[OF n] by (simp only: of_int_le_iff)
    also have "\<dots> \<le> x" by (simp add: n_def)
    finally have lo: "2 powi ilog2 x \<le> x" .
    have "x < of_int (n + 1)" unfolding n_def using floor_correct[of x] by simp
    also have "\<dots> \<le> of_int (2 ^ nat (bitlen n))" using bitlen_gt[OF n] by (simp only: of_int_le_iff)
    also have "\<dots> = 2 powi (ilog2 x + 1)"
      using True b by (simp add: ilog2_def n_def power_int_def)
    finally show ?thesis using lo by simp
  next
    case False
    define n where "n = \<lceil>1 / x\<rceil> - 1"
    from False assms have y: "1 / x > 1" by simp
    then have n: "n > 0" unfolding n_def by linarith
    then have b: "bitlen n > 0" by (rule bitlen_pos)
    have e: "ilog2 x = - bitlen n" using False by (simp add: ilog2_def n_def)
    have "1 / x \<le> of_int (n + 1)" by (simp add: n_def)
    also have "\<dots> \<le> of_int (2 ^ nat (bitlen n))" using bitlen_gt[OF n] by (simp only: of_int_le_iff)
    finally have "1 / x \<le> 2 powi bitlen n" using b by (simp add: power_int_def)
    then have lo: "2 powi ilog2 x \<le> x" using assms e by (simp add: power_int_minus field_simps)
    have "of_int (2 ^ nat (bitlen n - 1)) \<le> (of_int n :: rat)" using bitlen_le[OF n] by (simp only: of_int_le_iff)
    also have "\<dots> < 1 / x" unfolding n_def by linarith
    finally have "2 powi (bitlen n - 1) < 1 / x" using b by (simp add: power_int_def)
    then have "x < inverse (2 powi (bitlen n - 1))" using assms by (simp add: field_simps)
    also have "\<dots> = 2 powi (ilog2 x + 1)" by (simp add: e flip: power_int_minus)
    finally show ?thesis using lo by simp
  qed
  then show "2 powi ilog2 x \<le> x" "x < 2 powi (ilog2 x + 1)" by auto
qed

lemma powi2_less_iff [simp]: "((2::rat) powi a < 2 powi b) = (a < b)"
  by (metis linorder_neqE order_less_asym one_less_numeral_iff power_int_strict_increasing semiring_norm(76))

lemma powi2_pos: "(0::rat) < 2 powi k"
  by simp

lemma powi2_le_iff [simp]: "((2::rat) powi a \<le> 2 powi b) = (a \<le> b)"
  by (simp flip: not_less)

lemma ilog2_unique: "x > 0 \<Longrightarrow> 2 powi k \<le> x \<Longrightarrow> x < 2 powi (k + 1) \<Longrightarrow> ilog2 x = k"
proof -
  assume x: "x > 0" and lo: "2 powi k \<le> x" and hi: "x < 2 powi (k + 1)"
  from ilog2_bounds[OF x] lo hi have "(2::rat) powi ilog2 x < 2 powi (k + 1)" "(2::rat) powi k < 2 powi (ilog2 x + 1)"
    by linarith+
  then show ?thesis by simp
qed

lemma ilog2_mono: "0 < x \<Longrightarrow> x \<le> y \<Longrightarrow> ilog2 x \<le> ilog2 y"
proof -
  assume x: "0 < x" and le: "x \<le> y"
  have "(2::rat) powi ilog2 x < 2 powi (ilog2 y + 1)"
    using ilog2_bounds(1)[OF x] ilog2_bounds(2)[of y] x le by linarith
  then show ?thesis by simp
qed

section \<open>Round half to even\<close>

lemma rhe_of_int [simp]: "rhe (of_int n) = n"
  by (simp add: rhe_def)

lemma rhe_floor_cases: "rhe x = \<lfloor>x\<rfloor> \<or> rhe x = \<lfloor>x\<rfloor> + 1"
  by (simp add: rhe_def Let_def)

lemma rhe_error: "\<bar>of_int (rhe x) - x\<bar> \<le> 1/2"
proof -
  have "of_int \<lfloor>x\<rfloor> \<le> x" "x < of_int \<lfloor>x\<rfloor> + 1" using floor_correct[of x] by auto
  then show ?thesis by (simp add: rhe_def Let_def)
qed

lemma rhe_mono: assumes "x \<le> y" shows "rhe x \<le> rhe y"
proof (cases "\<lfloor>x\<rfloor> = \<lfloor>y\<rfloor>")
  case True
  with assms show ?thesis by (auto simp: rhe_def Let_def)
next
  case False
  with floor_mono[OF assms] have "\<lfloor>x\<rfloor> + 1 \<le> \<lfloor>y\<rfloor>" by simp
  with rhe_floor_cases[of x] rhe_floor_cases[of y] show ?thesis by linarith
qed

lemma rhe_eqI: "\<bar>x - of_int n\<bar> < 1/2 \<Longrightarrow> rhe x = n"
proof -
  assume "\<bar>x - of_int n\<bar> < 1/2"
  with rhe_error[of x] have "\<bar>of_int (rhe x) - (of_int n :: rat)\<bar> < 1" by linarith
  then have "\<bar>of_int (rhe x - n) :: rat\<bar> < 1" by simp
  then show ?thesis by linarith
qed

lemma rhe_minus: "rhe (- x) = - rhe x"
proof (cases "x \<in> \<int>")
  case True
  then obtain n where "x = of_int n" by (auto elim: Ints_cases)
  then show ?thesis using rhe_of_int[of "- n"] by simp
next
  case False
  then have "x \<noteq> of_int \<lfloor>x\<rfloor>" by (metis Ints_of_int)
  then have f: "\<lfloor>- x\<rfloor> = - \<lfloor>x\<rfloor> - 1" using ceiling_altdef[of x] by (auto simp: ceiling_def split: if_splits)
  show ?thesis by (auto simp: rhe_def Let_def f)
qed

section \<open>Rounding on a grid\<close>

lemma rnd_at_mono: "x \<le> y \<Longrightarrow> rnd_at k x \<le> rnd_at k y"
  by (simp add: rnd_at_def rhe_mono divide_right_mono)

lemma rnd_at_minus: "rnd_at k (- x) = - rnd_at k x"
  by (simp add: rnd_at_def rhe_minus)

lemma rnd_at_exact:
  assumes "k \<le> j"
  shows "rnd_at k (of_int m * 2 powi j) = of_int m * 2 powi j"
proof -
  have j: "(2::rat) powi j = 2 ^ nat (j - k) * 2 powi k"
    using assms by (simp flip: power_int_add power_int_of_nat)
  have "of_int m * 2 powi j / 2 powi k = (of_int (m * 2 ^ nat (j - k)) :: rat)"
    by (simp add: j)
  then have "rhe (of_int m * 2 powi j / 2 powi k) = m * 2 ^ nat (j - k)"
    using rhe_of_int by metis
  then show ?thesis by (simp add: rnd_at_def j)
qed

lemma rnd_at_error: "\<bar>rnd_at k x - x\<bar> \<le> 2 powi k / 2"
proof -
  have "rnd_at k x - x = (of_int (rhe (x / 2 powi k)) - x / 2 powi k) * 2 powi k"
    by (simp add: rnd_at_def field_simps)
  then show ?thesis using rhe_error[of "x / 2 powi k"]
    by (simp add: abs_mult mult_right_mono)
qed

section \<open>Rounding to 53 bits\<close>

lemma qexp_minus [simp]: "qexp (- x) = qexp x"
  by (simp add: qexp_def)

lemma rnd_minus: "rnd (- x) = - rnd x"
  by (simp add: rnd_def rnd_at_minus)

lemma rnd_0 [simp]: "rnd 0 = 0"
  by (simp add: rnd_def)

lemma rnd_exact:
  assumes "\<bar>m\<bar> \<le> 2 ^ 53" and "-1074 \<le> k"
  shows "rnd (of_int m * 2 powi k) = of_int m * 2 powi k"
proof (cases "m = 0")
  case False
  let ?x = "of_int m * 2 powi k :: rat"
  from False have pos: "\<bar>?x\<bar> > 0" by simp
  have ax: "\<bar>?x\<bar> = of_int \<bar>m\<bar> * 2 powi k" by (simp add: abs_mult)
  show ?thesis
  proof (cases "\<bar>m\<bar> = 2 ^ 53")
    case True
    have "\<bar>?x\<bar> = 2 powi (k + 53)" by (simp add: ax True power_int_add)
    then have "ilog2 \<bar>?x\<bar> = k + 53" using pos by (intro ilog2_unique) auto
    then have q: "qexp ?x \<le> k + 1" using assms(2) by (simp add: qexp_def)
    have "?x = of_int (sgn m * 2 ^ 52) * 2 powi (k + 1)"
      using True False by (auto simp: power_int_add abs_if split: if_splits)
    with rnd_at_exact[OF q, of "sgn m * 2 ^ 52"] False show ?thesis by (simp add: rnd_def)
  next
    case neq: False
    with assms(1) have "\<bar>m\<bar> < 2 ^ 53" by linarith
    then have "of_int \<bar>m\<bar> < (2 ^ 53 :: rat)" by (simp flip: of_int_less_iff)
    then have "\<bar>?x\<bar> < 2 ^ 53 * 2 powi k" by (simp add: abs_mult)
    also have "\<dots> = 2 powi (k + 53)" by (simp add: power_int_add)
    finally have "(2::rat) powi ilog2 \<bar>?x\<bar> < 2 powi (k + 53)" using ilog2_bounds(1)[OF pos] by linarith
    then have "ilog2 \<bar>?x\<bar> < k + 53" by simp
    then have "qexp ?x \<le> k" using assms(2) by (simp add: qexp_def)
    from rnd_at_exact[OF this, of m] False show ?thesis by (simp add: rnd_def)
  qed
qed simp

lemma rnd_of_int: "\<bar>n\<bar> \<le> 2 ^ 53 \<Longrightarrow> rnd (of_int n) = of_int n"
  using rnd_exact[of n 0] by simp

lemma rnd_numeral [simp]: "numeral w \<le> (2 ^ 53 :: int) \<Longrightarrow> rnd (numeral w) = numeral w"
  using rnd_of_int[of "numeral w"] by simp

lemma rnd_1 [simp]: "rnd 1 = 1"
  using rnd_of_int[of 1] by simp

lemma rnd_nonneg: "0 \<le> x \<Longrightarrow> 0 \<le> rnd x"
  using rnd_at_mono[of 0 x "qexp x"] rhe_of_int[of 0] by (auto simp: rnd_def rnd_at_def)

lemma ilog2_ge: "2 powi k \<le> x \<Longrightarrow> k \<le> ilog2 x"
proof -
  assume le: "2 powi k \<le> x"
  then have pos: "0 < x" using powi2_pos[of k] by linarith
  have "(2::rat) powi k < 2 powi (ilog2 x + 1)" using le ilog2_bounds(2)[OF pos] by linarith
  then show ?thesis by simp
qed

lemma rnd_mono_pos:
  assumes "0 < x" and "x \<le> y"
  shows "rnd x \<le> rnd y"
proof (cases "qexp x = qexp y")
  case True
  with assms rnd_at_mono[OF assms(2)] show ?thesis by (simp add: rnd_def)
next
  case False
  let ?B = "2 powi ilog2 y :: rat"
  from assms have y: "0 < y" by simp
  have "qexp x \<le> qexp y" using ilog2_mono[OF assms] assms y by (simp add: qexp_def)
  with False have q: "qexp x < qexp y" by simp
  then have e: "qexp y = ilog2 y - 52" and lt: "ilog2 x < ilog2 y"
    using assms y by (auto simp: qexp_def max_def split: if_splits)
  have "x < 2 powi (ilog2 x + 1)" by (rule ilog2_bounds(2)[OF assms(1)])
  also have "\<dots> \<le> ?B" using lt by simp
  finally have "x \<le> ?B" by simp
  then have "rnd x \<le> rnd_at (qexp x) ?B" using assms rnd_at_mono by (simp add: rnd_def)
  also have "\<dots> = ?B" using rnd_at_exact[of "qexp x" "ilog2 y" 1] q e by simp
  also have "?B = rnd_at (qexp y) ?B" using rnd_at_exact[of "qexp y" "ilog2 y" 1] e by simp
  also have "\<dots> \<le> rnd y" using ilog2_bounds(1)[OF y] rnd_at_mono y by (simp add: rnd_def)
  finally show ?thesis .
qed

lemma rnd_mono: assumes "x \<le> y" shows "rnd x \<le> rnd y"
proof -
  consider "0 < x" | "x \<le> 0" "0 \<le> y" | "y < 0" by linarith
  then show ?thesis
  proof cases
    case 1
    then show ?thesis using assms by (rule rnd_mono_pos)
  next
    case 2
    from rnd_nonneg[of "- x"] 2 have "rnd x \<le> 0" by (simp add: rnd_minus)
    with rnd_nonneg[OF 2(2)] show ?thesis by linarith
  next
    case 3
    with assms rnd_mono_pos[of "- y" "- x"] show ?thesis by (simp add: rnd_minus)
  qed
qed

lemma rnd_at_grid: "\<exists>m. rnd_at k x = of_int m * 2 powi k"
  by (auto simp: rnd_at_def)

lemma rnd_form:
  obtains m k where "rnd x = of_int m * 2 powi k" "\<bar>m\<bar> \<le> 2 ^ 53" "-1074 \<le> k"
proof (cases "x = 0")
  case True
  with that[of 0 0] show ?thesis by simp
next
  case False
  let ?k = "qexp x" and ?m = "rhe (x / 2 powi qexp x)"
  have "\<bar>x\<bar> < 2 powi (ilog2 \<bar>x\<bar> + 1)" using ilog2_bounds(2)[of "\<bar>x\<bar>"] False by simp
  also have "\<dots> \<le> 2 powi (?k + 53)" by (simp add: qexp_def)
  also have "\<dots> = 2 ^ 53 * 2 powi ?k" by (simp add: power_int_add)
  finally have "\<bar>x / 2 powi ?k\<bar> \<le> of_int (2 ^ 53)" by (simp add: field_simps)
  then have "x / 2 powi ?k \<le> of_int (2 ^ 53)" "of_int (- (2 ^ 53)) \<le> x / 2 powi ?k" by linarith+
  then have "?m \<le> 2 ^ 53" "- (2 ^ 53) \<le> ?m" using rhe_mono rhe_of_int by metis+
  then have "\<bar>?m\<bar> \<le> 2 ^ 53" by linarith
  moreover have "rnd x = of_int ?m * 2 powi ?k" using False by (simp add: rnd_def rnd_at_def)
  moreover have "-1074 \<le> ?k" by (simp add: qexp_def)
  ultimately show ?thesis using that by blast
qed

lemma rnd_idem [simp]: "rnd (rnd x) = rnd x"
  by (metis rnd_form rnd_exact)

lemma rnd_rel_error:
  assumes "2 powi (-1022) \<le> \<bar>x\<bar>"
  shows "\<bar>rnd x - x\<bar> \<le> \<bar>x\<bar> / 2 ^ 53"
proof -
  have pos: "0 < \<bar>x\<bar>" using assms powi2_pos[of "-1022"] by linarith
  have q: "qexp x = ilog2 \<bar>x\<bar> - 52" using ilog2_ge[OF assms] by (simp add: qexp_def)
  have "\<bar>rnd x - x\<bar> \<le> 2 powi qexp x / 2" using pos rnd_at_error by (auto simp: rnd_def)
  also have "\<dots> = 2 powi ilog2 \<bar>x\<bar> / 2 ^ 53" by (simp add: q power_int_diff)
  also have "\<dots> \<le> \<bar>x\<bar> / 2 ^ 53" using ilog2_bounds(1)[OF pos] by (simp add: divide_right_mono)
  finally show ?thesis .
qed

lemma rnd_increases:
  assumes x: "rnd x = x" "2 powi (-1022) \<le> x" and d: "x / 2 ^ 52 \<le> d"
  shows "x < rnd (x + d)"
proof -
  let ?k = "ilog2 x - 52"
  have pos: "0 < x" using x(2) powi2_pos[of "-1022"] by linarith
  have k: "-1074 \<le> ?k" and q: "qexp x = ?k" using ilog2_ge[OF x(2)] pos by (simp_all add: qexp_def)
  from rnd_at_grid[of "qexp x" x] obtain m where m: "x = of_int m * 2 powi ?k"
    using x(1) pos q by (auto simp: rnd_def split: if_splits)
  have p52: "(2::rat) powi ilog2 x = 2 ^ 52 * 2 powi ?k" by (simp add: power_int_diff)
  have "x < 2 powi (ilog2 x + 1)" by (rule ilog2_bounds(2)[OF pos])
  also have "\<dots> = 2 ^ 53 * 2 powi ?k" using p52 by (simp add: power_int_add)
  finally have "of_int m * 2 powi ?k < 2 ^ 53 * (2::rat) powi ?k" by (simp only: m[symmetric])
  then have m53: "m < 2 ^ 53" by simp
  have "0 < of_int m * (2::rat) powi ?k" using pos by (simp only: m[symmetric])
  then have "(0::rat) < of_int m" by (rule zero_less_mult_pos2) simp
  then have "0 < m" by simp
  with m53 have "\<bar>m + 1\<bar> \<le> 2 ^ 53" by simp
  then have "rnd (of_int (m + 1) * 2 powi ?k) = of_int (m + 1) * 2 powi ?k" using k by (rule rnd_exact)
  moreover have s: "of_int (m + 1) * 2 powi ?k = x + 2 powi ?k" using m by (simp add: algebra_simps)
  ultimately have ex: "rnd (x + 2 powi ?k) = x + 2 powi ?k" by simp
  have "2 powi ?k = 2 powi ilog2 x / (2 ^ 52 :: rat)" by (simp add: power_int_diff)
  also have "\<dots> \<le> x / 2 ^ 52" using ilog2_bounds(1)[OF pos] by (simp add: divide_right_mono)
  finally have "x + 2 powi ?k \<le> x + d" using d by linarith
  from rnd_mono[OF this] ex powi2_pos[of ?k] show ?thesis by linarith
qed

section \<open>The float64 operations on finite values\<close>

lemma rnd_abs_le: "\<bar>x\<bar> \<le> b \<Longrightarrow> rnd b = b \<Longrightarrow> \<bar>rnd x\<bar> \<le> b"
  using rnd_mono[of x b] rnd_mono[of "- b" x] by (simp add: rnd_minus abs_le_iff)

lemma rnd_powi [simp]: "-1074 \<le> k \<Longrightarrow> rnd (2 powi k) = 2 powi k"
  using rnd_exact[of 1 k] by simp

lemma round64_Fin:
  assumes "\<bar>x\<bar> \<le> huge"
  shows "round64 x = Fin (rnd x)"
proof (cases "rnd x = 0")
  case False
  have "\<bar>rnd x\<bar> \<le> 2 powi 1023" using rnd_abs_le[of x "2 powi 1023"] assms rnd_powi[of 1023]
    unfolding huge_def by simp
  then have "(2::rat) powi ilog2 \<bar>rnd x\<bar> \<le> 2 powi 1023"
    using ilog2_bounds(1)[of "\<bar>rnd x\<bar>"] False by linarith
  then have "ilog2 \<bar>rnd x\<bar> \<le> 1023" by (simp only: powi2_le_iff)
  then show ?thesis by (simp add: round64_def)
qed (simp add: round64_def)

lemma round64_overflow: "round64 x = Fin y \<Longrightarrow> y = rnd x"
  by (auto simp: round64_def Let_def split: if_splits)

lemma huge_ge: "10 ^ 300 \<le> huge"
  unfolding huge_def by simp

lemma round64_of_int [go_float]: "\<bar>n\<bar> \<le> 2 ^ 53 \<Longrightarrow> round64 (of_int n) = Fin (of_int n)"
proof -
  assume n: "\<bar>n\<bar> \<le> 2 ^ 53"
  have "of_int \<bar>n\<bar> \<le> (of_int (2 ^ 53) :: rat)" using n by (simp only: of_int_le_iff)
  then have "\<bar>of_int n :: rat\<bar> \<le> 10 ^ 300" by simp
  with huge_ge have "\<bar>of_int n :: rat\<bar> \<le> huge" by linarith
  from round64_Fin[OF this] rnd_of_int[OF n] show ?thesis by simp
qed

lemma round64_numeral [simp, go_float]: "numeral w \<le> (2 ^ 53 :: int) \<Longrightarrow> round64 (numeral w) = Fin (numeral w)"
  using round64_of_int[of "numeral w"] by simp

lemma round64_0 [simp, go_float]: "round64 0 = Fin 0" and round64_1 [simp, go_float]: "round64 1 = Fin 1"
  using round64_of_int[of 0] round64_of_int[of 1] by simp_all

lemma float_of_int_exact: "\<bar>n\<bar> \<le> 2 ^ 53 \<Longrightarrow> float_of_int n = Fin (of_int n)"
  by (simp add: float_of_int_def round64_of_int)

lemma fadd_int: "\<bar>a + b\<bar> \<le> 2 ^ 53 \<Longrightarrow> fadd (Fin (of_int a)) (Fin (of_int b)) = Fin (of_int (a + b))"
  using round64_of_int[of "a + b"] by simp

lemma fsub_int: "\<bar>a - b\<bar> \<le> 2 ^ 53 \<Longrightarrow> fsub (Fin (of_int a)) (Fin (of_int b)) = Fin (of_int (a - b))"
  using round64_of_int[of "a - b"] by (simp add: fsub_def)

lemma fle_refl_Fin [simp]: "fle (Fin a) (Fin b) = (a \<le> b)"
  by (auto simp: fle_def)

lemma pow10_exact: assumes "0 \<le> n" "n \<le> 22" shows "pow10 n = Fin (10 ^ nat n)"
proof -
  have "(5::int) ^ nat n \<le> 5 ^ 22" using assms by (intro power_increasing) auto
  then have b: "\<bar>5 ^ nat n :: int\<bar> \<le> 2 ^ 53" by simp
  have "(10::rat) ^ nat n = of_int (5 ^ nat n) * 2 powi (int (nat n))"
    by (simp only: power_int_of_nat of_int_power of_int_numeral flip: power_mult_distrib) simp
  then have r: "rnd (10 ^ nat n) = 10 ^ nat n" using rnd_exact[OF b, of "int (nat n)"] by simp
  have "(10::rat) ^ nat n \<le> 10 ^ 300" using assms by (intro power_increasing) auto
  then have "\<bar>10 ^ nat n :: rat\<bar> \<le> huge" using huge_ge by simp
  from round64_Fin[OF this] r have t: "round64 (10 ^ nat n) = Fin (10 ^ nat n)" by simp
  have "nat n div 32 = 0" "nat n mod 32 = nat n" using assms by auto
  then show ?thesis using assms t by (simp add: pow10_def pow10tab_def)
qed

end
