(* ===== verification/Store_Model.thy ===== *)
theory Store_Model
  imports Visus_Prelude
begin

text \<open>
  The configuration data of \<^verbatim>\<open>internal/store\<close> (\<^verbatim>\<open>collection.go\<close>, \<^verbatim>\<open>histogram.go\<close>,
  \<^verbatim>\<open>scan.go\<close>, \<^verbatim>\<open>node.go\<close>).  Go strings are byte strings (\<open>string\<close>); a
  \<^verbatim>\<open>time.Time\<close> is the number of nanoseconds since the epoch; Go's \<^verbatim>\<open>int\<close> and
  \<^verbatim>\<open>int64\<close> are integers, with the 64-bit wrap-around written out (\<open>wrap64\<close>) where the code
  computes with them; a typed string constant (\<^verbatim>\<open>Scope\<close>, \<^verbatim>\<open>Kind\<close>, \<^verbatim>\<open>LogFormat\<close>) is
  the string it stands for, since the database may hold any other.
\<close>

definition wrap64 :: "int \<Rightarrow> int" where
  "wrap64 n = (n + 2 ^ 63) mod 2 ^ 64 - 2 ^ 63"

text \<open>Go's integer division truncates towards zero.\<close>

definition quot :: "int \<Rightarrow> int \<Rightarrow> int" where
  "quot a b = sgn a * sgn b * (\<bar>a\<bar> div \<bar>b\<bar>)"

type_synonym time = int

definition Cluster :: string where "Cluster = ''cluster''"
definition Node :: string where "Node = ''node''"
definition Counter :: string where "Counter = ''counter''"
definition Gauge :: string where "Gauge = ''gauge''"
definition CRDBv2 :: string where "CRDBv2 = ''crdb-v2''"
definition CRDBv2Auth :: string where "CRDBv2Auth = ''crdb-v2-auth''"

record Metric =
  metric_Name :: string
  metric_Kind :: string
  metric_Help :: string

text \<open>The fields of \<^verbatim>\<open>pgtype.Interval\<close>; the code reads and writes the microseconds only.\<close>

record Interval =
  Microseconds :: int
  Days :: int
  Months :: int

record Collection =
  coll_Databases :: string
  coll_Enabled :: bool
  coll_Frequency :: Interval
  coll_Labels :: "string list"
  coll_LastModified :: time
  coll_MaxResult :: int
  coll_Metrics :: "Metric list"
  coll_Name :: string
  coll_Query :: string
  coll_Scope :: string

record Histogram =
  hist_Enabled :: bool
  hist_Name :: string
  hist_Bins :: int
  hist_Start :: int
  hist_End :: int
  hist_Regex :: string
  hist_LastModified :: time

record Pattern =
  pat_Help :: string
  pat_Name :: string
  pat_Exclude :: string
  pat_Regex :: string

record Scan =
  scan_Enabled :: bool
  scan_Format :: string
  scan_LastModified :: time
  scan_Name :: string
  scan_Path :: string
  scan_Patterns :: "Pattern list"

record NodeInfo =
  node_ID :: int
  node_Hostname :: string
  node_PID :: int
  node_Version :: string
  node_Updated :: time

lemma wrap64_id: "- (2 ^ 63) \<le> n \<Longrightarrow> n < 2 ^ 63 \<Longrightarrow> wrap64 n = n"
  by (simp add: wrap64_def)

lemma wrap64_range: "- (2 ^ 63) \<le> wrap64 n \<and> wrap64 n < 2 ^ 63"
  by (simp add: wrap64_def)

lemma quot_mult_cancel: assumes "b \<noteq> 0" shows "quot (a * b) b = a"
proof -
  have "quot (a * b) b = sgn a * \<bar>a\<bar> * (sgn b * sgn b)"
    using assms by (simp add: quot_def abs_mult sgn_mult)
  also have "sgn b * sgn b = 1" using assms by (simp add: sgn_if)
  finally show ?thesis by (simp add: sgn_mult_abs)
qed

lemma sort_key_desc:
  "sorted_wrt (\<lambda>a b. f b \<le> f a) (sort_key (\<lambda>n. - f n) xs)" for f :: "'a \<Rightarrow> int"
  using sorted_sort_key[of "\<lambda>n. - f n" xs] by (simp add: sorted_wrt_map)

lemma distinct_map_sort_key: "distinct (map g (sort_key f xs)) = distinct (map g xs)"
  by (simp add: distinct_map)

section \<open>The contract of a configuration store\<close>

text \<open>
  What a client of \<^verbatim>\<open>store.Store\<close> relies on, for one kind of configuration (collections,
  histograms or scans): a healthy store is a partial map from names, \<open>put\<close> binds the name of
  its argument to what the store shows of it, \<open>delete\<close> unbinds, the listing names exactly the
  bound names.  Both \<^verbatim>\<open>Memory\<close> and the SQL store are instances.
\<close>

locale named_store =
  fixes put :: "'a \<Rightarrow> 's \<Rightarrow> 's result"
    and get :: "'s \<Rightarrow> string \<Rightarrow> 'a option result"
    and delete :: "string \<Rightarrow> 's \<Rightarrow> 's result"
    and names :: "'s \<Rightarrow> string list result"
    and key :: "'a \<Rightarrow> string"
    and healthy :: "'s \<Rightarrow> bool"
    and storable :: "'a \<Rightarrow> bool"
    and shown :: "'s \<Rightarrow> 'a \<Rightarrow> 'a"
    and content :: "'s \<Rightarrow> string \<Rightarrow> 'a option"
  assumes get_content: "healthy s \<Longrightarrow> get s n = Inr (content s n)"
    and put_content: "healthy s \<Longrightarrow> storable x \<Longrightarrow>
      \<exists>s'. put x s = Inr s' \<and> healthy s' \<and> content s' = (content s)(key x \<mapsto> shown s x)"
    and delete_content: "healthy s \<Longrightarrow>
      \<exists>s'. delete n s = Inr s' \<and> healthy s' \<and> content s' = (content s)(n := None)"
    and names_content: "healthy s \<Longrightarrow>
      \<exists>ns. names s = Inr ns \<and> distinct ns \<and> set ns = dom (content s)"
begin

lemma put_get:
  assumes "healthy s" "storable x"
  shows "bind_result (put x s) (\<lambda>s'. get s' n) = Inr (if n = key x then Some (shown s x) else content s n)"
  using put_content[OF assms] get_content by fastforce

lemma delete_get:
  assumes "healthy s"
  shows "bind_result (delete d s) (\<lambda>s'. get s' n) = Inr (if n = d then None else content s n)"
  using delete_content[OF assms, of d] get_content by fastforce

lemma put_names:
  assumes "healthy s" "storable x"
  shows "\<exists>ns. bind_result (put x s) names = Inr ns \<and> distinct ns \<and> set ns = insert (key x) (dom (content s))"
  using put_content[OF assms] names_content by fastforce

lemma delete_names:
  assumes "healthy s"
  shows "\<exists>ns. bind_result (delete d s) names = Inr ns \<and> distinct ns \<and> set ns = dom (content s) - {d}"
  using delete_content[OF assms, of d] names_content by fastforce

text \<open>A listed name resolves as long as nobody deletes it between the listing and the lookup.\<close>

lemma listed_resolves:
  assumes "healthy s" "names s = Inr ns" "n \<in> set ns"
  shows "\<exists>x. get s n = Inr (Some x) \<and> content s n = Some x"
  using names_content[OF assms(1)] assms get_content[OF assms(1)] by auto

end

section \<open>The contract of the node registry\<close>

text \<open>
  The registry of running nodes: \<open>register\<close> adds a row under a fresh identifier, \<open>heartbeat\<close>
  refreshes the time of a row and ignores an unknown identifier, \<open>nodes\<close> lists the rows that
  are visible, the most recent first.  \<open>room\<close> says that the supply of identifiers is not
  exhausted.
\<close>

definition beat :: "time \<Rightarrow> NodeInfo \<Rightarrow> NodeInfo" where
  "beat t n = n\<lparr>node_Updated := t\<rparr>"

locale node_registry =
  fixes register :: "string \<Rightarrow> int \<Rightarrow> string \<Rightarrow> 's \<Rightarrow> (int \<times> 's) result"
    and heartbeat :: "int \<Rightarrow> 's \<Rightarrow> 's result"
    and delete :: "int \<Rightarrow> 's \<Rightarrow> 's result"
    and nodes :: "'s \<Rightarrow> NodeInfo list result"
    and healthy :: "'s \<Rightarrow> bool"
    and room :: "'s \<Rightarrow> bool"
    and now :: "'s \<Rightarrow> time"
    and visible :: "'s \<Rightarrow> NodeInfo \<Rightarrow> bool"
    and reg :: "'s \<Rightarrow> int \<Rightarrow> NodeInfo option"
  assumes reg_ID: "healthy s \<Longrightarrow> reg s i = Some n \<Longrightarrow> node_ID n = i"
    and register_reg: "healthy s \<Longrightarrow> room s \<Longrightarrow>
      \<exists>i s'. register h p v s = Inr (i, s') \<and> healthy s' \<and> now s' = now s \<and> reg s i = None
        \<and> reg s' = (reg s)(i \<mapsto> \<lparr>node_ID = i, node_Hostname = h, node_PID = p, node_Version = v, node_Updated = now s\<rparr>)"
    and heartbeat_reg: "healthy s \<Longrightarrow>
      \<exists>s'. heartbeat i s = Inr s' \<and> healthy s' \<and> now s' = now s \<and> reg s' = (reg s)(i := map_option (beat (now s)) (reg s i))"
    and delete_reg: "healthy s \<Longrightarrow>
      \<exists>s'. delete i s = Inr s' \<and> healthy s' \<and> now s' = now s \<and> reg s' = (reg s)(i := None)"
    and nodes_reg: "healthy s \<Longrightarrow>
      \<exists>ns. nodes s = Inr ns \<and> distinct (map node_ID ns) \<and> sorted_wrt (\<lambda>a b. node_Updated b \<le> node_Updated a) ns
        \<and> set ns = {n. visible s n \<and> (\<exists>i. reg s i = Some n)}"
    and visible_now: "node_Updated n = now s \<Longrightarrow> visible s n"
begin

text \<open>A registered node is listed under an identifier nobody had.\<close>

lemma register_listed:
  assumes "healthy s" "room s"
  shows "\<exists>i s' ns. register h p v s = Inr (i, s') \<and> nodes s' = Inr ns \<and> i \<notin> dom (reg s)
    \<and> \<lparr>node_ID = i, node_Hostname = h, node_PID = p, node_Version = v, node_Updated = now s\<rparr> \<in> set ns"
proof -
  obtain i s' where r: "register h p v s = Inr (i, s')" "healthy s'" "now s' = now s" "reg s i = None"
      "reg s' = (reg s)(i \<mapsto> \<lparr>node_ID = i, node_Hostname = h, node_PID = p, node_Version = v, node_Updated = now s\<rparr>)"
    using register_reg[OF assms] by metis
  obtain ns where n: "nodes s' = Inr ns" "set ns = {n. visible s' n \<and> (\<exists>i. reg s' i = Some n)}"
    using nodes_reg[OF r(2)] by metis
  have "reg s' i = Some \<lparr>node_ID = i, node_Hostname = h, node_PID = p, node_Version = v, node_Updated = now s\<rparr>"
    by (simp add: r(5))
  then have "\<lparr>node_ID = i, node_Hostname = h, node_PID = p, node_Version = v, node_Updated = now s\<rparr> \<in> set ns"
    unfolding n(2) using visible_now r(3) by auto
  then show ?thesis using r n by blast
qed

text \<open>A node that sends heartbeats stays listed; a deleted one is not listed.\<close>

lemma heartbeat_listed:
  assumes "healthy s" "reg s i = Some n"
  shows "\<exists>s' ns. heartbeat i s = Inr s' \<and> nodes s' = Inr ns \<and> beat (now s) n \<in> set ns"
proof -
  obtain s' where r: "heartbeat i s = Inr s'" "healthy s'" "now s' = now s"
      "reg s' = (reg s)(i := map_option (beat (now s)) (reg s i))"
    using heartbeat_reg[OF assms(1)] by metis
  obtain ns where ns: "nodes s' = Inr ns" "set ns = {n. visible s' n \<and> (\<exists>i. reg s' i = Some n)}"
    using nodes_reg[OF r(2)] by metis
  have "reg s' i = Some (beat (now s) n)" by (simp add: r(4) assms(2))
  moreover have "visible s' (beat (now s) n)" by (rule visible_now) (simp add: beat_def r(3))
  ultimately show ?thesis using r(1) ns by blast
qed

lemma delete_not_listed:
  assumes "healthy s"
  shows "\<exists>s' ns. delete i s = Inr s' \<and> nodes s' = Inr ns \<and> i \<notin> node_ID ` set ns"
proof -
  obtain s' where r: "delete i s = Inr s'" "healthy s'" "reg s' = (reg s)(i := None)"
    using delete_reg[OF assms] by metis
  obtain ns where ns: "nodes s' = Inr ns" "set ns = {n. visible s' n \<and> (\<exists>i. reg s' i = Some n)}"
    using nodes_reg[OF r(2)] by metis
  have "i \<notin> node_ID ` set ns"
  proof
    assume "i \<in> node_ID ` set ns"
    then obtain n j where "node_ID n = i" "reg s' j = Some n" unfolding ns(2) by blast
    then show False using reg_ID[OF r(2), of j n] r(3) by simp
  qed
  then show ?thesis using r(1) ns(1) by blast
qed

end

end
