(* ===== verification/Translator_Bucket.thy ===== *)
theory Translator_Bucket
  imports Go_Float Store_Model
begin

text \<open>
  \<^verbatim>\<open>internal/translator/bucket.go\<close>: the stream of log-10 linear bins and the redistribution
  of an HDR histogram over it.  Bounds are \<^verbatim>\<open>float64\<close> values with their rounding
  (\<open>Go_Float\<close>), counts are 64-bit words.  \<^verbatim>\<open>math.Log10\<close> is approximate and its last bit
  depends on the platform, so what the code makes of it, \<^verbatim>\<open>int(math.Floor(math.Log10(x)))\<close>
  and \<^verbatim>\<open>int(math.Ceil(math.Log10(x)))\<close>, are arguments, together with the other results the
  language leaves to the platform: out-of-range conversions and the largest slice capacity.
  The three loops of \<^verbatim>\<open>addLog10Buckets\<close> are instances of one loop that advances the bin
  (\<open>for_bins\<close>); it may run forever, which is the value \<open>None\<close>.
\<close>

record go_platform =
  floor_log10 :: "float64 \<Rightarrow> int"
  ceil_log10 :: "float64 \<Rightarrow> int"
  uint64_oor :: "float64 \<Rightarrow> 64 word"
  max_cap :: int

record log10Bucket =
  BinNums :: int
  Curr :: float64
  Max :: float64

record bucket =
  UpperBound :: float64
  CumulativeCount :: "64 word"

definition createLog10Bucket :: "float64 \<Rightarrow> float64 \<Rightarrow> int \<Rightarrow> log10Bucket" where
  "createLog10Bucket start mx bins = \<lparr>BinNums = bins, Curr = start, Max = mx\<rparr>"

definition nextBin :: "go_platform \<Rightarrow> log10Bucket \<Rightarrow> log10Bucket" where
  "nextBin P b =
     (let c = floor_log10 P (Curr b);
          m = pow10 (c + 1);
          n = (if BinNums b < 10 \<and> fle (Curr b) (pow10 c)
               then fdiv m (float_of_int (BinNums b))
               else fadd (Curr b) (fdiv m (float_of_int (BinNums b))))
      in if fle n m then b\<lparr>Curr := n\<rparr> else b\<lparr>Curr := m\<rparr>)"

definition binUpperBound :: "log10Bucket \<Rightarrow> float64" where
  "binUpperBound b = Curr b"

partial_function (option) for_bins ::
  "go_platform \<Rightarrow> (log10Bucket \<Rightarrow> bool) \<Rightarrow> (log10Bucket \<Rightarrow> 'a \<Rightarrow> 'a) \<Rightarrow>
   log10Bucket \<Rightarrow> 'a \<Rightarrow> (log10Bucket \<times> 'a) option" where
  "for_bins platform guard body b acc =
     (if guard b then for_bins platform guard body (nextBin platform b) (body b acc) else Some (b, acc))"

declare for_bins.simps [code]

definition flat_bin :: "64 word \<Rightarrow> log10Bucket \<Rightarrow> bucket list \<Rightarrow> bucket list" where
  "flat_bin count b acc = acc @ [\<lparr>UpperBound = binUpperBound b, CumulativeCount = count\<rparr>]"

definition adjusted :: "go_platform \<Rightarrow> float64 \<Rightarrow> 64 word \<Rightarrow> float64 \<Rightarrow> 64 word \<Rightarrow> float64 \<Rightarrow> 64 word" where
  "adjusted P le count ple pcount ub =
     (let adj = ffloor (fdiv (fmul (float_of_uint64 (count - pcount)) (fsub le ub)) (fsub le ple))
      in count - uint64_of_float (uint64_oor P) adj)"

definition interp_bin ::
  "go_platform \<Rightarrow> float64 \<Rightarrow> 64 word \<Rightarrow> float64 \<Rightarrow> 64 word \<Rightarrow> log10Bucket \<Rightarrow> bucket list \<Rightarrow> bucket list" where
  "interp_bin P le count ple pcount b acc =
     acc @ [\<lparr>UpperBound = binUpperBound b,
             CumulativeCount = adjusted P le count ple pcount (binUpperBound b)\<rparr>]"

definition addLog10Buckets ::
  "go_platform \<Rightarrow> bucket \<Rightarrow> bucket option \<Rightarrow> log10Bucket \<Rightarrow> bucket list \<Rightarrow> (log10Bucket \<times> bucket list) option" where
  "addLog10Buckets P currHdr prevHdr b newBuckets =
     (let le = UpperBound currHdr; count = CumulativeCount currHdr in
      if le = PInf
      then (case for_bins P (\<lambda>b. flt (binUpperBound b) (Max b)) (flat_bin count) b newBuckets of
              None \<Rightarrow> None
            | Some (b', acc) \<Rightarrow> Some (b', flat_bin count b' acc))
      else if prevHdr = None \<and> flt (binUpperBound b) le
      then for_bins P (\<lambda>b. flt (binUpperBound b) le \<and> fle (binUpperBound b) (Max b)) (\<lambda>b acc. acc) b newBuckets
      else (let (ple, pcount) = (case prevHdr of None \<Rightarrow> (Fin 0, 0)
                                 | Some p \<Rightarrow> (UpperBound p, CumulativeCount p))
            in for_bins P (\<lambda>b. flt (binUpperBound b) le \<and> fle (binUpperBound b) (Max b))
                 (interp_bin P le count ple pcount) b newBuckets))"

section \<open>What the proofs assume and track\<close>

text \<open>
  The approximate logarithm may be off by one decade upwards next to a power of ten, never
  downwards: its floor \<open>c\<close> satisfies \<open>x < 10 ^ (c + 1)\<close> and \<open>10 ^ c \<le> 10 * x\<close>.
\<close>

definition log10_ok :: "go_platform \<Rightarrow> bool" where
  "log10_ok P = (\<forall>x. 1 \<le> x \<and> x \<le> 10 ^ 20 \<longrightarrow>
     (let c = floor_log10 P (Fin x) in 0 \<le> c \<and> x < 10 ^ nat (c + 1) \<and> 10 ^ nat c \<le> 10 * x))"

fun fval :: "float64 \<Rightarrow> rat" where
  "fval (Fin x) = x"
| "fval _ = 0"

fun is_fin :: "float64 \<Rightarrow> bool" where
  "is_fin (Fin x) = True"
| "is_fin _ = False"

definition good :: "log10Bucket \<Rightarrow> bool" where
  "good b = (is_fin (Curr b) \<and> 1 \<le> fval (Curr b) \<and> rnd (fval (Curr b)) = fval (Curr b)
             \<and> 1 \<le> BinNums b \<and> BinNums b \<le> 2 ^ 40)"

abbreviation ub :: "log10Bucket \<Rightarrow> rat" where
  "ub b \<equiv> fval (Curr b)"

text \<open>How many representable bounds are left below \<open>10 ^ 21\<close>: the measure of the bin loops.\<close>

definition room :: "log10Bucket \<Rightarrow> nat" where
  "room b = nat (\<lfloor>(10 ^ 21 - ub b) * 2 ^ 52\<rfloor>)"

text \<open>The count moved out of a bin, on rationals, and the position of a bin inside an HDR bucket.\<close>

definition adj_rat :: "nat \<Rightarrow> rat \<Rightarrow> rat \<Rightarrow> rat \<Rightarrow> int" where
  "adj_rat N L p c = \<lfloor>rnd (rnd (of_nat N * rnd (L - c)) / rnd (L - p))\<rfloor>"

definition bin_inside :: "rat \<Rightarrow> rat \<Rightarrow> rat \<Rightarrow> bool" where
  "bin_inside L p c = (0 \<le> p \<and> p \<le> c \<and> 1 \<le> c \<and> c < L \<and> L \<le> 10 ^ 20 \<and> rnd c = c \<and> rnd L = L)"

section \<open>The next bin\<close>

lemma log10_okD:
  assumes "log10_ok P" "1 \<le> x" "x \<le> 10 ^ 20"
  obtains k where "floor_log10 P (Fin x) = int k" "k \<le> 21" "x < 10 ^ (k + 1)" "10 ^ k \<le> 10 * x"
proof -
  define k where "k = nat (floor_log10 P (Fin x))"
  have c: "floor_log10 P (Fin x) = int k" "x < 10 ^ (k + 1)" "10 ^ k \<le> 10 * x"
    using assms by (auto simp: log10_ok_def Let_def k_def nat_add_distrib)
  have "(10::rat) ^ k \<le> 10 * 10 ^ 20" using c(3) assms(3) by linarith
  also have "\<dots> = 10 ^ 21" by simp
  finally have "k \<le> 21" by (rule power_le_imp_le_exp[rotated]) simp
  with c that show ?thesis by blast
qed

lemma rnd_pow10 [simp]: "k \<le> 22 \<Longrightarrow> rnd (10 ^ k) = 10 ^ k"
proof -
  assume k: "k \<le> 22"
  have "(5::int) ^ k \<le> 5 ^ 22" using k by (intro power_increasing) auto
  then have b: "\<bar>5 ^ k :: int\<bar> \<le> 2 ^ 53" by simp
  have "(10::rat) ^ k = of_int (5 ^ k) * 2 powi (int k)"
    by (simp only: power_int_of_nat of_int_power of_int_numeral flip: power_mult_distrib) simp
  then show ?thesis using rnd_exact[OF b, of "int k"] by simp
qed

lemma round64_small: "\<bar>x\<bar> \<le> 10 ^ 300 \<Longrightarrow> round64 x = Fin (rnd x)"
  using round64_Fin huge_ge by (meson order_trans)

lemma rnd_near:
  assumes "1 / 2 ^ 100 \<le> x" shows "x - x / 2 ^ 53 \<le> rnd x" "rnd x \<le> x + x / 2 ^ 53"
proof -
  have "(2::rat) powi (-1022) \<le> 2 powi (-100)" by (simp only: powi2_le_iff)
  also have "\<dots> = 1 / 2 ^ 100" by simp
  finally have n: "2 powi (-1022) \<le> \<bar>x\<bar>" using assms by linarith
  have "0 < (1::rat) / 2 ^ 100" by simp
  then have "\<bar>x\<bar> = x" using assms by linarith
  then have "\<bar>rnd x - x\<bar> \<le> x / 2 ^ 53" using rnd_rel_error[OF n] by (simp only:)
  then have "rnd x - x \<le> x / 2 ^ 53" "- (rnd x - x) \<le> x / 2 ^ 53" by (simp_all only: abs_le_iff)
  then show "x - x / 2 ^ 53 \<le> rnd x" "rnd x \<le> x + x / 2 ^ 53" by linarith+
qed

text \<open>The width of a bin, \<^verbatim>\<open>m / float64(b.BinNums)\<close>.\<close>

lemma bin_width:
  assumes "k \<le> 22" "1 \<le> n" "n \<le> (2 ^ 40 :: int)"
  shows "fdiv (Fin (10 ^ k)) (float_of_int n) = Fin (rnd (10 ^ k / of_int n))"
    and "10 ^ k / of_int n * (1 - 1 / 2 ^ 53) \<le> rnd (10 ^ k / of_int n)"
    and "rnd (10 ^ k / of_int n) \<le> 10 ^ k"
proof -
  let ?d = "10 ^ k / of_int n :: rat"
  have n1: "(1::rat) \<le> of_int n" using assms by simp
  have n2: "(of_int n::rat) \<le> 2 ^ 40" using assms(3) by (simp flip: of_int_le_iff)
  have d1: "?d \<le> 10 ^ k" using n1 by (simp add: field_simps)
  have "(10::rat) ^ k \<le> 10 ^ 300" using assms by (intro power_increasing) auto
  with d1 n1 have "\<bar>?d\<bar> \<le> 10 ^ 300" by simp
  moreover have "float_of_int n = Fin (of_int n)" using assms by (intro float_of_int_exact) auto
  ultimately show "fdiv (Fin (10 ^ k)) (float_of_int n) = Fin (rnd ?d)"
    using round64_small n1 by simp
  have "(1::rat) / 2 ^ 40 \<le> 1 / of_int n" using n1 n2 by (simp add: frac_le)
  also have "\<dots> \<le> ?d" using n1 by (simp add: divide_right_mono)
  finally have "1 / 2 ^ 40 \<le> ?d" .
  moreover have "(1::rat) / 2 ^ 100 \<le> 1 / 2 ^ 40" by simp
  ultimately have "1 / 2 ^ 100 \<le> ?d" by linarith
  from rnd_near(1)[OF this] show "?d * (1 - 1 / 2 ^ 53) \<le> rnd ?d" by (simp add: right_diff_distrib)
  show "rnd ?d \<le> 10 ^ k" using rnd_mono[OF d1] assms(1) by simp
qed

lemma nextBin_step:
  assumes ok: "log10_ok P" and b: "Curr b = Fin x" "1 \<le> x" "rnd x = x" "x \<le> 10 ^ 20"
    and bins: "1 \<le> BinNums b" "BinNums b \<le> 2 ^ 40"
  obtains y where "nextBin P b = b\<lparr>Curr := Fin y\<rparr>" "x < y" "y \<le> 100 * x" "rnd y = y"
proof -
  from log10_okD[OF ok b(2,4)] obtain k where k: "floor_log10 P (Fin x) = int k" "k \<le> 21"
    and lt: "x < 10 ^ (k + 1)" and ge: "10 ^ k \<le> 10 * x" by blast
  let ?n = "BinNums b" and ?d = "rnd (10 ^ (k + 1) / of_int (BinNums b)) :: rat"
  have k1: "k + 1 \<le> 22" using k by simp
  note w = bin_width[OF k1 bins]
  have p: "pow10 (int k + 1) = Fin (10 ^ (k + 1))" "pow10 (int k) = Fin (10 ^ k)"
    using pow10_exact[of "int k + 1"] pow10_exact[of "int k"] k by (auto simp: nat_add_distrib)
  have n1: "(1::rat) \<le> of_int ?n" using bins by simp
  have n2: "(of_int ?n::rat) \<le> 2 ^ 40" using bins(2) by (simp flip: of_int_le_iff)
  have top: "(10::rat) ^ (k + 1) \<le> 100 * x" using ge by simp
  have "x / 2 ^ 52 \<le> x / 2 ^ 40 * (1 - 1 / 2 ^ 53)" using b(2) by simp
  also have "\<dots> \<le> 10 ^ (k + 1) / of_int ?n * (1 - 1 / 2 ^ 53)"
    using n1 n2 lt b(2) by (intro mult_right_mono frac_le) auto
  also have "\<dots> \<le> ?d" by (rule w(2))
  finally have inc: "x / 2 ^ 52 \<le> ?d" .
  have "(2::rat) powi (-1022) \<le> 2 powi 0" by (simp only: powi2_le_iff)
  then have x1: "2 powi (-1022) \<le> x" using b(2) by (simp only: power_int_0_right)
  show ?thesis
  proof (cases "?n < 10 \<and> x \<le> 10 ^ k")
    case True
    then have n9: "(of_int ?n::rat) \<le> 9" by (simp flip: of_int_le_iff)
    have "10 ^ k < 10 ^ (k + 1) / 9 * (1 - 1 / 2 ^ 53 :: rat)" by simp
    also have "\<dots> \<le> 10 ^ (k + 1) / of_int ?n * (1 - 1 / 2 ^ 53)"
      using n1 n9 by (intro mult_right_mono frac_le) auto
    also have "\<dots> \<le> ?d" by (rule w(2))
    finally have "x < ?d" using True by linarith
    moreover have "nextBin P b = b\<lparr>Curr := Fin ?d\<rparr>"
      using True w p k b by (simp add: nextBin_def)
    ultimately show ?thesis using that w(3) top by (metis order_trans rnd_idem)
  next
    case False
    let ?s = "rnd (x + ?d)"
    have s: "x < ?s" using b(3) x1 inc by (rule rnd_increases)
    have "x + ?d \<le> 10 ^ 300"
    proof -
      have "?d \<le> 100 * x" using w(3) top by linarith
      then have "x + ?d \<le> 101 * 10 ^ 20" using b(4) by linarith
      also have "\<dots> \<le> (10::rat) ^ 300" by simp
      finally show ?thesis .
    qed
    moreover have "0 \<le> x + ?d" using b(2) n1 by (intro add_nonneg_nonneg rnd_nonneg) auto
    ultimately have "round64 (x + ?d) = Fin ?s" using round64_small by simp
    then have nb: "nextBin P b = b\<lparr>Curr := Fin (min ?s (10 ^ (k + 1)))\<rparr>"
      using False w p k b by (auto simp: nextBin_def min_def)
    have "rnd (min ?s (10 ^ (k + 1))) = min ?s (10 ^ (k + 1))" using rnd_pow10[OF k1] by (simp add: min_def)
    with nb s lt top that[of "min ?s (10 ^ (k + 1))"] show ?thesis by simp
  qed
qed

lemma is_finE: assumes "is_fin f" obtains x where "f = Fin x" "fval f = x"
  using assms by (cases f) auto

lemma goodE: assumes "good b" obtains x where "Curr b = Fin x" "ub b = x" "1 \<le> x" "rnd x = x"
  using assms by (auto simp: good_def elim: is_finE)

lemma good_flt: "good b \<Longrightarrow> flt (Curr b) (Fin y) = (ub b < y)"
  by (elim goodE) simp

lemma good_fle: "good b \<Longrightarrow> fle (Curr b) (Fin y) = (ub b \<le> y)"
  by (elim goodE) simp

lemma good_nextBin:
  assumes "log10_ok P" "good b" "ub b \<le> 10 ^ 20"
  shows "good (nextBin P b)" "ub b < ub (nextBin P b)" "Max (nextBin P b) = Max b"
    "BinNums (nextBin P b) = BinNums b"
proof -
  obtain x where x: "Curr b = Fin x" "ub b = x" "1 \<le> x" "rnd x = x" using assms(2) by (rule goodE)
  have g: "1 \<le> BinNums b" "BinNums b \<le> 2 ^ 40" using assms(2) by (simp_all add: good_def)
  from assms(3) x have "x \<le> 10 ^ 20" by simp
  from nextBin_step[OF assms(1) x(1,3,4) this g]
  obtain y where y: "nextBin P b = b\<lparr>Curr := Fin y\<rparr>" "x < y" "rnd y = y" by blast
  then show "good (nextBin P b)" "ub b < ub (nextBin P b)" "Max (nextBin P b) = Max b"
    "BinNums (nextBin P b) = BinNums b"
    using g x by (auto simp: good_def)
qed

lemma repr_grid: assumes "1 \<le> x" "rnd x = x" shows "\<exists>n::int. x * 2 ^ 52 = of_int n"
proof -
  have "(2::rat) powi 0 \<le> x" using assms by simp
  then have q: "-52 \<le> qexp x" using ilog2_ge[of 0 x] assms by (simp add: qexp_def)
  from rnd_at_grid[of "qexp x" x] obtain m where m: "x = of_int m * 2 powi qexp x"
    using assms by (auto simp: rnd_def)
  have "x * 2 ^ 52 = of_int m * (2 powi qexp x * 2 powi 52)" by (subst m) simp
  also have "\<dots> = of_int m * 2 powi (qexp x + 52)" by (simp add: power_int_add)
  also have "\<dots> = of_int (m * 2 ^ nat (qexp x + 52))" using q by (simp add: power_int_def)
  finally show ?thesis by blast
qed

lemma room_decreases:
  assumes "good a" "good b" "ub a < ub b" "ub a \<le> 10 ^ 20"
  shows "room b < room a"
proof -
  obtain n where n: "ub a * 2 ^ 52 = of_int n" using assms(1) repr_grid[of "ub a"] unfolding good_def by blast
  obtain k where k: "ub b * 2 ^ 52 = of_int k" using assms(2) repr_grid[of "ub b"] unfolding good_def by blast
  have "ub a * 2 ^ 52 < ub b * 2 ^ 52" using assms(3) by simp
  then have nk: "n < k" using n k by simp
  have ra: "room a = nat (10 ^ 21 * 2 ^ 52 - n)" and rb: "room b = nat (10 ^ 21 * 2 ^ 52 - k)"
    using n k by (simp_all add: room_def left_diff_distrib)
  have "ub a * 2 ^ 52 \<le> 10 ^ 20 * 2 ^ 52" using assms(4) by simp
  then have "(of_int n :: rat) \<le> of_int (10 ^ 20 * 2 ^ 52)" using n by simp
  then have "n \<le> 10 ^ 20 * 2 ^ 52" by (simp only: of_int_le_iff)
  then show ?thesis using nk ra rb by simp
qed

lemma for_bins_spec:
  assumes ok: "log10_ok P" and g: "good b" and bnd: "\<And>c. guard c \<Longrightarrow> good c \<Longrightarrow> Max c = Max b \<Longrightarrow> ub c \<le> 10 ^ 20"
  shows "\<exists>bs b'. for_bins P guard body b acc = Some (b', fold body bs acc) \<and> good b' \<and> \<not> guard b'
    \<and> Max b' = Max b \<and> ub b \<le> ub b' \<and> sorted_wrt (\<lambda>c d. ub c < ub d) (bs @ [b'])
    \<and> (\<forall>c\<in>set bs. guard c \<and> good c \<and> Max c = Max b \<and> ub b \<le> ub c) \<and> (bs \<noteq> [] \<longrightarrow> hd bs = b)"
  using g bnd
proof (induction "room b" arbitrary: b acc rule: less_induct)
  case less
  show ?case
  proof (cases "guard b")
    case False
    then show ?thesis using less.prems
      by (intro exI[of _ "[]"] exI[of _ b]) (simp add: for_bins.simps)
  next
    case True
    then have u: "ub b \<le> 10 ^ 20" using less.prems by blast
    note nb = good_nextBin[OF ok less.prems(1) u]
    have "room (nextBin P b) < room b" using room_decreases[OF less.prems(1) nb(1,2) u] .
    from less.hyps[OF this nb(1), of "body b acc"] less.prems(2) nb(3)
    obtain bs b' where IH: "for_bins P guard body (nextBin P b) (body b acc) = Some (b', fold body bs (body b acc))"
      "good b'" "\<not> guard b'" "Max b' = Max (nextBin P b)" "ub (nextBin P b) \<le> ub b'"
      "sorted_wrt (\<lambda>c d. ub c < ub d) (bs @ [b'])"
      "\<forall>c\<in>set bs. guard c \<and> good c \<and> Max c = Max (nextBin P b) \<and> ub (nextBin P b) \<le> ub c"
      by (auto simp: nb(3))
    have "for_bins P guard body b acc = Some (b', fold body (b # bs) acc)"
      using True IH(1) by (simp add: for_bins.simps[of P guard body b])
    moreover have "sorted_wrt (\<lambda>c d. ub c < ub d) ((b # bs) @ [b'])"
      using IH nb(2) by (auto intro: order_less_le_trans)
    moreover have "\<forall>c\<in>set (b # bs). guard c \<and> good c \<and> Max c = Max b \<and> ub b \<le> ub c"
      using IH(7) nb less.prems True by (auto intro: order_trans)
    moreover have "ub b \<le> ub b'" using IH(5) nb(2) by linarith
    ultimately show ?thesis using IH(2,3,4) nb(3)
      by (intro exI[of _ "b # bs"] exI[of _ b']) auto
  qed
qed

lemma bin_insideD:
  assumes "bin_inside L p c"
  shows "1 / 2 ^ 53 \<le> rnd (L - c)" "rnd (L - c) \<le> rnd (L - p)" "rnd (L - p) \<le> 10 ^ 20"
    "0 < rnd (L - c)" "0 < rnd (L - p)"
proof -
  have a: "0 \<le> p" "p \<le> c" "1 \<le> c" "c < L" "L \<le> 10 ^ 20" "rnd c = c" "rnd L = L"
    using assms by (simp_all add: bin_inside_def)
  then obtain n where n: "c * 2 ^ 52 = of_int n" using repr_grid by blast
  from a have "1 \<le> L" by linarith
  then obtain k where k: "L * 2 ^ 52 = of_int k" using repr_grid a by blast
  have "c * 2 ^ 52 < L * 2 ^ 52" using a by simp
  then have "n < k" using n k by simp
  then have "(of_int n :: rat) + 1 \<le> of_int k" by linarith
  then have "c * 2 ^ 52 + 1 \<le> L * 2 ^ 52" using n k by linarith
  then have "2 powi (-52) \<le> L - c" by (simp add: field_simps)
  from rnd_mono[OF this] have "2 powi (-52) \<le> rnd (L - c)" by (simp only: rnd_powi)
  moreover have "(1::rat) / 2 ^ 53 \<le> 2 powi (-52)" by simp
  ultimately show lo: "1 / 2 ^ 53 \<le> rnd (L - c)" by linarith
  moreover have "0 < (1::rat) / 2 ^ 53" by simp
  ultimately show pos: "0 < rnd (L - c)" by linarith
  show mono: "rnd (L - c) \<le> rnd (L - p)" using a by (intro rnd_mono) simp
  then show "0 < rnd (L - p)" using pos by linarith
  have "rnd (L - p) \<le> rnd (10 ^ 20)" using a by (intro rnd_mono) linarith
  then show "rnd (L - p) \<le> 10 ^ 20" by (simp only: rnd_pow10)
qed

lemma adj_rat_nonneg:
  assumes "bin_inside L p c" shows "0 \<le> adj_rat N L p c"
proof -
  have "0 < rnd (L - c)" "0 < rnd (L - p)" using bin_insideD[OF assms] by simp_all
  then show ?thesis unfolding adj_rat_def by (simp add: rnd_nonneg)
qed

lemma share_le:
  assumes "bin_inside L p c" "N < 2 ^ 52" shows "rnd (of_nat N * rnd (L - c)) / rnd (L - p) \<le> of_nat N + 1 / 2"
proof -
  let ?x = "rnd (L - c)" and ?D = "rnd (L - p)"
  note b = bin_insideD[OF assms(1)]
  note D = b(5)
  show ?thesis
  proof (cases "N = 0")
    case False
    then have n1: "(1::rat) \<le> of_nat N" by simp
    have "(of_nat N :: rat) < of_nat (2 ^ 52)" using assms(2) by (simp only: of_nat_less_iff)
    then have n2: "(of_nat N :: rat) < 2 ^ 52" by simp
    have "(1::rat) / 2 ^ 100 \<le> 1 / 2 ^ 53" by simp
    also have "\<dots> \<le> ?D" using b by linarith
    also have "\<dots> \<le> of_nat N * ?D" using n1 D by simp
    finally have nD: "1 / 2 ^ 100 \<le> of_nat N * ?D" .
    have "rnd (of_nat N * ?x) \<le> rnd (of_nat N * ?D)" by (rule rnd_mono, rule mult_left_mono[OF b(2)]) simp
    also have "\<dots> \<le> of_nat N * ?D + of_nat N * ?D / 2 ^ 53" by (rule rnd_near(2)[OF nD])
    also have "\<dots> \<le> of_nat N * ?D + 2 ^ 52 * ?D / 2 ^ 53"
      using n2 D by (intro add_left_mono divide_right_mono mult_right_mono) auto
    also have "\<dots> = (of_nat N + 1 / 2) * ?D" by (simp add: field_simps)
    finally show ?thesis using D by (simp add: pos_divide_le_eq)
  qed simp
qed

lemma adj_rat_le:
  assumes "bin_inside L p c" "N < 2 ^ 52" shows "adj_rat N L p c \<le> int N"
proof -
  let ?x = "rnd (L - c)" and ?D = "rnd (L - p)"
  have "rnd (of_nat N * ?x) / ?D \<le> of_nat N + 1 / 2" by (rule share_le[OF assms])
  then have "rnd (rnd (of_nat N * ?x) / ?D) \<le> rnd (of_nat N + 1 / 2)" by (rule rnd_mono)
  also have "of_nat N + 1 / 2 = (of_int (2 * int N + 1) * 2 powi (-1) :: rat)" by (simp add: field_simps)
  also have "rnd \<dots> = \<dots>" using assms(2) by (intro rnd_exact) auto
  finally have "rnd (rnd (of_nat N * ?x) / ?D) < of_int (int N + 1)" by (simp add: field_simps)
  then show ?thesis unfolding adj_rat_def by linarith
qed

lemma adj_rat_antimono:
  assumes "bin_inside L p c" "bin_inside L p c'" "c \<le> c'"
  shows "adj_rat N L p c' \<le> adj_rat N L p c"
proof -
  note D = bin_insideD(5)[OF assms(1)]
  have "rnd (L - c') \<le> rnd (L - c)" using assms(3) by (intro rnd_mono) simp
  then have "rnd (of_nat N * rnd (L - c')) \<le> rnd (of_nat N * rnd (L - c))"
    by (intro rnd_mono[OF mult_left_mono]) auto
  then show ?thesis unfolding adj_rat_def using D
    by (intro floor_mono rnd_mono[OF divide_right_mono]) auto
qed

lemma unat_diff_le: "unat (p::64 word) \<le> unat c \<Longrightarrow> unat (c - p) = unat c - unat p"
  by (simp add: unat_sub word_le_nat_alt)

lemma unat_word_of_int64:
  assumes "0 \<le> a" "a < 2 ^ 64" shows "unat (word_of_int a :: 64 word) = nat a"
proof -
  have "word_of_int a = (word_of_nat (nat a) :: 64 word)" using assms(1) by simp
  moreover have "nat a < 2 ^ LENGTH(64)" using assms by (simp add: nat_less_iff)
  ultimately show ?thesis by (simp only: unsigned_of_nat take_bit_nat_eq_self of_nat_id)
qed

lemma adjusted_eq:
  assumes "bin_inside L p c" "unat pcount \<le> unat count" "unat count - unat pcount < 2 ^ 52"
  shows "unat (adjusted P (Fin L) count (Fin p) pcount (Fin c))
         = unat count - nat (adj_rat (unat count - unat pcount) L p c)"
proof -
  let ?N = "unat count - unat pcount" and ?x = "rnd (L - c)" and ?D = "rnd (L - p)"
  let ?a = "adj_rat ?N L p c"
  note b = bin_insideD[OF assms(1)]
  have N: "int ?N \<le> 2 ^ 53" using assms(3) by simp
  have f1: "float_of_uint64 (count - pcount) = Fin (of_nat ?N)"
  proof -
    have "uint (count - pcount) = int ?N"
      using unat_diff_le[OF assms(2)] by (simp add: uint_nat)
    then show ?thesis using round64_of_int[of "int ?N"] N by (simp add: float_of_uint64_def)
  qed
  have i: "0 \<le> p" "p \<le> c" "c < L" "L \<le> 10 ^ 20" using assms(1) by (simp_all add: bin_inside_def)
  have e20: "(10::rat) ^ 20 \<le> 10 ^ 300" by simp
  have f2: "fsub (Fin L) (Fin c) = Fin ?x" "fsub (Fin L) (Fin p) = Fin ?D"
    using round64_small[of "L - c"] round64_small[of "L - p"] i e20 by (simp_all add: fsub_def)
  have N52: "(of_nat ?N :: rat) \<le> 2 ^ 52" using assms(3) by (metis less_imp_le of_nat_le_iff of_nat_numeral of_nat_power)
  have "of_nat ?N * ?x \<le> 2 ^ 52 * 10 ^ 20" using b N52 by (intro mult_mono) linarith+
  also have "\<dots> \<le> 10 ^ 300" by simp
  finally have NX: "of_nat ?N * ?x \<le> 10 ^ 300" .
  have NX0: "0 \<le> of_nat ?N * ?x" using b(4) by simp
  have f3: "fmul (Fin (of_nat ?N)) (Fin ?x) = Fin (rnd (of_nat ?N * ?x))"
    using round64_small[of "of_nat ?N * ?x"] NX NX0 by simp
  have a0: "0 \<le> ?a" and aN: "?a \<le> int ?N" using adj_rat_nonneg[OF assms(1)] adj_rat_le[OF assms(1,3)] by auto
  have q0: "0 \<le> rnd (of_nat ?N * ?x) / ?D" using rnd_nonneg[OF NX0] b(5) by simp
  have f4: "fdiv (Fin (rnd (of_nat ?N * ?x))) (Fin ?D) = Fin (rnd (rnd (of_nat ?N * ?x) / ?D))"
  proof -
    have "rnd (of_nat ?N * ?x) / ?D \<le> of_nat ?N + 1 / 2" by (rule share_le[OF assms(1,3)])
    also have "\<dots> \<le> 2 ^ 52 + 1 / 2" using N52 by linarith
    also have "\<dots> \<le> 10 ^ 300" by simp
    finally show ?thesis using round64_small[of "rnd (of_nat ?N * ?x) / ?D"] q0 b(5) by simp
  qed
  have a: "?a = \<lfloor>rnd (rnd (of_nat ?N * ?x) / ?D)\<rfloor>" by (simp only: adj_rat_def)
  have "adjusted P (Fin L) count (Fin p) pcount (Fin c)
        = count - uint64_of_float (uint64_oor P) (Fin (of_int ?a))"
    by (simp only: adjusted_def Let_def f1 f2 f3 f4 ffloor.simps a)
  also have "uint64_of_float (uint64_oor P) (Fin (of_int ?a)) = word_of_int ?a"
  proof -
    have "(of_int ?a :: rat) < of_int (2 ^ 64)" unfolding of_int_less_iff using aN N by simp
    moreover have "(-1 :: rat) < of_int ?a" using a0 by linarith
    ultimately show ?thesis using a0 by simp
  qed
  finally have adj: "adjusted P (Fin L) count (Fin p) pcount (Fin c) = count - word_of_int ?a" .
  have a64: "?a < 2 ^ 64" using aN N by simp
  have u: "unat (word_of_int ?a :: 64 word) = nat ?a" using a0 a64 by (rule unat_word_of_int64)
  have "nat ?a \<le> unat count" using a0 aN by simp
  then show ?thesis using unat_diff_le[of "word_of_int ?a" count] u adj by simp
qed

end
