(* ===== verification/Translator.thy ===== *)
theory Translator
  imports Translator_Bucket
begin

text \<open>
  \<^verbatim>\<open>internal/translator/translator.go\<close>: building translators from the stored histogram
  definitions (\<open>tr_New\<close>, \<open>tr_Load\<close>) and rewriting the histograms of a metric family
  (\<open>translate\<close>, \<open>Translate\<close>).  The regular expression engine and the text encoder are
  arguments.  A metric of the family carries the buckets of its histogram (\<open>None\<close> is a nil
  pointer) and whatever else the exposition format holds (\<open>'x\<close>), which the code leaves alone.
\<close>

type_synonym matcher = "string \<Rightarrow> bool"
type_synonym regexp_compile = "string \<Rightarrow> go_error + matcher"

datatype MetricType = COUNTER | GAUGE | SUMMARY | UNTYPED | HISTOGRAM | GAUGE_HISTOGRAM

record 'x dto_Metric =
  dto_Histogram :: "bucket list option"
  dto_Other :: 'x

record 'x MetricFamily =
  mf_Name :: string
  mf_Type :: MetricType
  mf_Metric :: "'x dto_Metric list"

record translator =
  tr_histogram :: Histogram
  tr_include :: matcher

definition tr_New :: "regexp_compile \<Rightarrow> Histogram \<Rightarrow> translator result" where
  "tr_New compile h =
     (case compile (hist_Regex h) of
        Inl e \<Rightarrow> Inl (Err e)
      | Inr m \<Rightarrow> Inr \<lparr>tr_histogram = h, tr_include = m\<rparr>)"

fun load_each ::
  "regexp_compile \<Rightarrow> (string \<Rightarrow> go_error + Histogram option) \<Rightarrow> string list \<Rightarrow> translator list \<Rightarrow> translator list result" where
  "load_each compile getHistogram [] acc = Inr acc"
| "load_each compile getHistogram (name # names) acc =
     (case getHistogram name of
        Inl e \<Rightarrow> Inl (Err e)
      | Inr None \<Rightarrow> Inl (Panic NilDereference)
      | Inr (Some h) \<Rightarrow>
          (if hist_Enabled h
           then (case tr_New compile h of
                   Inl e \<Rightarrow> Inl e
                 | Inr t \<Rightarrow> load_each compile getHistogram names (acc @ [t]))
           else load_each compile getHistogram names acc))"

text \<open>\<^verbatim>\<open>Load\<close>: a nil slice (\<open>None\<close>) when the store has no histogram at all.\<close>

definition tr_Load ::
  "regexp_compile \<Rightarrow> (go_error + string list) \<Rightarrow> (string \<Rightarrow> go_error + Histogram option) \<Rightarrow> translator list option result" where
  "tr_Load compile getNames getHistogram =
     (case getNames of
        Inl e \<Rightarrow> Inl (Err e)
      | Inr names \<Rightarrow>
          (if names = [] then Inr None
           else bind_result (load_each compile getHistogram names []) (\<lambda>ts. Inr (Some ts))))"

definition finite_max :: "bucket list \<Rightarrow> float64" where
  "finite_max bs =
     fold (\<lambda>b mx. if UpperBound b \<noteq> PInf \<and> flt mx (UpperBound b) then UpperBound b else mx) bs (Fin 0)"

definition histogram_max :: "Histogram \<Rightarrow> bucket list \<Rightarrow> float64" where
  "histogram_max h bs =
     (if length bs \<ge> 2
      then (if hist_End h > 0 then float_of_int (hist_End h) else finite_max bs)
      else Fin 0)"

definition requiredBuckets :: "go_platform \<Rightarrow> Histogram \<Rightarrow> bucket list \<Rightarrow> int" where
  "requiredBuckets P h bs =
     (if length bs \<ge> 2
      then wrap64 (1 + wrap64 (ceil_log10 P (histogram_max h bs) * hist_Bins h))
      else 1)"

fun add_all ::
  "go_platform \<Rightarrow> bucket list \<Rightarrow> bucket option \<Rightarrow> log10Bucket \<Rightarrow> bucket list \<Rightarrow> (log10Bucket \<times> bucket list) option" where
  "add_all P [] prev b acc = Some (b, acc)"
| "add_all P (cur # cs) prev b acc =
     (case addLog10Buckets P cur prev b acc of
        None \<Rightarrow> None
      | Some (b', acc') \<Rightarrow> add_all P cs (Some cur) b' acc')"

text \<open>
  The body of the loop over \<^verbatim>\<open>mf.Metric\<close>: \<open>None\<close> is a loop that never ends, the sum type
  inside tells a panic from the new buckets.
\<close>

definition translate_buckets :: "go_platform \<Rightarrow> Histogram \<Rightarrow> bucket list \<Rightarrow> bucket list result option" where
  "translate_buckets P h bs =
     (if requiredBuckets P h bs < 0 \<or> requiredBuckets P h bs > max_cap P
      then Some (Inl (Panic SliceCapacity))
      else (case add_all P bs None
                   (createLog10Bucket (float_of_int (hist_Start h)) (histogram_max h bs) (hist_Bins h)) [] of
              None \<Rightarrow> None
            | Some (b, acc) \<Rightarrow> Some (Inr acc)))"

fun translate_metrics :: "go_platform \<Rightarrow> Histogram \<Rightarrow> 'x dto_Metric list \<Rightarrow> 'x dto_Metric list result option" where
  "translate_metrics P h [] = Some (Inr [])"
| "translate_metrics P h (m # ms) =
     (case dto_Histogram m of
        None \<Rightarrow> Some (Inl (Panic NilDereference))
      | Some bs \<Rightarrow>
          (case translate_buckets P h bs of
             None \<Rightarrow> None
           | Some (Inl e) \<Rightarrow> Some (Inl e)
           | Some (Inr bs') \<Rightarrow>
               (case translate_metrics P h ms of
                  None \<Rightarrow> None
                | Some (Inl e) \<Rightarrow> Some (Inl e)
                | Some (Inr ms') \<Rightarrow> Some (Inr (m\<lparr>dto_Histogram := Some bs'\<rparr> # ms')))))"

definition translate :: "go_platform \<Rightarrow> translator \<Rightarrow> 'x MetricFamily \<Rightarrow> 'x MetricFamily result option" where
  "translate P t mf =
     (case translate_metrics P (tr_histogram t) (mf_Metric mf) of
        None \<Rightarrow> None
      | Some (Inl e) \<Rightarrow> Some (Inl e)
      | Some (Inr ms) \<Rightarrow> Some (Inr (mf\<lparr>mf_Metric := ms\<rparr>)))"

text \<open>
  \<^verbatim>\<open>Translate\<close> rewrites the family in place and writes it; the result carries the family and
  the writer after the call.
\<close>

definition Translate ::
  "go_platform \<Rightarrow> ('x MetricFamily \<Rightarrow> 'out \<Rightarrow> go_error + 'out) \<Rightarrow> translator \<Rightarrow> 'x MetricFamily \<Rightarrow> 'out \<Rightarrow>
   ('x MetricFamily \<times> 'out) result option" where
  "Translate P toText t mf out =
     (if mf_Type mf = HISTOGRAM \<and> tr_include t (mf_Name mf)
      then (case translate P t mf of
              None \<Rightarrow> None
            | Some (Inl e) \<Rightarrow> Some (Inl e)
            | Some (Inr mf') \<Rightarrow>
                (case toText mf' out of
                   Inl e \<Rightarrow> Some (Inl (Err e))
                 | Inr out' \<Rightarrow> Some (Inr (mf', out'))))
      else Some (Inr (mf, out)))"

section \<open>Well-formed inputs\<close>

text \<open>
  An HDR histogram as the exposition format guarantees it: finite bounds increase strictly,
  cumulative counts never decrease, the last bucket is \<^verbatim>\<open>+Inf\<close>.  Counts are below
  \<open>2 ^ 52\<close> and bounds below \<open>10 ^ 20\<close> (a latency of 3000 years in nanoseconds).
\<close>

abbreviation bub :: "bucket \<Rightarrow> rat" where "bub c \<equiv> fval (UpperBound c)"
abbreviation cnt :: "bucket \<Rightarrow> nat" where "cnt c \<equiv> unat (CumulativeCount c)"

definition finite_bucket :: "bucket \<Rightarrow> bool" where
  "finite_bucket c = (is_fin (UpperBound c) \<and> 0 \<le> bub c \<and> bub c \<le> 10 ^ 20 \<and> rnd (bub c) = bub c)"

definition ordered :: "bucket list \<Rightarrow> bool" where
  "ordered bs = sorted_wrt (\<lambda>c d. bub c < bub d \<and> cnt c \<le> cnt d) bs"

definition add_inv :: "bucket \<Rightarrow> log10Bucket \<Rightarrow> bucket list \<Rightarrow> bool" where
  "add_inv p b acc = (good b \<and> ordered acc \<and> (\<forall>c\<in>set acc. is_fin (UpperBound c) \<and> bub c < ub b \<and> cnt c \<le> cnt p)
     \<and> (bub p \<le> ub b \<or> fval (Max b) < ub b))"

definition max_ok :: "log10Bucket \<Rightarrow> bool" where
  "max_ok b = (is_fin (Max b) \<and> fval (Max b) \<le> 10 ^ 20)"

abbreviation below :: "float64 \<Rightarrow> log10Bucket \<Rightarrow> bool" where
  "below le b \<equiv> flt (binUpperBound b) le \<and> fle (binUpperBound b) (Max b)"

definition interp :: "go_platform \<Rightarrow> bucket \<Rightarrow> bucket \<Rightarrow> log10Bucket \<Rightarrow> bucket" where
  "interp P c p d = \<lparr>UpperBound = binUpperBound d, CumulativeCount = adjusted P (UpperBound c) (CumulativeCount c)
      (UpperBound p) (CumulativeCount p) (binUpperBound d)\<rparr>"

definition flat :: "64 word \<Rightarrow> log10Bucket \<Rightarrow> bucket" where
  "flat count d = \<lparr>UpperBound = binUpperBound d, CumulativeCount = count\<rparr>"

definition hdr_ok :: "bucket list \<Rightarrow> bool" where
  "hdr_ok bs = (bs \<noteq> [] \<and> UpperBound (last bs) = PInf \<and> (\<forall>c\<in>set (butlast bs). finite_bucket c)
     \<and> sorted_wrt (\<lambda>c d. bub c < bub d) (butlast bs) \<and> sorted_wrt (\<lambda>c d. cnt c \<le> cnt d) bs
     \<and> (\<forall>c\<in>set bs. cnt c < 2 ^ 52))"

definition hist_ok :: "Histogram \<Rightarrow> bool" where
  "hist_ok h = (1 \<le> hist_Start h \<and> hist_Start h \<le> 2 ^ 53 \<and> 1 \<le> hist_Bins h \<and> hist_Bins h \<le> 2 ^ 40
                \<and> hist_End h \<le> 10 ^ 20)"

text \<open>
  A platform whose logarithm is exact and whose out-of-range conversions give the least
  \<^verbatim>\<open>int64\<close>, as amd64 does.
\<close>

function digits10 :: "int \<Rightarrow> int" where
  "digits10 n = (if n < 10 then 0 else 1 + digits10 (n div 10))"
  by pat_completeness auto
termination
  by (relation "measure nat") auto

definition min_int64 :: int where
  "min_int64 = - (2 ^ 63)"

definition exact_platform :: go_platform where
  "exact_platform = \<lparr>
     floor_log10 = (\<lambda>f. case f of Fin x \<Rightarrow>
        (if x \<ge> 1 then digits10 \<lfloor>x\<rfloor> else if x > 0 then - (1 + digits10 (\<lceil>1 / x\<rceil> - 1)) else min_int64)
      | _ \<Rightarrow> min_int64),
     ceil_log10 = (\<lambda>f. case f of Fin x \<Rightarrow>
        (if x > 1 then 1 + digits10 (\<lceil>x\<rceil> - 1) else if x > 0 then - digits10 \<lfloor>1 / x\<rfloor> else min_int64)
      | _ \<Rightarrow> min_int64),
     uint64_oor = (\<lambda>_. 2 ^ 63),
     max_cap = 2 ^ 40\<rparr>"

declare digits10.simps [simp del]

text \<open>A small histogram and definition for the witnesses.\<close>

definition ex_hist :: Histogram where
  "ex_hist = \<lparr>hist_Enabled = True, hist_Name = ''h'', hist_Bins = 10, hist_Start = 100, hist_End = 1000,
     hist_Regex = ''.'', hist_LastModified = 0\<rparr>"

definition ex_hdr :: "bucket list" where
  "ex_hdr = [\<lparr>UpperBound = Fin 128, CumulativeCount = 4\<rparr>, \<lparr>UpperBound = Fin 256, CumulativeCount = 20\<rparr>,
     \<lparr>UpperBound = PInf, CumulativeCount = 30\<rparr>]"

section \<open>One HDR bucket at a time\<close>

lemma sorted_wrt_conj: "sorted_wrt (\<lambda>x y. P x y \<and> Q x y) xs = (sorted_wrt P xs \<and> sorted_wrt Q xs)"
  by (induction xs) auto

lemma fold_append_map: "fold (\<lambda>b acc. acc @ [f b]) bs acc = acc @ map f bs"
  by (induction bs arbitrary: acc) auto

lemma ordered_append:
  "ordered (xs @ ys) = (ordered xs \<and> ordered ys \<and> (\<forall>x\<in>set xs. \<forall>y\<in>set ys. bub x < bub y \<and> cnt x \<le> cnt y))"
  by (simp add: ordered_def sorted_wrt_append)

lemma finite_bucketE: assumes "finite_bucket c"
  obtains L where "UpperBound c = Fin L" "bub c = L" "0 \<le> L" "L \<le> 10 ^ 20" "rnd L = L"
  using assms by (auto simp: finite_bucket_def elim: is_finE)

lemma below_iff: "good b \<Longrightarrow> Max b = Fin M \<Longrightarrow> below (Fin L) b = (ub b < L \<and> ub b \<le> M)"
  by (simp add: binUpperBound_def good_flt good_fle)

lemma fold_interp_bin:
  "fold (interp_bin P (UpperBound c) (CumulativeCount c) (UpperBound p) (CumulativeCount p)) bs acc = acc @ map (interp P c p) bs"
  unfolding interp_bin_def interp_def by (rule fold_append_map)

lemma interp_bucket:
  assumes "good d" "UpperBound c = Fin L" "UpperBound p = Fin l" "bin_inside L l (ub d)"
    "cnt p \<le> cnt c" "cnt c < 2 ^ 52"
  shows "UpperBound (interp P c p d) = Fin (ub d)"
    "cnt (interp P c p d) = cnt c - nat (adj_rat (cnt c - cnt p) L l (ub d))"
    "cnt p \<le> cnt (interp P c p d)" "cnt (interp P c p d) \<le> cnt c"
proof -
  obtain x where x: "Curr d = Fin x" "ub d = x" using assms(1) by (rule goodE)
  then show "UpperBound (interp P c p d) = Fin (ub d)" by (simp add: interp_def binUpperBound_def)
  have n: "cnt c - cnt p < 2 ^ 52" using assms(6) by linarith
  have i: "bin_inside L l x" using assms(4) x by simp
  from adjusted_eq[OF i assms(5) n, of P]
  show e: "cnt (interp P c p d) = cnt c - nat (adj_rat (cnt c - cnt p) L l (ub d))"
    using assms(2,3) x by (simp add: interp_def binUpperBound_def)
  have "nat (adj_rat (cnt c - cnt p) L l (ub d)) \<le> cnt c - cnt p"
    using adj_rat_le[OF assms(4) n] by linarith
  then show "cnt p \<le> cnt (interp P c p d)" "cnt (interp P c p d) \<le> cnt c" using e assms(5) by linarith+
qed

lemma interp_mono:
  assumes "good d" "good d'" "UpperBound c = Fin L" "UpperBound p = Fin l" "bin_inside L l (ub d)" "bin_inside L l (ub d')"
    "cnt p \<le> cnt c" "cnt c < 2 ^ 52" "ub d \<le> ub d'"
  shows "cnt (interp P c p d) \<le> cnt (interp P c p d')"
  using interp_bucket(2)[OF assms(1,3,4,5,7,8)] interp_bucket(2)[OF assms(2,3,4,6,7,8)]
    adj_rat_antimono[OF assms(5,6,9)] by (simp add: diff_le_mono2 nat_mono)

lemma add_inv_append:
  assumes "add_inv p b acc" "good b'" "ub b \<le> ub b'" "ordered news" "cnt p \<le> cnt c"
    and new: "\<And>y. y \<in> set news \<Longrightarrow> ub b \<le> bub y \<and> bub y < ub b' \<and> cnt p \<le> cnt y \<and> cnt y \<le> cnt c \<and> is_fin (UpperBound y)"
    and "bub c \<le> ub b' \<or> fval (Max b') < ub b'"
  shows "add_inv c b' (acc @ news)"
proof -
  have old: "bub x < ub b \<and> cnt x \<le> cnt p \<and> is_fin (UpperBound x)" if "x \<in> set acc" for x
    using assms(1) that by (auto simp: add_inv_def)
  have "bub x < bub y \<and> cnt x \<le> cnt y" if "x \<in> set acc" "y \<in> set news" for x y
    using old[OF that(1)] new[OF that(2)] by linarith
  moreover have "ordered acc" using assms(1) by (simp add: add_inv_def)
  ultimately have "ordered (acc @ news)" using assms(4) by (simp add: ordered_append)
  moreover have "is_fin (UpperBound z) \<and> bub z < ub b' \<and> cnt z \<le> cnt c" if "z \<in> set (acc @ news)" for z
    using that old[of z] new[of z] assms(3,5) by auto
  ultimately show ?thesis using assms(2,7) by (auto simp: add_inv_def)
qed

lemma step_finite:
  assumes ok: "log10_ok P" and inv: "add_inv p b acc" and m: "max_ok b"
    and p: "finite_bucket p" and c: "finite_bucket c" "bub p < bub c" "cnt p \<le> cnt c" "cnt c < 2 ^ 52"
  shows "\<exists>b' acc'. addLog10Buckets P c (Some p) b acc = Some (b', acc') \<and> add_inv c b' acc' \<and> Max b' = Max b"
proof -
  obtain L where L: "UpperBound c = Fin L" "bub c = L" "L \<le> 10 ^ 20" "rnd L = L"
    using c(1) by (rule finite_bucketE)
  obtain l where l: "UpperBound p = Fin l" "bub p = l" "0 \<le> l" using p by (rule finite_bucketE)
  obtain M where M: "Max b = Fin M" using m by (auto simp: max_ok_def elim: is_finE)
  have g: "good b" using inv by (simp add: add_inv_def)
  have bnd: "ub d \<le> 10 ^ 20" if "below (Fin L) d" "good d" "Max d = Max b" for d
    using that below_iff[of d M L] M L by auto
  let ?body = "interp_bin P (Fin L) (CumulativeCount c) (Fin l) (CumulativeCount p)"
  from for_bins_spec[OF ok g bnd, of "below (Fin L)" ?body acc]
  obtain bs b' where run: "for_bins P (below (Fin L)) ?body b acc = Some (b', fold ?body bs acc)"
    and b': "good b'" "\<not> below (Fin L) b'" "Max b' = Max b" "ub b \<le> ub b'"
    and srt: "sorted_wrt (\<lambda>c d. ub c < ub d) (bs @ [b'])"
    and bs: "\<forall>c\<in>set bs. below (Fin L) c \<and> good c \<and> Max c = Max b \<and> ub b \<le> ub c" and hd: "bs \<noteq> [] \<longrightarrow> hd bs = b"
    by blast
  have acc': "fold ?body bs acc = acc @ map (interp P c p) bs" using fold_interp_bin[of P c p bs acc] L l by simp
  have inside: "good d" "bin_inside L l (ub d)" if "d \<in> set bs" for d
  proof -
    have "b \<in> set bs" using that hd by (cases bs) auto
    then have "below (Fin L) b" using bs by blast
    then have "l \<le> ub b" using inv l M below_iff[OF g M, of L] by (auto simp: add_inv_def)
    moreover have d: "below (Fin L) d" "good d" "Max d = Fin M" "ub b \<le> ub d" using bspec[OF bs that] M by auto
    moreover have "ub d < L" using d below_iff by blast
    moreover obtain x where "ub d = x" "1 \<le> x" "rnd x = x" using d(2) by (rule goodE)
    ultimately show "bin_inside L l (ub d)" "good d" using l(3) L(3,4) by (simp_all add: bin_inside_def)
  qed
  note ib = interp_bucket[OF inside(1) L(1) l(1) inside(2) c(3,4)]
  have "sorted_wrt (\<lambda>d d'. bub (interp P c p d) < bub (interp P c p d') \<and> cnt (interp P c p d) \<le> cnt (interp P c p d')) bs"
    using srt ib(1) interp_mono[OF inside(1) inside(1) L(1) l(1) inside(2) inside(2) c(3,4)]
    by (auto simp: sorted_wrt_append intro!: sorted_wrt_mono_rel[rotated, of "\<lambda>c d. ub c < ub d"])
  then have "ordered (map (interp P c p) bs)" by (simp add: ordered_def sorted_wrt_map)
  moreover have "ub b \<le> bub y \<and> bub y < ub b' \<and> cnt p \<le> cnt y \<and> cnt y \<le> cnt c \<and> is_fin (UpperBound y)"
    if "y \<in> set (map (interp P c p) bs)" for y
    using that ib bs srt by (auto simp: sorted_wrt_append)
  moreover have "bub c \<le> ub b' \<or> fval (Max b') < ub b'" using b'(1,2,3) M L(2) below_iff[of b' M L] by auto
  ultimately have "add_inv c b' (acc @ map (interp P c p) bs)"
    using add_inv_append[OF inv b'(1,4)] c(3) by blast
  moreover have "addLog10Buckets P c (Some p) b acc = Some (b', acc @ map (interp P c p) bs)"
    using run acc' L l by (simp add: addLog10Buckets_def)
  ultimately show ?thesis using b'(3) by blast
qed

lemma step_first:
  assumes ok: "log10_ok P" and g: "good b" and m: "max_ok b" and c: "finite_bucket c"
  shows "\<exists>b'. addLog10Buckets P c None b [] = Some (b', []) \<and> add_inv c b' [] \<and> Max b' = Max b"
proof -
  obtain L where L: "UpperBound c = Fin L" "bub c = L" "L \<le> 10 ^ 20" "rnd L = L" using c by (rule finite_bucketE)
  obtain M where M: "Max b = Fin M" using m by (auto simp: max_ok_def elim: is_finE)
  have bnd: "ub d \<le> 10 ^ 20" if "below (Fin L) d" "good d" "Max d = Max b" for d
    using that below_iff[of d M L] M L by auto
  show ?thesis
  proof (cases "ub b < L")
    case True
    from for_bins_spec[OF ok g, where guard = "below (Fin L)" and body = "\<lambda>b acc. acc" and acc = "[] :: bucket list", OF bnd]
    obtain bs b' where run: "for_bins P (below (Fin L)) (\<lambda>b acc. acc) b ([] :: bucket list) = Some (b', fold (\<lambda>b acc. acc) (bs :: log10Bucket list) [])"
      and b': "good b'" "\<not> below (Fin L) b'" "Max b' = Max b" by blast
    have "fold (\<lambda>b acc. acc) bs [] = ([] :: bucket list)" by (induction bs) simp_all
    then have "addLog10Buckets P c None b [] = Some (b', [])"
      using run True g L by (simp add: addLog10Buckets_def binUpperBound_def good_flt)
    moreover have "add_inv c b' []" using b' M L(2) below_iff[of b' M L] by (auto simp: add_inv_def ordered_def)
    ultimately show ?thesis using b'(3) by blast
  next
    case False
    then have "addLog10Buckets P c None b [] = Some (b, [])"
      using g L by (simp add: addLog10Buckets_def binUpperBound_def good_flt for_bins.simps)
    moreover have "add_inv c b []" using False g L(2) by (auto simp: add_inv_def ordered_def)
    ultimately show ?thesis by blast
  qed
qed

lemma step_inf:
  assumes ok: "log10_ok P" and g: "good b" and m: "max_ok b" and c: "UpperBound c = PInf"
    and acc: "ordered acc" "\<forall>x\<in>set acc. is_fin (UpperBound x) \<and> bub x < ub b \<and> cnt x \<le> cnt c"
  shows "\<exists>b' acc'. addLog10Buckets P c prev b acc = Some (b', acc') \<and> ordered acc' \<and> acc' \<noteq> []
     \<and> (\<forall>x\<in>set acc'. is_fin (UpperBound x)) \<and> CumulativeCount (last acc') = CumulativeCount c
     \<and> fval (Max b) \<le> bub (last acc')"
proof -
  obtain M where M: "Max b = Fin M" "M \<le> 10 ^ 20" using m by (auto simp: max_ok_def elim: is_finE)
  let ?guard = "\<lambda>d. flt (binUpperBound d) (Max d)"
  have gi: "?guard d = (ub d < M)" if "good d" "Max d = Max b" for d
    using that M by (simp add: binUpperBound_def good_flt)
  have bnd: "ub d \<le> 10 ^ 20" if "?guard d" "good d" "Max d = Max b" for d
    using that gi[of d] M by auto
  from for_bins_spec[OF ok g bnd, of ?guard "flat_bin (CumulativeCount c)" acc]
  obtain bs b' where run: "for_bins P ?guard (flat_bin (CumulativeCount c)) b acc = Some (b', fold (flat_bin (CumulativeCount c)) bs acc)"
    and b': "good b'" "\<not> ?guard b'" "Max b' = Max b" "ub b \<le> ub b'"
    and srt: "sorted_wrt (\<lambda>c d. ub c < ub d) (bs @ [b'])"
    and bs: "\<forall>c\<in>set bs. ?guard c \<and> good c \<and> Max c = Max b \<and> ub b \<le> ub c" by blast
  let ?news = "map (flat (CumulativeCount c)) (bs @ [b'])"
  have "fold (flat_bin (CumulativeCount c)) bs acc = acc @ map (flat (CumulativeCount c)) bs"
    unfolding flat_bin_def flat_def by (rule fold_append_map)
  then have run': "addLog10Buckets P c prev b acc = Some (b', acc @ ?news)"
    using run c by (simp add: addLog10Buckets_def flat_bin_def flat_def Let_def)
  have fl: "bub (flat n d) = ub d" "cnt (flat n d) = unat n" for n d
    by (simp_all add: flat_def binUpperBound_def)
  have fin: "is_fin (UpperBound (flat n d))" if "good d" for n d
    using that by (simp add: flat_def binUpperBound_def good_def)
  have "ordered ?news" using srt unfolding ordered_def sorted_wrt_map fl by (simp add: sorted_wrt_append)
  moreover have "bub x < bub y \<and> cnt x \<le> cnt y" if "x \<in> set acc" "y \<in> set ?news" for x y
    using that acc(2) bs b'(4) by (force simp: fl)
  ultimately have "ordered (acc @ ?news)" using acc(1) by (simp only: ordered_append) blast
  moreover have "\<forall>x\<in>set (acc @ ?news). is_fin (UpperBound x)" using acc(2) bs b'(1) fin by auto
  moreover have "CumulativeCount (last (acc @ ?news)) = CumulativeCount c" by (simp add: flat_def)
  moreover have "fval (Max b) \<le> bub (last (acc @ ?news))" using gi[OF b'(1,3)] b'(2) M by (simp add: fl)
  ultimately show ?thesis using run' by blast
qed

lemma add_all_append:
  "add_all P (xs @ ys) prev b acc =
     (case add_all P xs prev b acc of None \<Rightarrow> None
      | Some (b', acc') \<Rightarrow> add_all P ys (if xs = [] then prev else Some (last xs)) b' acc')"
  by (induction xs arbitrary: prev b acc) (auto split: option.splits)

lemma add_all_finite:
  assumes "log10_ok P" "max_ok b" "finite_bucket p" "add_inv p b acc"
    and "sorted_wrt (\<lambda>c d. bub c < bub d \<and> cnt c \<le> cnt d) (p # fs)" "\<forall>c\<in>set fs. finite_bucket c \<and> cnt c < 2 ^ 52"
  shows "\<exists>b' acc'. add_all P fs (Some p) b acc = Some (b', acc') \<and> add_inv (last (p # fs)) b' acc' \<and> Max b' = Max b"
  using assms(2-)
proof (induction fs arbitrary: p b acc)
  case (Cons c fs)
  have c: "finite_bucket c" "bub p < bub c" "cnt p \<le> cnt c" "cnt c < 2 ^ 52" using Cons.prems by auto
  from step_finite[OF assms(1) Cons.prems(3,1,2) c] obtain b' acc' where s:
    "addLog10Buckets P c (Some p) b acc = Some (b', acc')" "add_inv c b' acc'" "Max b' = Max b" by blast
  have "max_ok b'" using Cons.prems(1) s(3) by (simp add: max_ok_def)
  from Cons.IH[OF this c(1) s(2)] Cons.prems(4,5) s(1,3) show ?case by auto
qed auto

lemma add_all_hdr:
  assumes ok: "log10_ok P" and g: "good b" and m: "max_ok b" and h: "hdr_ok bs"
  shows "\<exists>b' acc. add_all P bs None b [] = Some (b', acc) \<and> ordered acc \<and> acc \<noteq> []
     \<and> (\<forall>x\<in>set acc. is_fin (UpperBound x)) \<and> CumulativeCount (last acc) = CumulativeCount (last bs)
     \<and> fval (Max b) \<le> bub (last acc)"
proof -
  define fs i where "fs = butlast bs" and "i = last bs"
  have bs: "bs = fs @ [i]" and i: "UpperBound i = PInf" using h by (simp_all add: fs_def i_def hdr_ok_def)
  have f: "\<forall>c\<in>set fs. finite_bucket c" "\<forall>c\<in>set fs. cnt c < 2 ^ 52" "\<forall>c\<in>set fs. cnt c \<le> cnt i"
    "sorted_wrt (\<lambda>c d. bub c < bub d \<and> cnt c \<le> cnt d) fs"
    using h bs by (auto simp: hdr_ok_def sorted_wrt_append sorted_wrt_conj)
  have "\<exists>b' acc. add_all P fs None b [] = Some (b', acc) \<and> good b' \<and> max_ok b' \<and> Max b' = Max b \<and> ordered acc
      \<and> (\<forall>x\<in>set acc. is_fin (UpperBound x) \<and> bub x < ub b' \<and> cnt x \<le> cnt i)"
  proof (cases fs)
    case Nil
    then show ?thesis using g m by (simp add: ordered_def)
  next
    case (Cons c cs)
    from step_first[OF ok g m, of c] f Cons obtain b1 where b1: "addLog10Buckets P c None b [] = Some (b1, [])"
      "add_inv c b1 []" "Max b1 = Max b" by auto
    have m1: "max_ok b1" using m b1(3) by (simp add: max_ok_def)
    from add_all_finite[OF ok m1 _ b1(2), of cs] f Cons obtain b' acc where
      r: "add_all P cs (Some c) b1 [] = Some (b', acc)" "add_inv (last fs) b' acc" "Max b' = Max b1" by auto
    have "last fs \<in> set fs" using Cons by simp
    then have "cnt (last fs) \<le> cnt i" using f(3) by blast
    then have "good b'" "ordered acc" "\<forall>x\<in>set acc. is_fin (UpperBound x) \<and> bub x < ub b' \<and> cnt x \<le> cnt i"
      using r(2) by (auto simp: add_inv_def intro: order_trans)
    moreover have "max_ok b'" using m1 r(3) by (simp add: max_ok_def)
    ultimately show ?thesis using r b1 Cons by simp
  qed
  then obtain b' acc where r: "add_all P fs None b [] = Some (b', acc)" "good b'" "max_ok b'" "Max b' = Max b" "ordered acc"
    "\<forall>x\<in>set acc. is_fin (UpperBound x) \<and> bub x < ub b' \<and> cnt x \<le> cnt i" by blast
  from step_inf[OF ok r(2,3) i r(5,6), of "if fs = [] then None else Some (last fs)"] r(1,4) bs show ?thesis
    by (auto simp: add_all_append)
qed

section \<open>The exact platform and the bounds of a histogram\<close>

lemma digits10_bounds: "1 \<le> n \<Longrightarrow> 0 \<le> digits10 n \<and> 10 ^ nat (digits10 n) \<le> n \<and> n < 10 ^ nat (digits10 n + 1)"
proof (induction n rule: digits10.induct)
  case (1 n)
  show ?case
  proof (cases "n < 10")
    case True
    then show ?thesis using 1 by (simp add: digits10.simps[of n])
  next
    case False
    then have IH: "0 \<le> digits10 (n div 10)" "10 ^ nat (digits10 (n div 10)) \<le> n div 10"
      "n div 10 < 10 ^ nat (digits10 (n div 10) + 1)" using 1 by auto
    have d: "digits10 n = digits10 (n div 10) + 1" using False by (simp add: digits10.simps[of n])
    have "nat (digits10 n) = Suc (nat (digits10 (n div 10)))" "nat (digits10 n + 1) = Suc (nat (digits10 (n div 10) + 1))"
      using IH(1) d by auto
    then show ?thesis using IH d by (simp; linarith)
  qed
qed

lemma log10_ok_exact: "log10_ok exact_platform"
proof -
  have "0 \<le> digits10 \<lfloor>x\<rfloor> \<and> x < 10 ^ nat (digits10 \<lfloor>x\<rfloor> + 1) \<and> 10 ^ nat (digits10 \<lfloor>x\<rfloor>) \<le> 10 * x" if "1 \<le> x" for x :: rat
  proof -
    let ?n = "\<lfloor>x\<rfloor>"
    have "1 \<le> ?n" using that by simp
    note d = digits10_bounds[OF this]
    have "x < of_int (?n + 1)" using floor_correct[of x] by simp
    also have "\<dots> \<le> of_int (10 ^ nat (digits10 ?n + 1))" unfolding of_int_le_iff using d by linarith
    finally have lt: "x < 10 ^ nat (digits10 ?n + 1)" by simp
    have "of_int (10 ^ nat (digits10 ?n)) \<le> (of_int ?n :: rat)" unfolding of_int_le_iff using d by blast
    also have "\<dots> \<le> x" by simp
    finally show ?thesis using lt d that by simp
  qed
  then show ?thesis by (simp add: log10_ok_def exact_platform_def Let_def)
qed

lemma finite_max_ok: "\<forall>c\<in>set bs. finite_bucket c \<or> UpperBound c = PInf \<Longrightarrow> \<exists>M. finite_max bs = Fin M \<and> M \<le> 10 ^ 20"
proof -
  assume a: "\<forall>c\<in>set bs. finite_bucket c \<or> UpperBound c = PInf"
  have "\<exists>M'. fold (\<lambda>b mx. if UpperBound b \<noteq> PInf \<and> flt mx (UpperBound b) then UpperBound b else mx) bs (Fin M) = Fin M' \<and> M' \<le> 10 ^ 20"
    if "M \<le> 10 ^ 20" for M using a that
  proof (induction bs arbitrary: M)
    case (Cons c cs)
    then consider "UpperBound c = PInf" | L where "UpperBound c = Fin L" "L \<le> 10 ^ 20" by (auto elim: finite_bucketE)
    then show ?case using Cons.IH Cons.prems by cases auto
  qed auto
  from this[of 0] show ?thesis by (simp add: finite_max_def)
qed

lemma histogram_max_ok:
  assumes "hist_ok h" "hdr_ok bs"
  shows "is_fin (histogram_max h bs) \<and> fval (histogram_max h bs) \<le> 10 ^ 20"
proof (cases "length bs \<ge> 2 \<and> hist_End h > 0")
  case True
  have "(of_int (hist_End h) :: rat) \<le> of_int (10 ^ 20)" unfolding of_int_le_iff using assms(1) by (simp add: hist_ok_def)
  then have e: "(of_int (hist_End h) :: rat) \<le> 10 ^ 20" by simp
  have "rnd (of_int (hist_End h)) \<le> rnd (10 ^ 20)" by (rule rnd_mono[OF e])
  then have r: "rnd (of_int (hist_End h)) \<le> 10 ^ 20" by (simp only: rnd_pow10)
  have "(10::rat) ^ 20 \<le> 10 ^ 300" by simp
  then have "\<bar>of_int (hist_End h) :: rat\<bar> \<le> 10 ^ 300" using e True by simp
  from round64_small[OF this] r True show ?thesis by (simp add: histogram_max_def float_of_int_def)
next
  case False
  have "\<forall>c\<in>set bs. finite_bucket c \<or> UpperBound c = PInf"
  proof
    fix c assume "c \<in> set bs"
    moreover have "bs = butlast bs @ [last bs]" using assms(2) by (simp add: hdr_ok_def)
    ultimately have "c \<in> set (butlast bs) \<or> c = last bs" by (metis Un_iff set_append empty_iff insert_iff list.set(1) list.set(2))
    then show "finite_bucket c \<or> UpperBound c = PInf" using assms(2) by (auto simp: hdr_ok_def)
  qed
  from finite_max_ok[OF this] False show ?thesis by (auto simp: histogram_max_def)
qed

section \<open>A bin that does not advance\<close>

lemma for_bins_stuck:
  assumes "nextBin P b = b" "guard b"
  shows "for_bins P guard body b acc = None"
proof (cases "for_bins P guard body b acc")
  case (Some r)
  have "nextBin P b = b \<longrightarrow> \<not> guard b"
  proof (rule for_bins.raw_induct[where P = "\<lambda>P guard body b acc r. nextBin P b = b \<longrightarrow> \<not> guard b", OF _ Some])
    fix f P' g' body' b' acc' r'
    assume IH: "\<And>P guard body b acc r. f P guard body b acc = Some r \<Longrightarrow> nextBin P b = b \<longrightarrow> \<not> guard b"
      and eq: "(if g' b' then f P' g' body' (nextBin P' b') (body' b' acc') else Some (b', acc')) = Some r'"
    show "nextBin P' b' = b' \<longrightarrow> \<not> g' b'" using IH[of P' g' body' "nextBin P' b'" "body' b' acc'" r'] eq by auto
  qed
  with assms show ?thesis by simp
qed

lemma nextBin_negative:
  assumes "Curr b = Fin (of_int s)" "s < 0" "- (2 ^ 53) \<le> s" "floor_log10 P (Curr b) = min_int64"
    "10 \<le> BinNums b" "BinNums b \<le> 2 ^ 53"
  shows "nextBin P b = b"
proof -
  have p: "pow10 (min_int64 + 1) = Fin 0" by (simp add: pow10_def min_int64_def)
  have f: "float_of_int (BinNums b) = Fin (of_int (BinNums b))" using assms(5,6) by (intro float_of_int_exact) simp
  have s: "round64 (of_int s) = Fin (of_int s)" using assms(2,3) by (intro round64_of_int) simp
  show ?thesis using assms p f s by (simp add: nextBin_def)
qed

section \<open>Properties\<close>





end
