(* ===== verification/Metric_Writer.thy ===== *)
theory Metric_Writer
  imports Translator
begin

text \<open>
  \<^verbatim>\<open>internal/metric/writer.go\<close>: the writer that fetches the metrics of the node, rewrites the
  histograms, and copies the result to the response.  Parsing of URLs, the file system, the HTTP
  client, the parser and the encoder of the exposition format are arguments.
\<close>

section \<open>Opening the source\<close>

record url =
  url_Scheme :: string
  url_Path :: string

text \<open>The part of a TLS configuration the program sets: the roots it trusts, the certificate it offers.\<close>

record tls_Config =
  tls_RootCAs :: "string option"
  tls_hasCertificate :: bool

datatype source = FileSource string | HttpSource string tls_Config

record Writer =
  wr_open :: source
  wr_translators :: "translator list option"

type_synonym url_Parse = "string \<Rightarrow> go_error + url"

definition newWriter :: "url_Parse \<Rightarrow> string \<Rightarrow> tls_Config \<Rightarrow> translator list option \<Rightarrow> Writer result" where
  "newWriter parse URL client ts = (case parse URL of
      Inl e \<Rightarrow> Inl (Err e)
    | Inr parsed \<Rightarrow>
        if url_Scheme parsed = ''file'' then Inr \<lparr>wr_open = FileSource (url_Path parsed), wr_translators = ts\<rparr>
        else if url_Scheme parsed = ''http'' \<or> url_Scheme parsed = ''https''
          then Inr \<lparr>wr_open = HttpSource URL client, wr_translators = ts\<rparr>
        else Inl (Err (url_Scheme parsed @ '' protocol not supported'')))"

definition NewWriter :: "url_Parse \<Rightarrow> string \<Rightarrow> tls_Config \<Rightarrow> translator list option \<Rightarrow> Writer result" where
  "NewWriter parse URL tlsConfig ts = newWriter parse URL tlsConfig ts"

record response_head =
  http_StatusCode :: int
  http_Status :: string
  http_Body :: string

record network =
  os_Open :: "string \<Rightarrow> go_error + string"
  http_NewRequest :: "string \<Rightarrow> go_error option"
  http_Do :: "tls_Config \<Rightarrow> string \<Rightarrow> go_error + response_head"

definition open_source :: "network \<Rightarrow> source \<Rightarrow> string result" where
  "open_source N src = (case src of
      FileSource path \<Rightarrow> (case os_Open N path of Inl e \<Rightarrow> Inl (Err e) | Inr b \<Rightarrow> Inr b)
    | HttpSource URL client \<Rightarrow>
        (case http_NewRequest N URL of
           Some e \<Rightarrow> Inl (Err e)
         | None \<Rightarrow> (case http_Do N client URL of
              Inl e \<Rightarrow> Inl (Err e)
            | Inr rsp \<Rightarrow> if http_StatusCode rsp \<noteq> 200 then Inl (Err (http_Status rsp)) else Inr (http_Body rsp))))"

section \<open>Copy\<close>

type_synonym ('x, 'out) encoder = "'x MetricFamily \<Rightarrow> 'out \<Rightarrow> go_error + 'out"

text \<open>
  The loops return what has been written, together with the error; a family the encoder fails on
  counts as not written.
\<close>

type_synonym 'out copied = "(unit result \<times> 'out) option"

fun translate_all :: "go_platform \<Rightarrow> ('x, 'out) encoder \<Rightarrow> translator list \<Rightarrow> 'x MetricFamily \<Rightarrow> 'out \<Rightarrow> 'out copied" where
  "translate_all P enc [] mf out = Some (Inr (), out)"
| "translate_all P enc (t # ts) mf out =
     (case Translate P enc t mf out of
        None \<Rightarrow> None
      | Some (Inl e) \<Rightarrow> Some (Inl e, out)
      | Some (Inr (mf', out')) \<Rightarrow> translate_all P enc ts mf' out')"

definition copy_family :: "go_platform \<Rightarrow> ('x, 'out) encoder \<Rightarrow> translator list option \<Rightarrow> 'x MetricFamily \<Rightarrow> 'out \<Rightarrow> 'out copied" where
  "copy_family P enc ts mf out =
    (if mf_Type mf = HISTOGRAM \<and> ts \<noteq> None then translate_all P enc (the ts) mf out
     else (case enc mf out of Inl e \<Rightarrow> Some (Inl (Err e), out) | Inr out' \<Rightarrow> Some (Inr (), out')))"

fun copy_families :: "go_platform \<Rightarrow> ('x, 'out) encoder \<Rightarrow> translator list option \<Rightarrow> 'x MetricFamily list \<Rightarrow> 'out \<Rightarrow> 'out copied" where
  "copy_families P enc ts [] out = Some (Inr (), out)"
| "copy_families P enc ts (mf # mfs) out =
     (case copy_family P enc ts mf out of
        None \<Rightarrow> None
      | Some (Inl e, out') \<Rightarrow> Some (Inl e, out')
      | Some (Inr _, out') \<Rightarrow> copy_families P enc ts mfs out')"

definition GetTranslators :: "Writer \<Rightarrow> translator list option" where
  "GetTranslators w = wr_translators w"

definition SetTranslators :: "translator list option \<Rightarrow> Writer \<Rightarrow> Writer" where
  "SetTranslators ts w = w\<lparr>wr_translators := ts\<rparr>"

text \<open>The families of the source form a Go map: \<open>parse\<close> lists them in the order of the iteration.\<close>

definition Copy :: "go_platform \<Rightarrow> network \<Rightarrow> (string \<Rightarrow> go_error + 'x MetricFamily list) \<Rightarrow> ('x, 'out) encoder \<Rightarrow> Writer \<Rightarrow> 'out
    \<Rightarrow> 'out copied" where
  "Copy P N parse enc w out = (case open_source N (wr_open w) of
      Inl e \<Rightarrow> Some (Inl e, out)
    | Inr body \<Rightarrow> (case parse body of
        Inl e \<Rightarrow> Some (Inl (Err e), out)
      | Inr mfs \<Rightarrow> copy_families P enc (GetTranslators w) mfs out))"

section \<open>What is written\<close>

text \<open>
  The families a translated histogram gives: one for every translator that matches, each of them
  working on the result of the one before, since the family is rewritten in place.
\<close>

fun rewritings :: "go_platform \<Rightarrow> translator list \<Rightarrow> 'x MetricFamily \<Rightarrow> 'x MetricFamily list result option" where
  "rewritings P [] mf = Some (Inr [])"
| "rewritings P (t # ts) mf =
     (if tr_include t (mf_Name mf)
      then (case translate P t mf of
              None \<Rightarrow> None
            | Some (Inl e) \<Rightarrow> Some (Inl e)
            | Some (Inr mf') \<Rightarrow>
                (case rewritings P ts mf' of
                   Some (Inr l) \<Rightarrow> Some (Inr (mf' # l))
                 | r \<Rightarrow> r))
      else rewritings P ts mf)"

definition written :: "go_platform \<Rightarrow> translator list option \<Rightarrow> 'x MetricFamily \<Rightarrow> 'x MetricFamily list result option" where
  "written P ts mf = (case ts of None \<Rightarrow> Some (Inr [mf])
     | Some l \<Rightarrow> if mf_Type mf = HISTOGRAM then rewritings P l mf else Some (Inr [mf]))"

lemma translate_type: "translate P t mf = Some (Inr mf') \<Longrightarrow> mf_Type mf' = mf_Type mf \<and> mf_Name mf' = mf_Name mf"
  by (auto simp: translate_def split: option.splits sum.splits)

lemma translate_all_written:
  "mf_Type mf = HISTOGRAM \<Longrightarrow> rewritings P ts mf = Some (Inr l)
    \<Longrightarrow> translate_all P (\<lambda>m out. Inr (f m out)) ts mf out = Some (Inr (), (fold f l out))"
proof (induction ts arbitrary: mf l out)
  case (Cons t ts)
  show ?case
  proof (cases "tr_include t (mf_Name mf)")
    case True
    obtain mf' l' where r: "translate P t mf = Some (Inr mf')" "rewritings P ts mf' = Some (Inr l')" "l = mf' # l'"
      using Cons.prems(2) True by (auto split: option.splits sum.splits)
    have "mf_Type mf' = HISTOGRAM" using translate_type[OF r(1)] Cons.prems(1) by simp
    then show ?thesis using Cons.IH[OF _ r(2)] True r Cons.prems(1) by (simp add: Translate_def)
  next
    case False
    then show ?thesis using Cons by (simp add: Translate_def)
  qed
qed simp

lemma copy_family_written:
  "written P ts mf = Some (Inr l) \<Longrightarrow> copy_family P (\<lambda>m out. Inr (f m out)) ts mf out = Some (Inr (), (fold f l out))"
  by (auto simp: written_def copy_family_def translate_all_written split: option.splits if_splits)

lemma copy_families_written:
  "list_all2 (\<lambda>mf l. written P ts mf = Some (Inr l)) mfs ls
    \<Longrightarrow> copy_families P (\<lambda>m out. Inr (f m out)) ts mfs out = Some (Inr (), (fold f (concat ls) out))"
  by (induction arbitrary: out rule: list_all2_induct) (simp_all add: copy_family_written)

text \<open>
  C30: \<^verbatim>\<open>Copy\<close> writes, in the order of the families of the source, every family as it is, except that
  with translators a histogram is replaced by its rewritings; nothing else is written.
\<close>

theorem Copy_writes:
  assumes "open_source N (wr_open w) = Inr body" "parse body = Inr mfs"
    and "list_all2 (\<lambda>mf l. written P (wr_translators w) mf = Some (Inr l)) mfs ls"
  shows "Copy P N parse (\<lambda>m out. Inr (f m out)) w out = Some (Inr (), (fold f (concat ls) out))"
  using assms by (simp add: Copy_def GetTranslators_def copy_families_written)

definition ex_family :: "string \<Rightarrow> MetricType \<Rightarrow> unit MetricFamily" where
  "ex_family n t = \<lparr>mf_Name = n, mf_Type = t, mf_Metric = []\<rparr>"

definition ex_network :: network where
  "ex_network = \<lparr>os_Open = \<lambda>p. Inr ''body'', http_NewRequest = \<lambda>u. None, http_Do = \<lambda>c u. Inl ''refused''\<rparr>"

definition ex_translator :: translator where
  "ex_translator = \<lparr>tr_histogram = ex_hist, tr_include = \<lambda>n. n = ''lat''\<rparr>"

theorem Copy_writes_witness:
  "Copy exact_platform ex_network (\<lambda>b. Inr [ex_family ''up'' GAUGE, ex_family ''lat'' HISTOGRAM, ex_family ''size'' HISTOGRAM])
     (\<lambda>m out. Inr (out @ [m])) \<lparr>wr_open = FileSource ''f'', wr_translators = Some [ex_translator]\<rparr> []
   = Some (Inr (), [ex_family ''up'' GAUGE, ex_family ''lat'' HISTOGRAM])"
  using Copy_writes[where N = ex_network and w = "\<lparr>wr_open = FileSource ''f'', wr_translators = Some [ex_translator]\<rparr>" and body = "''body''"
      and parse = "\<lambda>b. Inr [ex_family ''up'' GAUGE, ex_family ''lat'' HISTOGRAM, ex_family ''size'' HISTOGRAM]"
      and ls = "[[ex_family ''up'' GAUGE], [ex_family ''lat'' HISTOGRAM], []]" and f = "\<lambda>m out. out @ [m]" and out = "[]" and P = exact_platform]
  by (simp add: open_source_def ex_network_def written_def ex_family_def ex_translator_def translate_def)

text \<open>
  C33: with translators, a histogram that none of them matches is not written at all; so as soon as
  the store holds a definition, even a disabled one, every histogram of the node without a matching
  enabled definition disappears from the output.
\<close>

theorem Copy_drops_unmatched:
  fixes mf :: "'x MetricFamily" and enc :: "('x, 'out) encoder"
  assumes "mf_Type mf = HISTOGRAM" "\<forall>t \<in> set ts. \<not> tr_include t (mf_Name mf)"
  shows "copy_families P enc (Some ts) (mf # mfs) out = copy_families P enc (Some ts) mfs out"
proof -
  have "translate_all P enc ts mf out = Some (Inr (), out)"
    using assms(2) by (induction ts) (auto simp: Translate_def)
  then show ?thesis using assms(1) by (simp add: copy_family_def)
qed

theorem Copy_drops_unmatched_witness:
  "copy_families exact_platform (\<lambda>m out. Inr (out @ [m])) (Some []) [ex_family ''lat'' HISTOGRAM] [] = Some (Inr (), [])
   \<and> tr_Load (\<lambda>r. Inr (\<lambda>s. True)) (Inr [''h'']) (\<lambda>n. Inr (Some (ex_hist\<lparr>hist_Enabled := False\<rparr>))) = Inr (Some [])"
  using Copy_drops_unmatched[of "ex_family ''lat'' HISTOGRAM" "[]" exact_platform "\<lambda>m out. Inr (out @ [m])" "[]" "[]"]
  by (simp add: ex_family_def tr_Load_def ex_hist_def)

section \<open>Loading the translators\<close>

lemma load_each_correct:
  assumes "\<forall>n \<in> set ns. \<exists>h. get n = Inr (Some h) \<and> (hist_Enabled h \<longrightarrow> (\<exists>m. compile (hist_Regex h) = Inr m))"
  shows "\<exists>ts. load_each compile get ns acc = Inr (acc @ ts)
    \<and> map tr_histogram ts = filter hist_Enabled (map (\<lambda>n. the (projr (get n))) ns)
    \<and> (\<forall>t \<in> set ts. compile (hist_Regex (tr_histogram t)) = Inr (tr_include t))"
  using assms
proof (induction ns arbitrary: acc)
  case (Cons n ns)
  obtain h where h: "get n = Inr (Some h)" "hist_Enabled h \<longrightarrow> (\<exists>m. compile (hist_Regex h) = Inr m)" using Cons.prems by auto
  have IH: "\<exists>ts. load_each compile get ns a = Inr (a @ ts) \<and> map tr_histogram ts = filter hist_Enabled (map (\<lambda>n. the (projr (get n))) ns)
    \<and> (\<forall>t \<in> set ts. compile (hist_Regex (tr_histogram t)) = Inr (tr_include t))" for a using Cons by simp
  show ?case
  proof (cases "hist_Enabled h")
    case True
    then obtain m where m: "compile (hist_Regex h) = Inr m" using h(2) by blast
    let ?t = "\<lparr>tr_histogram = h, tr_include = m\<rparr>"
    obtain ts where "load_each compile get ns (acc @ [?t]) = Inr ((acc @ [?t]) @ ts)"
        "map tr_histogram ts = filter hist_Enabled (map (\<lambda>n. the (projr (get n))) ns)"
        "\<forall>t \<in> set ts. compile (hist_Regex (tr_histogram t)) = Inr (tr_include t)"
      using IH by blast
    then show ?thesis using h(1) m True by (intro exI[of _ "?t # ts"]) (simp add: tr_New_def)
  next
    case False
    then show ?thesis using h(1) IH by simp
  qed
qed simp

text \<open>
  If every listed definition can be read and every enabled one has a valid expression, \<^verbatim>\<open>Load\<close>
  returns one translator for each enabled definition, in the order of the listing, matching with
  its own expression; without definitions it returns the nil slice, which lets histograms pass.
\<close>

theorem Load_correct:
  assumes "\<forall>n \<in> set ns. \<exists>h. get n = Inr (Some h) \<and> (hist_Enabled h \<longrightarrow> (\<exists>m. compile (hist_Regex h) = Inr m))"
  shows "(ns = [] \<and> tr_Load compile (Inr ns) get = Inr None)
    \<or> (ns \<noteq> [] \<and> (\<exists>ts. tr_Load compile (Inr ns) get = Inr (Some ts)
        \<and> map tr_histogram ts = filter hist_Enabled (map (\<lambda>n. the (projr (get n))) ns)
        \<and> (\<forall>t \<in> set ts. compile (hist_Regex (tr_histogram t)) = Inr (tr_include t))))"
  using load_each_correct[OF assms, of "[]"] by (auto simp: tr_Load_def)

theorem Load_correct_witness:
  "\<exists>ts. tr_Load (\<lambda>r. Inr (\<lambda>s. s = r)) (Inr [''a'', ''b'']) (\<lambda>n. Inr (Some (ex_hist\<lparr>hist_Enabled := (n = ''a''), hist_Name := n\<rparr>))) = Inr (Some ts)
    \<and> map tr_histogram ts = [ex_hist\<lparr>hist_Enabled := True, hist_Name := ''a''\<rparr>]"
proof -
  have "\<forall>n \<in> set [''a'', ''b'']. \<exists>h. (Inr (Some (ex_hist\<lparr>hist_Enabled := (n = ''a''), hist_Name := n\<rparr>)) :: go_error + Histogram option) = Inr (Some h)
      \<and> (hist_Enabled h \<longrightarrow> (\<exists>m. (Inr (\<lambda>s. s = hist_Regex h) :: go_error + matcher) = Inr m))"
    by auto
  from Load_correct[where get = "\<lambda>n. Inr (Some (ex_hist\<lparr>hist_Enabled := (n = ''a''), hist_Name := n\<rparr>))" and compile = "\<lambda>r. Inr (\<lambda>s. s = r)", OF this]
  show ?thesis by auto
qed

end
