(* ===== verification/Go_Json.thy ===== *)
theory Go_Json
  imports Visus_Prelude
begin

text \<open>
  What \<^verbatim>\<open>encoding/json\<close> makes of a struct of strings, as the counter cache uses it
  (\<^verbatim>\<open>collector.getKey\<close>): Go strings are bytes, valid UTF-8 is copied except for the characters
  that JSON or HTML need escaped, a byte that is not part of valid UTF-8 becomes the replacement
  character.  The theory shows that the encoding of valid UTF-8 can be decoded, so that distinct
  values have distinct encodings.
\<close>

definition byte :: "char \<Rightarrow> nat" where "byte c = of_char c"
definition chr :: "nat \<Rightarrow> char" where "chr n = char_of n"

lemma byte_chr [simp]: "n < 256 \<Longrightarrow> byte (chr n) = n"
  by (simp add: byte_def chr_def)

lemma chr_byte [simp]: "chr (byte c) = c"
  by (simp add: byte_def chr_def)

lemma byte_lt: "byte c < 256"
  using of_char_mod_256[of c, where 'a = nat] by (metis byte_def mod_less_divisor zero_less_numeral)

definition cont :: "nat \<Rightarrow> nat \<Rightarrow> char \<Rightarrow> bool" where
  "cont lo hi c = (lo \<le> byte c \<and> byte c \<le> hi)"

text \<open>
  \<^verbatim>\<open>utf8.DecodeRuneInString\<close> on a string whose first byte is not ASCII: the number of bytes
  that follow in a valid encoding, if it is one.
\<close>

definition rune2 :: "char \<Rightarrow> char \<Rightarrow> bool" where
  "rune2 c c1 = (cont 0xC2 0xDF c \<and> cont 0x80 0xBF c1)"

definition rune3 :: "char \<Rightarrow> char \<Rightarrow> char \<Rightarrow> bool" where
  "rune3 c c1 c2 = ((byte c = 0xE0 \<and> cont 0xA0 0xBF c1 \<or> byte c = 0xED \<and> cont 0x80 0x9F c1
     \<or> (cont 0xE1 0xEC c \<or> cont 0xEE 0xEF c) \<and> cont 0x80 0xBF c1) \<and> cont 0x80 0xBF c2)"

definition rune4 :: "char \<Rightarrow> char \<Rightarrow> char \<Rightarrow> char \<Rightarrow> bool" where
  "rune4 c c1 c2 c3 = ((byte c = 0xF0 \<and> cont 0x90 0xBF c1 \<or> byte c = 0xF4 \<and> cont 0x80 0x8F c1
     \<or> cont 0xF1 0xF3 c \<and> cont 0x80 0xBF c1) \<and> cont 0x80 0xBF c2 \<and> cont 0x80 0xBF c3)"

fun rune_tail :: "string \<Rightarrow> nat option" where
  "rune_tail (c # c1 # c2 # c3 # r) =
     (if rune2 c c1 then Some 1 else if rune3 c c1 c2 then Some 2 else if rune4 c c1 c2 c3 then Some 3 else None)"
| "rune_tail [c, c1, c2] = (if rune2 c c1 then Some 1 else if rune3 c c1 c2 then Some 2 else None)"
| "rune_tail [c, c1] = (if rune2 c c1 then Some 1 else None)"
| "rune_tail _ = None"

text \<open>Every byte of such an encoding has its high bit set.\<close>

lemma rune_tail_high:
  assumes "rune_tail s = Some k"
  shows "k < length s \<and> 0 < k \<and> (\<forall>x \<in> set (take (Suc k) s). 0x80 \<le> byte x)"
  using assms
  by (cases s rule: rune_tail.cases) (auto simp: rune2_def rune3_def rune4_def cont_def split: if_splits)

function valid_utf8 :: "string \<Rightarrow> bool" where
  "valid_utf8 [] = True"
| "valid_utf8 (c # s) = (if byte c < 0x80 then valid_utf8 s
     else (case rune_tail (c # s) of None \<Rightarrow> False | Some k \<Rightarrow> valid_utf8 (drop k s)))"
  by pat_completeness auto
termination by (relation "measure length") (auto dest: rune_tail_high)

definition hexdigit :: "nat \<Rightarrow> char" where
  "hexdigit n = chr (if n < 10 then 48 + n else 87 + n)"

definition unhex :: "char \<Rightarrow> nat" where
  "unhex c = (if byte c < 58 then byte c - 48 else byte c - 87)"

lemma unhex_hexdigit [simp]: "n < 16 \<Longrightarrow> unhex (hexdigit n) = n"
  by (simp add: unhex_def hexdigit_def)

text \<open>The backslash, the quote, and the two line separators that JSON in HTML must not contain.\<close>

definition bsl :: char where "bsl = chr 92"
definition quo :: char where "quo = chr 34"
definition sep :: "nat \<Rightarrow> string" where "sep d = [chr 0xE2, chr 0x80, chr (0xA0 + d)]"

definition short_escape :: "nat \<Rightarrow> nat option" where
  "short_escape n = (if n = 92 then Some 92 else if n = 34 then Some 34 else if n = 8 then Some 98
     else if n = 12 then Some 102 else if n = 10 then Some 110 else if n = 13 then Some 114
     else if n = 9 then Some 116 else None)"

definition json_ascii :: "char \<Rightarrow> string" where
  "json_ascii c = (let n = byte c in
     case short_escape n of Some e \<Rightarrow> [bsl, chr e]
     | None \<Rightarrow> if n < 32 \<or> n \<in> {38, 60, 62}
               then [bsl, chr 117, hexdigit 0, hexdigit 0, hexdigit (n div 16), hexdigit (n mod 16)]
               else [c])"

function json_chars :: "string \<Rightarrow> string" where
  "json_chars [] = []"
| "json_chars (c # s) =
    (if byte c < 0x80 then json_ascii c @ json_chars s
     else (case rune_tail (c # s) of
        None \<Rightarrow> [bsl, chr 117, hexdigit 15, hexdigit 15, hexdigit 15, hexdigit 13] @ json_chars s
      | Some k \<Rightarrow>
          (if c # take k s = sep 8 then [bsl, chr 117, hexdigit 2, hexdigit 0, hexdigit 2, hexdigit 8]
           else if c # take k s = sep 9 then [bsl, chr 117, hexdigit 2, hexdigit 0, hexdigit 2, hexdigit 9]
           else c # take k s) @ json_chars (drop k s)))"
  by pat_completeness auto
termination by (relation "measure length") (auto dest: rune_tail_high)

definition json_string :: "string \<Rightarrow> string" where
  "json_string s = quo # json_chars s @ [quo]"

fun json_strings :: "string list \<Rightarrow> string" where
  "json_strings [] = []"
| "json_strings [s] = json_string s"
| "json_strings (s # t # ss) = json_string s @ '','' @ json_strings (t # ss)"

definition json_list :: "string list \<Rightarrow> string" where
  "json_list ss = ''['' @ json_strings ss @ '']''"

section \<open>Decoding\<close>

definition unescape :: "nat \<Rightarrow> nat" where
  "unescape n = (if n = 98 then 8 else if n = 102 then 12 else if n = 110 then 10
     else if n = 114 then 13 else if n = 116 then 9 else n)"

fun dec :: "string \<Rightarrow> string \<times> string" where
  "dec [] = ([], [])"
| "dec (c # s) =
    (if c = quo then ([], s)
     else if c = bsl then
       (case s of [] \<Rightarrow> ([], [])
        | e # r \<Rightarrow>
          (if e \<noteq> chr 117 then (let (a, b) = dec r in (chr (unescape (byte e)) # a, b))
           else (case r of
              h1 # h2 # h3 # h4 # r' \<Rightarrow> (let (a, b) = dec r' in
                ((if unhex h1 = 0 then [chr (unhex h3 * 16 + unhex h4)] else sep (unhex h4)) @ a, b))
            | _ \<Rightarrow> ([], []))))
     else (let (a, b) = dec s in (c # a, b)))"

lemma chr_eq_iff: "m < 256 \<Longrightarrow> n < 256 \<Longrightarrow> chr m = chr n \<longleftrightarrow> m = n"
  by (metis byte_chr)

lemma eq_chr_iff: "n < 256 \<Longrightarrow> c = chr n \<longleftrightarrow> byte c = n"
  by (metis byte_chr chr_byte)

lemma dec_ascii:
  assumes "byte c < 0x80"
  shows "dec (json_ascii c @ r) = (c # fst (dec r), snd (dec r))"
proof (cases "short_escape (byte c)")
  case (Some e)
  then have e: "e \<noteq> 117" "e < 256" "unescape e = byte c"
    by (auto simp: short_escape_def unescape_def split: if_splits)
  then show ?thesis using Some
    by (simp add: json_ascii_def bsl_def quo_def chr_eq_iff case_prod_unfold Let_def)
next
  case None
  then have "c \<noteq> quo" "c \<noteq> bsl" by (auto simp: short_escape_def quo_def bsl_def)
  then show ?thesis using None assms
    by (auto simp: json_ascii_def Let_def bsl_def quo_def chr_eq_iff case_prod_unfold)
qed

lemma dec_high:
  "\<forall>x \<in> set u. 0x80 \<le> byte x \<Longrightarrow> dec (u @ r) = (u @ fst (dec r), snd (dec r))"
  by (induction u) (auto simp: quo_def bsl_def eq_chr_iff case_prod_unfold Let_def)

lemma dec_sep:
  assumes "d < 16"
  shows "dec (bsl # chr 117 # hexdigit 2 # hexdigit 0 # hexdigit 2 # hexdigit d # r) = (sep d @ fst (dec r), snd (dec r))"
  using assms by (simp add: bsl_def quo_def chr_eq_iff case_prod_unfold Let_def)

lemma dec_json_chars:
  assumes "valid_utf8 s"
  shows "dec (json_chars s @ quo # rest) = (s, rest)"
  using assms
proof (induction s rule: json_chars.induct)
  case (2 c s)
  show ?case
  proof (cases "byte c < 0x80")
    case True
    then show ?thesis using 2 by (simp add: dec_ascii)
  next
    case False
    then obtain k where k: "rune_tail (c # s) = Some k" "valid_utf8 (drop k s)"
      using 2(4) by (auto split: option.splits)
    have IH: "dec (json_chars (drop k s) @ quo # rest) = (drop k s, rest)"
      using 2(3)[OF False k] .
    have high: "\<forall>x \<in> set (c # take k s). 0x80 \<le> byte x"
      using rune_tail_high[OF k(1)] by simp
    obtain e where e: "json_chars (c # s) = e @ json_chars (drop k s)"
      "\<And>r. dec (e @ r) = ((c # take k s) @ fst (dec r), snd (dec r))"
    proof (cases "c # take k s = sep 8 \<or> c # take k s = sep 9")
      case True
      then obtain d where d: "d = 8 \<or> d = 9" "c # take k s = sep d" by blast
      moreover have "sep 9 \<noteq> sep 8" by (simp add: sep_def chr_eq_iff)
      ultimately have "json_chars (c # s) = [bsl, chr 117, hexdigit 2, hexdigit 0, hexdigit 2, hexdigit d] @ json_chars (drop k s)"
        using False k(1) by auto
      moreover have "dec ([bsl, chr 117, hexdigit 2, hexdigit 0, hexdigit 2, hexdigit d] @ r)
          = ((c # take k s) @ fst (dec r), snd (dec r))" for r
        unfolding d(2) using dec_sep[of d r] d(1) by (auto simp del: dec.simps)
      ultimately show ?thesis by (rule that)
    next
      case other: False
      show ?thesis
        by (rule that[of "c # take k s"]) (use False k(1) other dec_high[OF high] in \<open>auto simp del: dec.simps\<close>)
    qed
    show ?thesis unfolding e(1) append_assoc e(2) IH by simp
  qed
qed simp

lemma json_string_split:
  assumes "valid_utf8 s" "valid_utf8 t" "json_string s @ u = json_string t @ v"
  shows "s = t \<and> u = v"
proof -
  have "json_chars s @ quo # u = json_chars t @ quo # v" using assms(3) by (simp add: json_string_def)
  then have "(s, u) = (t, v)" using dec_json_chars assms(1,2) by metis
  then show ?thesis by simp
qed

lemma quo_punct: "quo \<noteq> CHR '']''" "quo \<noteq> CHR '',''"
proof -
  have "byte quo = 34" by (simp add: quo_def)
  moreover have "byte CHR '']'' = 93" "byte CHR '','' = 44" by (simp_all add: byte_def)
  ultimately show "quo \<noteq> CHR '']''" "quo \<noteq> CHR '',''" by auto
qed

lemma json_strings_Cons:
  "json_strings (s # ss) = json_string s @ (if ss = [] then [] else '','' @ json_strings ss)"
  by (cases ss) auto

lemma json_strings_inj:
  assumes "\<forall>s \<in> set ss. valid_utf8 s" "\<forall>t \<in> set ts. valid_utf8 t"
    "json_strings ss @ '']'' @ u = json_strings ts @ '']'' @ v"
  shows "ss = ts \<and> u = v"
  using assms
proof (induction ss arbitrary: ts)
  case Nil
  then show ?case using quo_punct by (cases ts) (auto simp: json_strings_Cons json_string_def)
next
  case (Cons s ss)
  then obtain t ts' where ts: "ts = t # ts'"
    using quo_punct by (cases ts) (auto simp: json_strings_Cons json_string_def)
  have "json_string s @ ((if ss = [] then [] else '','' @ json_strings ss) @ '']'' @ u)
      = json_string t @ ((if ts' = [] then [] else '','' @ json_strings ts') @ '']'' @ v)"
    using Cons.prems(3) by (simp add: ts json_strings_Cons)
  moreover have "valid_utf8 s" "valid_utf8 t" using Cons.prems ts by auto
  ultimately have "s = t" and r: "(if ss = [] then [] else '','' @ json_strings ss) @ '']'' @ u
      = (if ts' = [] then [] else '','' @ json_strings ts') @ '']'' @ v"
    using json_string_split by blast+
  have "ss = ts' \<and> u = v"
  proof (cases "ss = [] \<or> ts' = []")
    case True
    then show ?thesis using r by (auto split: if_splits)
  next
    case False
    then have "json_strings ss @ '']'' @ u = json_strings ts' @ '']'' @ v" using r by simp
    then show ?thesis using Cons.IH[of ts'] Cons.prems ts by simp
  qed
  then show ?case using \<open>s = t\<close> ts by simp
qed

lemma json_list_inj:
  assumes "\<forall>s \<in> set ss. valid_utf8 s" "\<forall>t \<in> set ts. valid_utf8 t" "json_list ss @ u = json_list ts @ v"
  shows "ss = ts \<and> u = v"
  using json_strings_inj[OF assms(1,2), of u v] assms(3) by (simp add: json_list_def)

end
