(* ===== verification/Prom_Api.thy ===== *)
theory Prom_Api
  imports Go_Float Go_Json
begin

text \<open>
  The libraries the collectors call: \<^verbatim>\<open>prometheus\<close> metric vectors and registries and the
  \<^verbatim>\<open>groupcache/lru\<close> cache.  Their code is not part of the repository, so each is a record of
  operations, a parameter of every definition that calls them, together with the observations
  that its documentation speaks about; the documented behaviour is a predicate on that record.
  The last section gives a list-based instance of each and shows that it has that behaviour.
\<close>

section \<open>Metric vectors\<close>

datatype MetricKind = Undefined | KCounter | KGauge

text \<open>
  \<^verbatim>\<open>vec_add v ls x\<close> is \<^verbatim>\<open>vec.WithLabelValues(ls...).Add(x)\<close>, \<^verbatim>\<open>vec_set\<close> is the same with
  \<^verbatim>\<open>Set\<close>, \<^verbatim>\<open>vec_delete\<close> is \<^verbatim>\<open>DeleteLabelValues\<close>; \<^verbatim>\<open>vec_value\<close> is the value of a series that a
  scrape would report.
\<close>

record 'v vec_api =
  vec_new :: "MetricKind \<Rightarrow> string \<Rightarrow> string \<Rightarrow> string list \<Rightarrow> 'v"
  vec_add :: "'v \<Rightarrow> string list \<Rightarrow> float64 \<Rightarrow> 'v result"
  vec_set :: "'v \<Rightarrow> string list \<Rightarrow> float64 \<Rightarrow> 'v result"
  vec_delete :: "'v \<Rightarrow> string list \<Rightarrow> 'v"
  vec_value :: "'v \<Rightarrow> string list \<Rightarrow> float64 option"
  vec_name :: "'v \<Rightarrow> string"
  vec_help :: "'v \<Rightarrow> string"
  vec_labels :: "'v \<Rightarrow> string list"

abbreviation vec_arity :: "'v vec_api \<Rightarrow> 'v \<Rightarrow> nat" where
  "vec_arity A v \<equiv> length (vec_labels A v)"

definition utf8_values :: "string list \<Rightarrow> bool" where
  "utf8_values l = (\<forall>x \<in> set l. valid_utf8 x)"

definition same_desc :: "'v vec_api \<Rightarrow> 'v \<Rightarrow> 'v \<Rightarrow> bool" where
  "same_desc A v v' = (vec_name A v' = vec_name A v \<and> vec_help A v' = vec_help A v \<and> vec_labels A v' = vec_labels A v)"

text \<open>
  Documented: a new vector has no series; \<^verbatim>\<open>WithLabelValues\<close> panics unless there is one value
  per label, and every value is valid UTF-8; \<^verbatim>\<open>Add\<close> panics on a negative value and adds it otherwise (stated exactly for integer
  values up to \<open>2^53\<close>, where the sum does not round); \<^verbatim>\<open>Set\<close> sets the value;
  \<^verbatim>\<open>DeleteLabelValues\<close> removes the series.
\<close>

definition vec_laws :: "'v vec_api \<Rightarrow> bool" where
  "vec_laws A =
   ((\<forall>k n h ls. (\<forall>l. vec_value A (vec_new A k n h ls) l = None)
       \<and> vec_name A (vec_new A k n h ls) = n \<and> vec_help A (vec_new A k n h ls) = h \<and> vec_labels A (vec_new A k n h ls) = ls)
  \<and> (\<forall>v l x. length l \<noteq> vec_arity A v \<longrightarrow>
       vec_add A v l x = Inl (Panic LabelCardinality) \<and> vec_set A v l x = Inl (Panic LabelCardinality))
  \<and> (\<forall>v l x. length l = vec_arity A v \<longrightarrow> \<not> utf8_values l \<longrightarrow>
       vec_add A v l x = Inl (Panic LabelEncoding) \<and> vec_set A v l x = Inl (Panic LabelEncoding))
  \<and> (\<forall>v l x. length l = vec_arity A v \<longrightarrow> utf8_values l \<longrightarrow> flt x (Fin 0) \<longrightarrow> vec_add A v l x = Inl (Panic CounterDecrease))
  \<and> (\<forall>v l x. length l = vec_arity A v \<longrightarrow> utf8_values l \<longrightarrow> \<not> flt x (Fin 0) \<longrightarrow>
       (\<exists>v'. vec_add A v l x = Inr v' \<and> same_desc A v v' \<and> vec_value A v' l \<noteq> None
          \<and> (\<forall>l'. l' \<noteq> l \<longrightarrow> vec_value A v' l' = vec_value A v l')))
  \<and> (\<forall>v l a b v'. 0 \<le> a \<longrightarrow> 0 \<le> b \<longrightarrow> a + b \<le> 2 ^ 53 \<longrightarrow>
       (vec_value A v l = Some (Fin (of_int a)) \<or> vec_value A v l = None \<and> a = 0) \<longrightarrow>
       vec_add A v l (Fin (of_int b)) = Inr v' \<longrightarrow> vec_value A v' l = Some (Fin (of_int (a + b))))
  \<and> (\<forall>v l x. length l = vec_arity A v \<longrightarrow> utf8_values l \<longrightarrow>
       (\<exists>v'. vec_set A v l x = Inr v' \<and> same_desc A v v' \<and> vec_value A v' = (vec_value A v)(l \<mapsto> x)))
  \<and> (\<forall>v l. same_desc A v (vec_delete A v l) \<and> vec_value A (vec_delete A v l) = (vec_value A v)(l := None)))"

section \<open>Registries\<close>

text \<open>
  A registry exposes at most one vector per metric name (\<^verbatim>\<open>reg_lookup\<close>: its index), and
  remembers the help text and label names of every name it ever accepted (\<^verbatim>\<open>reg_desc\<close>).
  Documented: \<^verbatim>\<open>Register\<close> fails if the name is in use, or if the help text or the label names
  differ from those of an earlier vector with that name, also after that one was unregistered;
  \<^verbatim>\<open>Unregister\<close> removes the vector with the same name and reports whether there was one.
\<close>

record ('v, 'r) reg_api =
  reg_Register :: "nat \<Rightarrow> 'v \<Rightarrow> 'r \<Rightarrow> 'r result"
  reg_Unregister :: "'v \<Rightarrow> 'r \<Rightarrow> bool \<times> 'r"
  reg_lookup :: "'r \<Rightarrow> string \<Rightarrow> nat option"
  reg_desc :: "'r \<Rightarrow> string \<Rightarrow> (string \<times> string list) option"
  reg_valid :: "'v \<Rightarrow> bool"

definition reg_accepts :: "'v vec_api \<Rightarrow> ('v, 'r) reg_api \<Rightarrow> 'v \<Rightarrow> 'r \<Rightarrow> bool" where
  "reg_accepts A R v r = (reg_valid R v \<and> reg_lookup R r (vec_name A v) = None
     \<and> (case reg_desc R r (vec_name A v) of None \<Rightarrow> True
        | Some (h, ls) \<Rightarrow> h = vec_help A v \<and> set ls = set (vec_labels A v)))"

definition reg_laws :: "'v vec_api \<Rightarrow> ('v, 'r) reg_api \<Rightarrow> bool" where
  "reg_laws A R =
   ((\<forall>i v r. reg_accepts A R v r \<longrightarrow> (\<exists>r'. reg_Register R i v r = Inr r'
        \<and> reg_lookup R r' = (reg_lookup R r)(vec_name A v \<mapsto> i)
        \<and> reg_desc R r' = (reg_desc R r)(vec_name A v \<mapsto> (vec_help A v, vec_labels A v))))
  \<and> (\<forall>i v r. \<not> reg_accepts A R v r \<longrightarrow> (\<exists>e. reg_Register R i v r = Inl (Err e)))
  \<and> (\<forall>v r. fst (reg_Unregister R v r) = (reg_lookup R r (vec_name A v) \<noteq> None)
        \<and> reg_lookup R (snd (reg_Unregister R v r)) = (reg_lookup R r)(vec_name A v := None)
        \<and> reg_desc R (snd (reg_Unregister R v r)) = reg_desc R r))"

section \<open>The LRU cache\<close>

text \<open>
  \<^verbatim>\<open>lru_Add\<close> also returns the entries it evicts, which the caller hands to \<^verbatim>\<open>OnEvicted\<close>.
  Documented: \<^verbatim>\<open>MaxEntries\<close> is the maximum number of entries before an item is evicted, zero
  means no limit; the eviction takes the oldest entry, so never the one just added while there
  is another.
\<close>

record ('c, 'x) lru_api =
  lru_New :: "int \<Rightarrow> 'c"
  lru_Get :: "'c \<Rightarrow> string \<Rightarrow> 'x option \<times> 'c"
  lru_Add :: "'c \<Rightarrow> string \<Rightarrow> 'x \<Rightarrow> 'c \<times> (string \<times> 'x) list"
  lru_peek :: "'c \<Rightarrow> string \<Rightarrow> 'x option"
  lru_max :: "'c \<Rightarrow> int"

definition lru_laws :: "('c, 'x) lru_api \<Rightarrow> bool" where
  "lru_laws C =
   ((\<forall>n k. lru_peek C (lru_New C n) k = None \<and> lru_max C (lru_New C n) = n)
  \<and> (\<forall>c. finite (dom (lru_peek C c)))
  \<and> (\<forall>c k. fst (lru_Get C c k) = lru_peek C c k \<and> lru_peek C (snd (lru_Get C c k)) = lru_peek C c
        \<and> lru_max C (snd (lru_Get C c k)) = lru_max C c)
  \<and> (\<forall>c k x c' ev. lru_Add C c k x = (c', ev) \<longrightarrow>
        lru_max C c' = lru_max C c
        \<and> distinct (map fst ev)
        \<and> (\<forall>(k', x') \<in> set ev. ((lru_peek C c)(k \<mapsto> x)) k' = Some x')
        \<and> (\<forall>k'. lru_peek C c' k' = (if k' \<in> fst ` set ev then None else ((lru_peek C c)(k \<mapsto> x)) k'))
        \<and> (0 < lru_max C c \<longrightarrow> k \<notin> fst ` set ev)
        \<and> (0 < lru_max C c \<longrightarrow> int (card (dom (lru_peek C c))) \<le> lru_max C c \<longrightarrow>
             int (card (dom (lru_peek C c'))) \<le> lru_max C c)
        \<and> (lru_max C c = 0 \<or> int (card (dom ((lru_peek C c)(k \<mapsto> x)))) \<le> lru_max C c \<longrightarrow> ev = [])))"

section \<open>Instances\<close>

text \<open>A vector as its description and the association list of its series.\<close>

record list_vec =
  lv_name :: string
  lv_help :: string
  lv_labels :: "string list"
  lv_series :: "(string list, float64) gomap"

definition lv_write :: "(float64 \<Rightarrow> float64) \<Rightarrow> string list \<Rightarrow> list_vec \<Rightarrow> list_vec" where
  "lv_write f l v = v\<lparr>lv_series := AList.update l (f (case map_of (lv_series v) l of None \<Rightarrow> Fin 0 | Some x \<Rightarrow> x)) (lv_series v)\<rparr>"

definition list_vec_api :: "list_vec vec_api" where
  "list_vec_api = \<lparr>
     vec_new = (\<lambda>k n h ls. \<lparr>lv_name = n, lv_help = h, lv_labels = ls, lv_series = []\<rparr>),
     vec_add = (\<lambda>v l x. if length l \<noteq> length (lv_labels v) then Inl (Panic LabelCardinality)
        else if \<not> utf8_values l then Inl (Panic LabelEncoding)
        else if flt x (Fin 0) then Inl (Panic CounterDecrease) else Inr (lv_write (\<lambda>y. fadd y x) l v)),
     vec_set = (\<lambda>v l x. if length l \<noteq> length (lv_labels v) then Inl (Panic LabelCardinality)
        else if \<not> utf8_values l then Inl (Panic LabelEncoding) else Inr (lv_write (\<lambda>_. x) l v)),
     vec_delete = (\<lambda>v l. v\<lparr>lv_series := AList.delete l (lv_series v)\<rparr>),
     vec_value = (\<lambda>v l. map_of (lv_series v) l),
     vec_name = lv_name, vec_help = lv_help, vec_labels = lv_labels\<rparr>"

record list_reg =
  lr_live :: "(string, nat) gomap"
  lr_seen :: "(string, string \<times> string list) gomap"

definition lr_accepts :: "list_vec \<Rightarrow> list_reg \<Rightarrow> bool" where
  "lr_accepts v r = (distinct (lv_labels v) \<and> map_of (lr_live r) (lv_name v) = None
     \<and> (case map_of (lr_seen r) (lv_name v) of None \<Rightarrow> True
        | Some (h, ls) \<Rightarrow> h = lv_help v \<and> set ls = set (lv_labels v)))"

definition list_reg_api :: "(list_vec, list_reg) reg_api" where
  "list_reg_api = \<lparr>
     reg_Register = (\<lambda>i v r. if lr_accepts v r
        then Inr (r\<lparr>lr_live := AList.update (lv_name v) i (lr_live r),
                    lr_seen := AList.update (lv_name v) (lv_help v, lv_labels v) (lr_seen r)\<rparr>)
        else Inl (Err ''duplicate or inconsistent metrics collector'')),
     reg_Unregister = (\<lambda>v r. (map_of (lr_live r) (lv_name v) \<noteq> None, r\<lparr>lr_live := AList.delete (lv_name v) (lr_live r)\<rparr>)),
     reg_lookup = (\<lambda>r. map_of (lr_live r)), reg_desc = (\<lambda>r. map_of (lr_seen r)),
     reg_valid = (\<lambda>v. distinct (lv_labels v))\<rparr>"

text \<open>A cache as its limit and its entries, the most recently used first.\<close>

definition lc_peek :: "int \<times> (string, 'x) gomap \<Rightarrow> string \<Rightarrow> 'x option" where
  "lc_peek c k = map_of (snd c) k"

definition lc_add :: "int \<times> (string, 'x) gomap \<Rightarrow> string \<Rightarrow> 'x \<Rightarrow> (int \<times> (string, 'x) gomap) \<times> (string \<times> 'x) list" where
  "lc_add c k x = (let es = (k, x) # AList.delete k (AList.clearjunk (snd c)) in
     if fst c \<noteq> 0 \<and> fst c < int (length es) then ((fst c, butlast es), [last es]) else ((fst c, es), []))"

definition list_lru_api :: "(int \<times> (string, 'x) gomap, 'x) lru_api" where
  "list_lru_api = \<lparr>
     lru_New = (\<lambda>n. (n, [])),
     lru_Get = (\<lambda>c k. (lc_peek c k, case lc_peek c k of None \<Rightarrow> c
        | Some x \<Rightarrow> (fst c, (k, x) # AList.delete k (snd c)))),
     lru_Add = lc_add, lru_peek = lc_peek, lru_max = fst\<rparr>"

lemma list_vec_laws: "vec_laws list_vec_api"
  unfolding vec_laws_def
proof (intro conjI allI impI)
  fix v l and a b :: int and v'
  assume ab: "0 \<le> a" "0 \<le> b" "a + b \<le> 2 ^ 53"
    and val: "vec_value list_vec_api v l = Some (Fin (of_int a)) \<or> vec_value list_vec_api v l = None \<and> a = 0"
    and add: "vec_add list_vec_api v l (Fin (of_int b)) = Inr v'"
  have "fadd (Fin (of_int a)) (Fin (of_int b)) = Fin (of_int (a + b))"
    using ab by (intro fadd_int) auto
  moreover have "fadd (Fin 0) (Fin (of_int b)) = Fin (of_int b)" if "a = 0"
    using fadd_int[of 0 b] ab that by simp
  ultimately show "vec_value list_vec_api v' l = Some (Fin (of_int (a + b)))"
    using val add by (auto simp: list_vec_api_def lv_write_def split: if_splits)
qed (auto simp: list_vec_api_def lv_write_def same_desc_def split: option.splits)

lemma list_reg_laws: "reg_laws list_vec_api list_reg_api"
  by (auto simp: reg_laws_def reg_accepts_def list_reg_api_def list_vec_api_def lr_accepts_def split: option.splits)

lemma lc_entries_distinct: "wf_map ((k, x) # AList.delete k (AList.clearjunk m))"
proof -
  have "wf_map (AList.clearjunk m)" by (simp add: wf_map_def keys_def)
  then show ?thesis by (auto simp: map_of_clearjunk)
qed

lemma card_dom_map_of: "wf_map m \<Longrightarrow> card (dom (map_of m)) = length m"
  by (metis distinct_card keys_def length_map set_keys wf_map_def)

lemma map_of_butlast:
  assumes "wf_map es" "es \<noteq> []"
  shows "map_of (butlast es) k = (if k = fst (last es) then None else map_of es k)"
    and "wf_map (butlast es)" and "map_of es (fst (last es)) = Some (snd (last es))"
proof -
  let ?b = "butlast es" and ?l = "last es"
  have es: "es = ?b @ [?l]" using assms(2) by simp
  have d: "distinct (map fst (?b @ [?l]))" using assms by (simp add: wf_map_def keys_def)
  then show "wf_map ?b" by (simp add: wf_map_def keys_def)
  have nin: "map_of ?b (fst ?l) = None" using d by (simp add: map_of_eq_None_iff)
  have all: "map_of (?b @ [?l]) k = (case map_of ?b k of None \<Rightarrow> if k = fst ?l then Some (snd ?l) else None | Some y \<Rightarrow> Some y)" for k
    by (cases ?l) (auto simp: map_add_def split: option.splits)
  show "map_of ?b k = (if k = fst ?l then None else map_of es k)"
    using all[of k] nin es by (auto split: option.splits)
  show "map_of es (fst ?l) = Some (snd ?l)" using all[of "fst ?l"] nin es by simp
qed

lemma lc_add_law:
  assumes "lc_add c k x = (c', ev)"
  shows "fst c' = fst c" "distinct (map fst ev)"
    "\<forall>(k', x') \<in> set ev. ((lc_peek c)(k \<mapsto> x)) k' = Some x'"
    "\<forall>k'. lc_peek c' k' = (if k' \<in> fst ` set ev then None else ((lc_peek c)(k \<mapsto> x)) k')"
    "0 < fst c \<longrightarrow> k \<notin> fst ` set ev"
    "0 < fst c \<longrightarrow> int (card (dom (lc_peek c))) \<le> fst c \<longrightarrow> int (card (dom (lc_peek c'))) \<le> fst c"
    "fst c = 0 \<or> int (card (dom ((lc_peek c)(k \<mapsto> x)))) \<le> fst c \<longrightarrow> ev = []"
proof -
  define es where "es = (k, x) # AList.delete k (AList.clearjunk (snd c))"
  have wf: "wf_map es" unfolding es_def by (rule lc_entries_distinct)
  have pk: "map_of es = (lc_peek c)(k \<mapsto> x)"
    by (auto simp: es_def lc_peek_def fun_eq_iff map_of_clearjunk)
  have len: "card (dom ((lc_peek c)(k \<mapsto> x))) = length es" using card_dom_map_of[OF wf] pk by simp
  have fin: "finite (dom (lc_peek c))" by (simp add: lc_peek_def[abs_def] finite_dom_map_of)
  have le: "length es \<le> Suc (card (dom (lc_peek c)))"
    using len fin card_insert_le_m1[of _ "dom (lc_peek c)" k] by (simp add: card_insert_if)
  have ne: "es \<noteq> []" by (simp add: es_def)
  note bl = map_of_butlast[OF wf ne]
  have c': "(c', ev) = (if fst c \<noteq> 0 \<and> fst c < int (length es) then ((fst c, butlast es), [last es]) else ((fst c, es), []))"
    using assms by (simp add: lc_add_def es_def[symmetric])
  show "fst c' = fst c" "distinct (map fst ev)" using c' by (auto split: if_splits)
  show "\<forall>(k', x') \<in> set ev. ((lc_peek c)(k \<mapsto> x)) k' = Some x'"
    using c' bl(3) pk by (auto split: if_splits)
  show "\<forall>k'. lc_peek c' k' = (if k' \<in> fst ` set ev then None else ((lc_peek c)(k \<mapsto> x)) k')"
    using c' bl(1) pk by (auto simp: lc_peek_def split: if_splits)
  show "0 < fst c \<longrightarrow> k \<notin> fst ` set ev"
  proof
    assume pos: "0 < fst c"
    show "k \<notin> fst ` set ev"
    proof (cases "fst c < int (length es)")
      case True
      then obtain e es' where t: "es = (k, x) # e # es'" using pos by (cases "AList.delete k (AList.clearjunk (snd c))") (auto simp: es_def)
      then have "fst (last es) \<in> fst ` set (e # es')" by (metis image_eqI last.simps last_in_set list.distinct(1))
      moreover have "k \<notin> fst ` set (e # es')" using wf t by (auto simp: wf_map_def keys_def)
      ultimately show ?thesis using c' by (auto split: if_splits)
    qed (use c' in auto)
  qed
  show "0 < fst c \<longrightarrow> int (card (dom (lc_peek c))) \<le> fst c \<longrightarrow> int (card (dom (lc_peek c'))) \<le> fst c"
    using c' le card_dom_map_of[OF wf] card_dom_map_of[OF bl(2)] by (auto simp: lc_peek_def[abs_def] split: if_splits)
  show "fst c = 0 \<or> int (card (dom ((lc_peek c)(k \<mapsto> x)))) \<le> fst c \<longrightarrow> ev = []"
    using c' len by (auto split: if_splits)
qed

lemma list_lru_sel [simp]:
  "lru_New list_lru_api n = (n, [])" "lru_Add list_lru_api = lc_add"
  "lru_peek list_lru_api = lc_peek" "lru_max list_lru_api = fst"
  "lru_Get list_lru_api c k = (lc_peek c k, case lc_peek c k of None \<Rightarrow> c | Some x \<Rightarrow> (fst c, (k, x) # AList.delete k (snd c)))"
  by (simp_all add: list_lru_api_def)

lemma list_lru_laws: "lru_laws list_lru_api"
  unfolding lru_laws_def list_lru_sel(2-4)
proof (intro conjI)
  show "\<forall>c. finite (dom (lc_peek c))" by (simp add: lc_peek_def[abs_def] finite_dom_map_of)
  show "\<forall>c k x c' ev. lc_add c k x = (c', ev) \<longrightarrow>
        fst c' = fst c \<and> distinct (map fst ev)
        \<and> (\<forall>(k', x') \<in> set ev. ((lc_peek c)(k \<mapsto> x)) k' = Some x')
        \<and> (\<forall>k'. lc_peek c' k' = (if k' \<in> fst ` set ev then None else ((lc_peek c)(k \<mapsto> x)) k'))
        \<and> (0 < fst c \<longrightarrow> k \<notin> fst ` set ev)
        \<and> (0 < fst c \<longrightarrow> int (card (dom (lc_peek c))) \<le> fst c \<longrightarrow> int (card (dom (lc_peek c'))) \<le> fst c)
        \<and> (fst c = 0 \<or> int (card (dom ((lc_peek c)(k \<mapsto> x)))) \<le> fst c \<longrightarrow> ev = [])"
    by (intro allI impI; intro conjI; erule lc_add_law)
qed (auto simp: lc_peek_def fun_eq_iff split: option.splits)

end
