(* ===== verification/Server_Model.thy ===== *)
theory Server_Model
  imports Store_Model Prom_Api
begin

text \<open>
  What the collector server and the scanner server have in common: the configuration of
  \<^verbatim>\<open>internal/server/config.go\<close>, the counters of \<^verbatim>\<open>internal/server/server.go\<close>, the part of the store
  they read, the scheduler they are given, and the contract of a refresh, the synchronisation of
  a table of running workers with the stored configuration.
\<close>

section \<open>Configuration and counters\<close>

record Config =
  cfg_AllowUnsafeInternals :: bool
  cfg_BindAddr :: string
  cfg_BindCert :: string
  cfg_BindKey :: string
  cfg_CaCert :: string
  cfg_Endpoint :: string
  cfg_Inotify :: bool
  cfg_Insecure :: bool
  cfg_ProcMetrics :: bool
  cfg_Prometheus :: string
  cfg_Refresh :: int
  cfg_RewriteHistograms :: bool
  cfg_URL :: string
  cfg_VisusMetrics :: bool

text \<open>An example: a server without TLS that refreshes every minute.\<close>

definition ex_config :: Config where
  "ex_config = \<lparr>cfg_AllowUnsafeInternals = False, cfg_BindAddr = '':8888'', cfg_BindCert = [], cfg_BindKey = [], cfg_CaCert = [],
     cfg_Endpoint = ''/_status/custom'', cfg_Inotify = False, cfg_Insecure = True, cfg_ProcMetrics = False, cfg_Prometheus = [],
     cfg_Refresh = 60000000000, cfg_RewriteHistograms = False, cfg_URL = [], cfg_VisusMetrics = False\<rparr>"

text \<open>
  The vectors the program has of its own, all of them with one label: they are kept as one number
  for each value of the label.
\<close>

type_synonym tally = "(string, nat) gomap"

definition tally_of :: "tally \<Rightarrow> string \<Rightarrow> nat" where
  "tally_of t l = (case map_of t l of None \<Rightarrow> 0 | Some n \<Rightarrow> n)"

definition inc :: "string \<Rightarrow> tally \<Rightarrow> tally" where
  "inc l t = AList.update l (Suc (tally_of t l)) t"

lemma tally_of_inc [simp]: "tally_of (inc l t) l' = (if l' = l then Suc (tally_of t l) else tally_of t l')"
  by (simp add: tally_of_def inc_def)

lemma tally_of_Nil [simp]: "tally_of [] l = 0"
  by (simp add: tally_of_def)

record refresh_metrics =
  RefreshCounts :: tally
  RefreshErrors :: tally

text \<open>The collectors the servers register for themselves.\<close>

datatype own_collector = OwnRefreshCounts | OwnRefreshErrors | OwnCollectorCounts | OwnCollectorErrors
  | OwnCollectorLatency | OwnCollectorLastSuccess | OwnScannerErrors | GoCollector | ProcessCollector

type_synonym 'r register = "own_collector \<Rightarrow> 'r \<Rightarrow> 'r result"

fun register_each :: "'r register \<Rightarrow> own_collector list \<Rightarrow> ('r, unit) op" where
  "register_each reg [] r = (Inr (), r)"
| "register_each reg (x # xs) r = (case reg x r of Inl e \<Rightarrow> (Inl e, r) | Inr r' \<Rightarrow> register_each reg xs r')"

definition RegisterMetrics :: "'r register \<Rightarrow> ('r, unit) op" where
  "RegisterMetrics reg = register_each reg [OwnRefreshCounts, OwnRefreshErrors]"

section \<open>Loops over names\<close>

fun for_each :: "('a \<Rightarrow> ('s, unit) op) \<Rightarrow> 'a list \<Rightarrow> ('s, unit) op" where
  "for_each f [] s = (Inr (), s)"
| "for_each f (x # xs) s = op_bind (f x) (\<lambda>_. for_each f xs) s"

lemma for_each_inv:
  assumes "P s" "\<And>x s r s'. x \<in> set xs \<Longrightarrow> P s \<Longrightarrow> f x s = (r, s') \<Longrightarrow> P s'" "for_each f xs s = (r, s')"
  shows "P s'"
  using assms
proof (induction xs arbitrary: s)
  case (Cons x xs)
  obtain a s1 where f: "f x s = (a, s1)" by fastforce
  have "P s1" using Cons.prems(1,2) f by (metis list.set_intros(1))
  moreover have "(\<exists>e. a = Inl e \<and> s' = s1) \<or> for_each f xs s1 = (r, s')"
    using Cons.prems(3) f by (cases a) (auto simp: op_bind_def)
  ultimately show ?case using Cons.IH[of s1] Cons.prems(2) by (metis list.set_intros(2))
qed simp

section \<open>The store as the servers read it\<close>

record ('st, 'a) conf_store =
  cs_names :: "('st, string list) op"
  cs_get :: "string \<Rightarrow> ('st, 'a option) op"

text \<open>The store answers, and its content is \<open>f\<close>.\<close>

definition serves :: "('st, 'a) conf_store \<Rightarrow> 'st \<Rightarrow> (string \<Rightarrow> 'a option) \<Rightarrow> bool" where
  "serves CS st f = ((\<exists>ns. cs_names CS st = (Inr ns, st) \<and> set ns = dom f) \<and> (\<forall>n. cs_get CS n st = (Inr (f n), st)))"

section \<open>The scheduler\<close>

text \<open>
  \<^verbatim>\<open>gocron\<close>: \<^verbatim>\<open>Every(interval).Do(task)\<close> adds a job, or fails for an interval that is not positive;
  \<^verbatim>\<open>RemoveByReference\<close> removes it.  A job has an identity that no later job has.
\<close>

datatype interval = Seconds int | Duration int
datatype task = RefreshTask string | CollectTask nat | HeartbeatTask

definition positive :: "interval \<Rightarrow> bool" where
  "positive i = (case i of Seconds n \<Rightarrow> 0 < n | Duration n \<Rightarrow> 0 < n)"

record 'q sched_api =
  sch_Do :: "interval \<Rightarrow> task \<Rightarrow> 'q \<Rightarrow> (go_error + nat) \<times> 'q"
  sch_Remove :: "nat \<Rightarrow> 'q \<Rightarrow> 'q"
  sch_live :: "'q \<Rightarrow> nat \<Rightarrow> task option"
  sch_used :: "'q \<Rightarrow> nat set"

definition sched_laws :: "'q sched_api \<Rightarrow> bool" where
  "sched_laws S =
   ((\<forall>q. dom (sch_live S q) \<subseteq> sch_used S q)
  \<and> (\<forall>i t q. positive i \<longrightarrow> (\<exists>j q'. sch_Do S i t q = (Inr j, q') \<and> j \<notin> sch_used S q
        \<and> sch_used S q' = insert j (sch_used S q) \<and> sch_live S q' = (sch_live S q)(j \<mapsto> t)))
  \<and> (\<forall>i t q. \<not> positive i \<longrightarrow> (\<exists>e q'. sch_Do S i t q = (Inl e, q')
        \<and> sch_used S q' = sch_used S q \<and> sch_live S q' = sch_live S q))
  \<and> (\<forall>j q. sch_live S (sch_Remove S j q) = (sch_live S q)(j := None) \<and> sch_used S (sch_Remove S j q) = sch_used S q))"

definition list_sched_api :: "(nat \<times> (nat, task) gomap) sched_api" where
  "list_sched_api = \<lparr>
     sch_Do = \<lambda>i t (n, jobs). if positive i then (Inr n, (Suc n, (n, t) # jobs))
                             else (Inl ''interval must be greater than 0'', (n, jobs)),
     sch_Remove = \<lambda>j (n, jobs). (n, AList.delete j jobs),
     sch_live = \<lambda>(n, jobs) j. if j < n then map_of jobs j else None,
     sch_used = \<lambda>(n, jobs). {..<n}\<rparr>"

lemma list_sched_laws: "sched_laws list_sched_api"
  unfolding sched_laws_def list_sched_api_def
  by (auto simp: fun_eq_iff split: if_splits)

lemma sch_Do_Inr:
  assumes "sched_laws S" "sch_Do S i t q = (Inr j, q')"
  shows "positive i" "j \<notin> sch_used S q" "sch_used S q' = insert j (sch_used S q)" "sch_live S q' = (sch_live S q)(j \<mapsto> t)"
proof -
  show p: "positive i" using assms unfolding sched_laws_def by (metis Inl_Inr_False prod.inject)
  show "j \<notin> sch_used S q" "sch_used S q' = insert j (sch_used S q)" "sch_live S q' = (sch_live S q)(j \<mapsto> t)"
    using assms p unfolding sched_laws_def by (metis prod.inject sum.inject(2))+
qed

lemma sch_Do_Inl:
  assumes "sched_laws S" "sch_Do S i t q = (Inl e, q')"
  shows "\<not> positive i" "sch_used S q' = sch_used S q" "sch_live S q' = sch_live S q"
proof -
  show p: "\<not> positive i" using assms unfolding sched_laws_def by (metis Inl_Inr_False prod.inject)
  show "sch_used S q' = sch_used S q" "sch_live S q' = sch_live S q"
    using assms p unfolding sched_laws_def by (metis prod.inject)+
qed

lemma sch_Remove_laws:
  assumes "sched_laws S"
  shows "sch_live S (sch_Remove S j q) = (sch_live S q)(j := None)" "sch_used S (sch_Remove S j q) = sch_used S q"
  using assms by (simp_all add: sched_laws_def)

lemma sch_live_used: "sched_laws S \<Longrightarrow> sch_live S q j = Some t \<Longrightarrow> j \<in> sch_used S q"
  unfolding sched_laws_def by blast

section \<open>The contract of a refresh\<close>

text \<open>
  A server holds a table of workers by name.  Its loop visits the stored names; for a name it
  wants it marks the worker to be kept, and makes sure one runs with the stored configuration;
  then it removes every worker that is not marked.  Both servers implement this interface, and
  the synchronisation is proved for it once.
\<close>

locale config_sync =
  fixes visit :: "string \<Rightarrow> ('s, unit) op"
    and cleanup :: "('s, unit) op"
    and inv :: "'s \<Rightarrow> bool"
    and names :: "'s \<Rightarrow> string set"
    and wanted :: "'s \<Rightarrow> string \<Rightarrow> bool"
    and kept :: "'s \<Rightarrow> string set"
    and present :: "'s \<Rightarrow> string \<Rightarrow> bool"
    and running :: "'s \<Rightarrow> string \<Rightarrow> bool"
  assumes one: "inv s \<Longrightarrow> n \<in> names s \<Longrightarrow> \<exists>s'. visit n s = (Inr (), s') \<and> inv s' \<and> names s' = names s \<and> wanted s' = wanted s
      \<and> kept s' = (if wanted s n then insert n (kept s) else kept s)
      \<and> (\<forall>m. m \<noteq> n \<longrightarrow> running s m \<longrightarrow> running s' m) \<and> (wanted s n \<longrightarrow> running s' n)"
    and clean: "inv s \<Longrightarrow> \<exists>s'. cleanup s = (Inr (), s') \<and> inv s' \<and> wanted s' = wanted s
      \<and> (\<forall>m \<in> kept s. running s m \<longrightarrow> running s' m) \<and> (\<forall>m. present s' m \<longrightarrow> m \<in> kept s)"
begin

lemma loop:
  "inv s \<Longrightarrow> set ns \<subseteq> names s \<Longrightarrow> \<exists>s'. for_each visit ns s = (Inr (), s') \<and> inv s' \<and> names s' = names s \<and> wanted s' = wanted s
     \<and> kept s' = kept s \<union> {n \<in> set ns. wanted s n}
     \<and> (\<forall>n. wanted s n \<longrightarrow> n \<in> set ns \<or> running s n \<longrightarrow> running s' n)"
proof (induction ns arbitrary: s)
  case (Cons n ns)
  obtain s1 where s1: "visit n s = (Inr (), s1)" "inv s1" "names s1 = names s" "wanted s1 = wanted s"
      "kept s1 = (if wanted s n then insert n (kept s) else kept s)"
      "\<forall>m. m \<noteq> n \<longrightarrow> running s m \<longrightarrow> running s1 m" "wanted s n \<longrightarrow> running s1 n"
    using one[OF Cons.prems(1), of n] Cons.prems(2) by auto
  have sub: "set ns \<subseteq> names s1" using Cons.prems(2) s1(3) by simp
  obtain s2 where s2: "for_each visit ns s1 = (Inr (), s2)" "inv s2" "names s2 = names s1" "wanted s2 = wanted s1"
      "kept s2 = kept s1 \<union> {m \<in> set ns. wanted s1 m}"
      "\<forall>m. wanted s1 m \<longrightarrow> m \<in> set ns \<or> running s1 m \<longrightarrow> running s2 m"
    using Cons.IH[OF s1(2) sub] by blast
  have "running s2 m" if m: "wanted s m" "m \<in> set (n # ns) \<or> running s m" for m
    using s2(6) s1(4,6,7) m by (cases "m = n") auto
  moreover have "for_each visit (n # ns) s = (Inr (), s2)" using s1(1) s2(1) by (simp add: op_bind_def)
  ultimately show ?case using s2(2,3,4,5) s1(3,4,5) by (intro exI[of _ s2]) auto
qed simp

text \<open>After a refresh a worker runs for every wanted name, and there is none for any other name.\<close>

lemma sync:
  assumes "inv s" "kept s = {}" "set ns \<subseteq> names s" "\<And>n. wanted s n \<Longrightarrow> n \<in> set ns"
  shows "\<exists>s1 s2. for_each visit ns s = (Inr (), s1) \<and> cleanup s1 = (Inr (), s2) \<and> inv s2 \<and> kept s1 = {n. wanted s n}
    \<and> (\<forall>n. wanted s n \<longrightarrow> running s2 n) \<and> (\<forall>n. present s2 n \<longrightarrow> wanted s n)"
proof -
  obtain s1 where s1: "for_each visit ns s = (Inr (), s1)" "inv s1" "wanted s1 = wanted s"
      "kept s1 = kept s \<union> {n \<in> set ns. wanted s n}" "\<forall>n. wanted s n \<longrightarrow> n \<in> set ns \<or> running s n \<longrightarrow> running s1 n"
    using loop[OF assms(1,3)] by blast
  obtain s2 where s2: "cleanup s1 = (Inr (), s2)" "inv s2" "\<forall>m \<in> kept s1. running s1 m \<longrightarrow> running s2 m"
      "\<forall>m. present s2 m \<longrightarrow> m \<in> kept s1"
    using clean[OF s1(2)] by blast
  have k: "kept s1 = {n. wanted s n}" using s1(4) assms(2,4) by auto
  then show ?thesis using s1 s2 assms(4) by blast
qed

end

end
