(* ===== verification/Http_Server.thy ===== *)
theory Http_Server
  imports Metric_Writer Server_Model
begin

text \<open>
  \<^verbatim>\<open>internal/http\<close>: the certificates (\<^verbatim>\<open>certs.go\<close>) and the server that exposes the metrics
  (\<^verbatim>\<open>server.go\<close>).  The file system, the X.509 code, the network listener and the Prometheus registry
  are arguments.
\<close>

section \<open>Certificates\<close>

record clientTLSConfig =
  ct_caPath :: string
  ct_tlsConfig :: "tls_Config option"

definition ct_load :: "(string \<Rightarrow> go_error + string) \<Rightarrow> (clientTLSConfig, unit) op" where
  "ct_load readFile c =
    (if ct_caPath c = [] then (Inr (), c)
     else (case readFile (ct_caPath c) of
        Inl e \<Rightarrow> (Inl (Err e), c)
      | Inr pem \<Rightarrow> (Inr (), c\<lparr>ct_tlsConfig := Some \<lparr>tls_RootCAs = Some pem, tls_hasCertificate = False\<rparr>\<rparr>)))"

definition ct_get :: "clientTLSConfig \<Rightarrow> tls_Config option" where
  "ct_get c = ct_tlsConfig c"

record 'cert keyPair =
  kp_certPath :: string
  kp_keyPath :: string
  kp_cert :: "'cert option"

definition kp_load :: "(string \<Rightarrow> string \<Rightarrow> go_error + 'cert) \<Rightarrow> ('cert keyPair, unit) op" where
  "kp_load loadX509 k =
    (if kp_certPath k = [] \<and> kp_keyPath k = [] then (Inr (), k)
     else (case loadX509 (kp_certPath k) (kp_keyPath k) of
        Inl e \<Rightarrow> (Inl (Err e), k)
      | Inr cert \<Rightarrow> (Inr (), k\<lparr>kp_cert := Some cert\<rparr>)))"

definition getCertificateFunc :: "'cert keyPair \<Rightarrow> 'cert option result" where
  "getCertificateFunc k = Inr (kp_cert k)"

section \<open>The server\<close>

record 'cert httpServer =
  h_clientTLSConfig :: clientTLSConfig
  h_config :: Config
  h_addr :: string
  h_tlsConfig :: tls_Config
  h_keyPair :: "'cert keyPair"
  h_metricsWriter :: "Writer option"
  h_refresh :: refresh_metrics

record 'cert host =
  host_readFile :: "string \<Rightarrow> go_error + string"
  host_loadX509 :: "string \<Rightarrow> string \<Rightarrow> go_error + 'cert"
  host_parseURL :: url_Parse

definition http_New :: "'cert host \<Rightarrow> Config \<Rightarrow> 'cert httpServer result" where
  "http_New H cfg =
    (let kp0 = \<lparr>kp_certPath = [], kp_keyPath = [], kp_cert = None\<rparr>;
         secure = (cfg_BindCert cfg \<noteq> [] \<and> cfg_BindKey cfg \<noteq> []);
         kp = (if secure then snd (kp_load (host_loadX509 H) (kp0\<lparr>kp_certPath := cfg_BindCert cfg, kp_keyPath := cfg_BindKey cfg\<rparr>)) else kp0);
         tls = \<lparr>tls_RootCAs = None, tls_hasCertificate = secure\<rparr>;
         ct0 = \<lparr>ct_caPath = [], ct_tlsConfig = None\<rparr>
     in bind_result
          (if cfg_CaCert cfg = [] then Inr ct0
           else (case host_parseURL H (cfg_Prometheus cfg) of
              Inl e \<Rightarrow> Inl (Err e)
            | Inr u \<Rightarrow> if url_Scheme u = ''https''
                then (case ct_load (host_readFile H) (ct0\<lparr>ct_caPath := cfg_CaCert cfg\<rparr>) of (Inl e, _) \<Rightarrow> Inl e | (Inr _, c) \<Rightarrow> Inr c)
                else Inr ct0))
          (\<lambda>ct. bind_result
            (if cfg_Prometheus cfg = [] then Inr None
             else (case NewWriter (host_parseURL H) (cfg_Prometheus cfg) tls None of Inl e \<Rightarrow> Inl e | Inr w \<Rightarrow> Inr (Some w)))
            (\<lambda>w. Inr \<lparr>h_clientTLSConfig = ct, h_config = cfg, h_addr = cfg_BindAddr cfg, h_tlsConfig = tls, h_keyPair = kp,
                    h_metricsWriter = w, h_refresh = \<lparr>RefreshCounts = [], RefreshErrors = []\<rparr>\<rparr>)))"

text \<open>The histogram definitions as the store answers.\<close>

record hist_answers =
  ans_names :: "go_error + string list"
  ans_get :: "string \<Rightarrow> go_error + Histogram option"

definition http_refresh :: "'cert host \<Rightarrow> regexp_compile \<Rightarrow> hist_answers \<Rightarrow> ('cert httpServer, unit) op" where
  "http_refresh H compile A s =
    (case kp_load (host_loadX509 H) (h_keyPair s) of
       (Inl e, k) \<Rightarrow> (Inl e, s\<lparr>h_keyPair := k\<rparr>)
     | (Inr _, k) \<Rightarrow>
        (let s1 = s\<lparr>h_keyPair := k\<rparr> in
         (case ct_load (host_readFile H) (h_clientTLSConfig s1) of
            (Inl e, c) \<Rightarrow> (Inl e, s1\<lparr>h_clientTLSConfig := c\<rparr>)
          | (Inr _, c) \<Rightarrow>
             (let s2 = s1\<lparr>h_clientTLSConfig := c\<rparr> in
              (case h_metricsWriter s2 of
                 None \<Rightarrow> (Inr (), s2)
               | Some w \<Rightarrow>
                  if \<not> cfg_RewriteHistograms (h_config s2) then (Inr (), s2\<lparr>h_metricsWriter := Some (SetTranslators None w)\<rparr>)
                  else (case tr_Load compile (ans_names A) (ans_get A) of
                     Inl e \<Rightarrow> (Inl e, s2)
                   | Inr ts \<Rightarrow> (Inr (), s2\<lparr>h_metricsWriter := Some (SetTranslators ts w)\<rparr>)))))))"

definition http_Refresh :: "'cert host \<Rightarrow> regexp_compile \<Rightarrow> hist_answers \<Rightarrow> ('cert httpServer, unit) op" where
  "http_Refresh H compile A s =
    (case http_refresh H compile A s of
       (Inl (Panic p), s') \<Rightarrow> (Inl (Panic p), s')
     | (Inl (Err e), s') \<Rightarrow> (Inl (Err e), s'\<lparr>h_refresh := (h_refresh s')\<lparr>RefreshErrors := inc ''http_server'' (RefreshErrors (h_refresh s'))\<rparr>\<rparr>)
     | (Inr _, s') \<Rightarrow> (Inr (), s'\<lparr>h_refresh := (h_refresh s')\<lparr>RefreshCounts := inc ''http_server'' (RefreshCounts (h_refresh s'))\<rparr>\<rparr>))"

section \<open>Start\<close>

text \<open>The gauges that describe the binary: the build information, when there is one, and the start time.\<close>

record gauge_opts =
  go_Name :: string
  go_Help :: string
  go_ConstLabels :: "(string, string) gomap"
  go_Value :: int

record build_info =
  bi_GoVersion :: string
  bi_Path :: string
  bi_Settings :: "(string \<times> string) list"

definition info_labels :: "string \<Rightarrow> build_info \<Rightarrow> (string, string) gomap" where
  "info_labels version bi = AList.update ''version'' version
     (fold (\<lambda>(k, v) m. if k = ''vcs.revision'' then AList.update ''commit'' v m
                       else if k = ''vcs.time'' then AList.update ''build_time'' v m else m)
        (bi_Settings bi) [(''go_version'', bi_GoVersion bi), (''module'', bi_Path bi)])"

definition debugInfo :: "(gauge_opts \<Rightarrow> 'r \<Rightarrow> 'r result) \<Rightarrow> string \<Rightarrow> build_info option \<Rightarrow> time \<Rightarrow> 'r \<Rightarrow> 'r" where
  "debugInfo register version info now r =
    (let try = (\<lambda>g r. case register g r of Inl _ \<Rightarrow> r | Inr r' \<Rightarrow> r');
         r1 = (case info of None \<Rightarrow> r
           | Some bi \<Rightarrow> try \<lparr>go_Name = ''visus_info'', go_Help = ''information about the visus binary'',
               go_ConstLabels = info_labels version bi, go_Value = 1\<rparr> r)
     in try \<lparr>go_Name = ''visus_start_seconds'', go_Help = ''the wall time at which visus was started'', go_ConstLabels = [], go_Value = now\<rparr> r1)"

datatype listener = Listen string | ListenTLS string

text \<open>
  \<^verbatim>\<open>Start\<close>: the refresh is scheduled, the handler is installed for the endpoint, the gauges are
  registered, and the listener is started in a routine of its own.
\<close>

definition http_Start :: "'q sched_api \<Rightarrow> (gauge_opts \<Rightarrow> 'r \<Rightarrow> 'r result) \<Rightarrow> string \<Rightarrow> build_info option \<Rightarrow> time \<Rightarrow> 'cert httpServer
    \<Rightarrow> 'q \<times> 'r \<Rightarrow> (string \<times> listener) result \<times> ('q \<times> 'r)" where
  "http_Start S register version info now s = (\<lambda>(q, r).
    (case sch_Do S (Duration (cfg_Refresh (h_config s))) (RefreshTask ''http_server'') q of
       (Inl e, q') \<Rightarrow> (Inl (Err e), (q', r))
     | (Inr j, q') \<Rightarrow>
        (Inr (cfg_Endpoint (h_config s), if \<not> cfg_Insecure (h_config s) then ListenTLS (h_addr s) else Listen (h_addr s)),
         (q', debugInfo register version info now r))))"

section \<open>The handler\<close>

text \<open>
  A response: the status is fixed by the first write, an explicit \<^verbatim>\<open>WriteHeader\<close> after it has no
  effect, and a handler that writes nothing has answered with status 200.
\<close>

datatype 'x chunk = Family "'x MetricFamily" | Text string

record 'x response =
  rsp_status :: "int option"
  rsp_body :: "'x chunk list"

definition WriteHeader :: "int \<Rightarrow> 'x response \<Rightarrow> 'x response" where
  "WriteHeader code r = (if rsp_status r = None then r\<lparr>rsp_status := Some code\<rparr> else r)"

definition Write :: "'x chunk \<Rightarrow> 'x response \<Rightarrow> 'x response" where
  "Write c r = (let r' = WriteHeader 200 r in r'\<lparr>rsp_body := rsp_body r' @ [c]\<rparr>)"

definition status :: "'x response \<Rightarrow> int" where
  "status r = (case rsp_status r of None \<Rightarrow> 200 | Some c \<Rightarrow> c)"

definition errorResponse :: "go_error \<Rightarrow> 'x response \<Rightarrow> 'x response" where
  "errorResponse err r = Write (Text err) (WriteHeader 500 r)"

text \<open>The encoder of the response: it fails when the client is gone.\<close>

definition toClient :: "('x MetricFamily \<Rightarrow> 'x response \<Rightarrow> go_error option) \<Rightarrow> 'x MetricFamily \<Rightarrow> 'x response \<Rightarrow> go_error + 'x response" where
  "toClient gone m r = (case gone m r of Some e \<Rightarrow> Inl e | None \<Rightarrow> Inr (Write (Family m) r))"

fun write_metrics :: "('x MetricFamily \<Rightarrow> 'x response \<Rightarrow> go_error option) \<Rightarrow> 'x MetricFamily list \<Rightarrow> 'x response \<Rightarrow> 'x response" where
  "write_metrics gone [] r = r"
| "write_metrics gone (m # ms) r = (case toClient gone m r of Inl e \<Rightarrow> r | Inr r' \<Rightarrow> write_metrics gone ms r')"

text \<open>
  The handler: \<open>None\<close> when the copy does not end; a panic is passed on.  After an error of the copy
  the handler returns with what has been written so far.
\<close>

definition metricsHandler :: "go_platform \<Rightarrow> network \<Rightarrow> (string \<Rightarrow> go_error + 'x MetricFamily list)
    \<Rightarrow> ('x MetricFamily \<Rightarrow> 'x response \<Rightarrow> go_error option) \<Rightarrow> (go_error + 'x MetricFamily list)
    \<Rightarrow> 'cert httpServer \<Rightarrow> 'x response \<Rightarrow> 'x response result option" where
  "metricsHandler P N parse gone gathered s r =
    (case (case h_metricsWriter s of None \<Rightarrow> Some (Inr (), r) | Some w \<Rightarrow> Copy P N parse (toClient gone) w r) of
       None \<Rightarrow> None
     | Some (Inl (Panic p), _) \<Rightarrow> Some (Inl (Panic p))
     | Some (Inl (Err e), r1) \<Rightarrow> Some (Inr r1)
     | Some (Inr _, r1) \<Rightarrow>
         (case gathered of
            Inl e \<Rightarrow> Some (Inr (errorResponse e r1))
          | Inr ms \<Rightarrow> Some (Inr (write_metrics gone ms r1))))"

section \<open>Properties\<close>

lemma WriteHeader_simps [simp]:
  "rsp_body (WriteHeader c r) = rsp_body r" "rsp_status (WriteHeader c r) = Some (case rsp_status r of None \<Rightarrow> c | Some x \<Rightarrow> x)"
  by (auto simp: WriteHeader_def split: option.splits)

lemma Write_simps [simp]:
  "rsp_body (Write c r) = rsp_body r @ [c]" "rsp_status (Write c r) = Some (case rsp_status r of None \<Rightarrow> 200 | Some x \<Rightarrow> x)"
  by (simp_all add: Write_def Let_def)

lemma status_Write [simp]: "status (Write c r) = status r"
  by (simp add: status_def split: option.splits)

lemma fold_Write: "rsp_body (fold (\<lambda>m. Write (Family m)) ms r) = rsp_body r @ map Family ms \<and> status (fold (\<lambda>m. Write (Family m)) ms r) = status r"
  by (induction ms arbitrary: r) simp_all

lemma write_metrics_all: "write_metrics (\<lambda>m r. None) ms r = fold (\<lambda>m. Write (Family m)) ms r"
  by (induction ms arbitrary: r) (simp_all add: toClient_def)

lemma copy_to_client:
  assumes "open_source N (wr_open w) = Inr body" "parse body = Inr mfs"
    and "list_all2 (\<lambda>mf l. written P (wr_translators w) mf = Some (Inr l)) mfs ls"
  shows "Copy P N parse (toClient (\<lambda>m r. None)) w r = Some (Inr (), fold (\<lambda>m. Write (Family m)) (concat ls) r)"
proof -
  have "toClient (\<lambda>m r. None) = (\<lambda>m (out :: 'a response). Inr (Write (Family m) out))" by (simp add: fun_eq_iff toClient_def)
  then show ?thesis using assms by (simp add: Copy_def GetTranslators_def copy_families_written)
qed

text \<open>
  C31: the answer to a scrape, if the source and the registry can be read and the client stays: status
  200 and, in this order, what \<^verbatim>\<open>Copy\<close> writes for the families of the source, and the families of the
  registry of the process.
\<close>

theorem handler_serves:
  assumes "h_metricsWriter s = Some w" "open_source N (wr_open w) = Inr body" "parse body = Inr mfs"
    and "list_all2 (\<lambda>mf l. written P (wr_translators w) mf = Some (Inr l)) mfs ls"
  shows "\<exists>r. metricsHandler P N parse (\<lambda>m r. None) (Inr ms) s \<lparr>rsp_status = None, rsp_body = []\<rparr> = Some (Inr r)
    \<and> status r = 200 \<and> rsp_body r = map Family (concat ls @ ms)"
  using copy_to_client[where parse = parse, OF assms(2-4)] fold_Write[of "concat ls"] fold_Write[of ms] assms(1)
  by (simp add: metricsHandler_def write_metrics_all status_def)

text \<open>A host with one file that holds the metrics of the node.\<close>

definition ex_host :: "string host" where
  "ex_host = \<lparr>host_readFile = \<lambda>p. Inr p, host_loadX509 = \<lambda>c k. Inr c, host_parseURL = \<lambda>u. Inr \<lparr>url_Scheme = takeWhile (\<lambda>c. c \<noteq> CHR '':'') u, url_Path = u\<rparr>\<rparr>"

definition ex_http :: "string \<Rightarrow> string httpServer" where
  "ex_http u = projr (http_New ex_host (ex_config\<lparr>cfg_Prometheus := u, cfg_CaCert := ''ca''\<rparr>))"

lemma ex_http_New: "http_New ex_host (ex_config\<lparr>cfg_Prometheus := ''file:f'', cfg_CaCert := ''ca''\<rparr>) = Inr (ex_http ''file:f'')"
  "http_New ex_host (ex_config\<lparr>cfg_Prometheus := ''https:f'', cfg_CaCert := ''ca''\<rparr>) = Inr (ex_http ''https:f'')"
  by (simp_all add: ex_http_def http_New_def ex_host_def ex_config_def Let_def NewWriter_def newWriter_def ct_load_def)

lemma ex_http_writer: "h_metricsWriter (ex_http ''file:f'') = Some \<lparr>wr_open = FileSource ''file:f'', wr_translators = None\<rparr>"
  "h_metricsWriter (ex_http ''https:f'') = Some \<lparr>wr_open = HttpSource ''https:f'' \<lparr>tls_RootCAs = None, tls_hasCertificate = False\<rparr>, wr_translators = None\<rparr>"
  by (simp_all add: ex_http_def http_New_def ex_host_def ex_config_def Let_def NewWriter_def newWriter_def ct_load_def)

theorem handler_serves_witness:
  "\<exists>r. metricsHandler exact_platform ex_network (\<lambda>b. Inr [ex_family ''up'' GAUGE]) (\<lambda>m r. None) (Inr [ex_family ''own'' COUNTER])
      (ex_http ''file:f'') \<lparr>rsp_status = None, rsp_body = []\<rparr> = Some (Inr r)
    \<and> rsp_body r = [Family (ex_family ''up'' GAUGE), Family (ex_family ''own'' COUNTER)]"
proof -
  let ?w = "\<lparr>wr_open = FileSource ''file:f'', wr_translators = None\<rparr>"
  have o: "open_source ex_network (wr_open ?w) = Inr ''body''" by (simp add: open_source_def ex_network_def)
  have l: "list_all2 (\<lambda>mf l. written exact_platform (wr_translators ?w) mf = Some (Inr l)) [ex_family ''up'' GAUGE] [[ex_family ''up'' GAUGE]]"
    by (simp add: written_def)
  obtain r where "metricsHandler exact_platform ex_network (\<lambda>b. Inr [ex_family ''up'' GAUGE]) (\<lambda>m r. None) (Inr [ex_family ''own'' COUNTER])
      (ex_http ''file:f'') \<lparr>rsp_status = None, rsp_body = []\<rparr> = Some (Inr r)" "rsp_body r = map Family (concat [[ex_family ''up'' GAUGE]] @ [ex_family ''own'' COUNTER])"
    using handler_serves[where parse = "\<lambda>b. Inr [ex_family ''up'' GAUGE]" and body = "''body''", OF ex_http_writer(1) o refl l] by blast
  then show ?thesis by auto
qed

text \<open>
  When the source cannot be opened or parsed, the answer is status 200 with an empty body: the
  metrics of the process itself are not served either.  When the registry cannot be read and there is
  no source, the answer is status 500 with the error.
\<close>

theorem handler_errors:
  "(\<forall>w. h_metricsWriter s = Some w \<longrightarrow> open_source N (wr_open w) = Inl (Err e) \<or> (\<exists>b. open_source N (wr_open w) = Inr b \<and> parse b = Inl e) \<longrightarrow>
      (\<exists>r. metricsHandler P N parse gone gathered s \<lparr>rsp_status = None, rsp_body = []\<rparr> = Some (Inr r) \<and> status r = 200 \<and> rsp_body r = []))
   \<and> (h_metricsWriter s = None \<longrightarrow>
      (\<exists>r. metricsHandler P N parse gone (Inl e) s \<lparr>rsp_status = None, rsp_body = []\<rparr> = Some (Inr r) \<and> status r = 500 \<and> rsp_body r = [Text e]))"
  by (auto simp: metricsHandler_def Copy_def status_def errorResponse_def)

theorem handler_errors_witness:
  "\<exists>r. metricsHandler exact_platform (ex_network\<lparr>os_Open := \<lambda>p. Inl ''not found''\<rparr>) (\<lambda>b. Inr []) (\<lambda>m r. None) (Inr [ex_family ''own'' COUNTER])
      (ex_http ''file:f'') \<lparr>rsp_status = None, rsp_body = []\<rparr> = Some (Inr r) \<and> status r = 200 \<and> rsp_body r = []"
proof -
  have "open_source (ex_network\<lparr>os_Open := \<lambda>p. Inl ''not found''\<rparr>) (FileSource ''file:f'') = Inl (Err ''not found'')"
    by (simp add: open_source_def ex_network_def)
  then show ?thesis
    using conjunct1[OF handler_errors[where s = "ex_http ''file:f''" and N = "ex_network\<lparr>os_Open := \<lambda>p. Inl ''not found''\<rparr>" and e = "''not found''"
      and P = exact_platform and parse = "\<lambda>b. Inr []" and gone = "\<lambda>m r. None" and gathered = "Inr [ex_family ''own'' COUNTER]"]]
    by (simp add: ex_http_writer)
qed

text \<open>
  C32: a refresh reloads the certificate, the roots and the translators: if it succeeds, TLS
  handshakes are answered with the key pair that is on disk now, and the writer has the translators
  \<^verbatim>\<open>Load\<close> gives, or none if histograms are not rewritten; if it fails, the writer is as before and
  every certificate is either the old one or the one on disk.
\<close>

theorem refresh_reloads:
  assumes "http_refresh H compile A s = (r, s')"
  shows "(r = Inr () \<longrightarrow>
      (kp_certPath (h_keyPair s) \<noteq> [] \<longrightarrow> (\<exists>c. host_loadX509 H (kp_certPath (h_keyPair s)) (kp_keyPath (h_keyPair s)) = Inr c
         \<and> getCertificateFunc (h_keyPair s') = Inr (Some c)))
      \<and> (ct_caPath (h_clientTLSConfig s) \<noteq> [] \<longrightarrow> (\<exists>pem. host_readFile H (ct_caPath (h_clientTLSConfig s)) = Inr pem
         \<and> map_option tls_RootCAs (ct_get (h_clientTLSConfig s')) = Some (Some pem)))
      \<and> (\<forall>w. h_metricsWriter s = Some w \<longrightarrow> (\<exists>w'. h_metricsWriter s' = Some w' \<and> wr_open w' = wr_open w
           \<and> (if cfg_RewriteHistograms (h_config s) then tr_Load compile (ans_names A) (ans_get A) = Inr (GetTranslators w') else GetTranslators w' = None))))
    \<and> (r \<noteq> Inr () \<longrightarrow> h_metricsWriter s' = h_metricsWriter s)
    \<and> (kp_cert (h_keyPair s') = kp_cert (h_keyPair s)
       \<or> (\<exists>c. host_loadX509 H (kp_certPath (h_keyPair s)) (kp_keyPath (h_keyPair s)) = Inr c \<and> kp_cert (h_keyPair s') = Some c))"
  using assms
  by (auto simp: http_refresh_def kp_load_def ct_load_def getCertificateFunc_def ct_get_def SetTranslators_def GetTranslators_def Let_def
      split: if_splits sum.splits option.splits)

theorem refresh_reloads_witness:
  "\<exists>s'. http_refresh ex_host (\<lambda>r. Inr (\<lambda>s. True)) \<lparr>ans_names = Inr [''h''], ans_get = \<lambda>n. Inr (Some ex_hist)\<rparr>
        ((ex_http ''file:f'')\<lparr>h_keyPair := \<lparr>kp_certPath = ''crt'', kp_keyPath = ''key'', kp_cert = None\<rparr>\<rparr>) = (Inr (), s')
      \<and> getCertificateFunc (h_keyPair s') = Inr (Some ''crt'')"
proof -
  let ?s = "(ex_http ''file:f'')\<lparr>h_keyPair := \<lparr>kp_certPath = ''crt'', kp_keyPath = ''key'', kp_cert = None\<rparr>\<rparr>"
  let ?A = "\<lparr>ans_names = Inr [''h''], ans_get = \<lambda>n. Inr (Some ex_hist)\<rparr>"
  have c: "h_clientTLSConfig ?s = \<lparr>ct_caPath = [], ct_tlsConfig = None\<rparr>" "cfg_RewriteHistograms (h_config ?s) = False"
    by (simp_all add: ex_http_def http_New_def ex_host_def ex_config_def Let_def NewWriter_def newWriter_def)
  have "fst (http_refresh ex_host (\<lambda>r. Inr (\<lambda>s. True)) ?A ?s) = Inr ()"
    using c by (simp add: http_refresh_def kp_load_def ex_host_def ct_load_def ex_http_writer)
  then obtain s' where s': "http_refresh ex_host (\<lambda>r. Inr (\<lambda>s. True)) ?A ?s = (Inr (), s')" by (metis prod.collapse)
  from refresh_reloads[OF s'] show ?thesis using s' by (auto simp: ex_host_def)
qed

text \<open>
  C37: the roots of \<^verbatim>\<open>CaCert\<close> are loaded but never used: the client that fetches the metrics of the
  node is built with the TLS configuration of the server, which has no roots, whatever the
  configuration says.
\<close>

theorem writer_ignores_ca:
  assumes "http_New H cfg = Inr s" "h_metricsWriter s = Some w" "wr_open w = HttpSource u c"
  shows "tls_RootCAs c = None \<and> c = h_tlsConfig s"
  using assms
  by (auto simp: http_New_def Let_def bind_result_Inr NewWriter_def newWriter_def split: if_splits sum.splits prod.splits)

theorem writer_ignores_ca_witness:
  "tls_RootCAs \<lparr>tls_RootCAs = None, tls_hasCertificate = False\<rparr> = None
   \<and> ct_get (h_clientTLSConfig (ex_http ''https:f'')) = Some \<lparr>tls_RootCAs = Some ''ca'', tls_hasCertificate = False\<rparr>
   \<and> \<lparr>tls_RootCAs = None, tls_hasCertificate = False\<rparr> = h_tlsConfig (ex_http ''https:f'')"
  using writer_ignores_ca[OF ex_http_New(2) ex_http_writer(2)]
  by (simp add: ex_http_def http_New_def ex_host_def ex_config_def Let_def NewWriter_def newWriter_def ct_load_def ct_get_def)

end
