(* ===== verification/Collector.thy ===== *)
theory Collector
  imports Store_Model Go_Json Prom_Api
begin

text \<open>
  \<^verbatim>\<open>internal/collector/collector.go\<close>: a collector runs the query of a collection and moves the
  values it returns into Prometheus counters and gauges.  A metric vector is an index into the
  vectors of the world; a slice of label values is an index into its slices, because the code
  keeps the slice of a row in the counter cache and in the gauge table while it goes on writing
  into it.  The answers of the database to one \<^verbatim>\<open>Collect\<close> are a parameter.
\<close>

section \<open>State\<close>

datatype vecref = CounterVec nat | GaugeVec nat

record metric =
  m_help :: string
  m_kind :: MetricKind
  m_name :: string
  m_vec :: vecref

record cacheValue =
  cv_labels :: nat
  cv_value :: float64
  cv_vec :: nat

type_synonym gauge_table = "(string, (string, nat) gomap) gomap"

record 'c collector =
  c_name :: string
  c_countersCache :: "'c option"
  c_countersCardinality :: int
  c_databases :: string
  c_enabled :: bool
  c_frequency :: int
  c_gaugeLabels :: gauge_table
  c_labelMap :: "(string, nat) gomap"
  c_labels :: "string list"
  c_lastModified :: time
  c_maxResults :: int
  c_metrics :: "(string, metric) gomap"
  c_query :: string
  c_locked :: bool

record ('v, 'r) world =
  w_vecs :: "'v list"
  w_reg :: 'r
  w_slices :: "string list list"

record ('v, 'r, 'c) libs =
  lib_vec :: "'v vec_api"
  lib_reg :: "('v, 'r) reg_api"
  lib_lru :: "('c, cacheValue) lru_api"

definition databaseLabel :: string where "databaseLabel = ''_database''"

section \<open>Construction\<close>

definition getAllLabels :: "'c collector \<Rightarrow> string list" where
  "getAllLabels c = (if c_databases c \<noteq> [] then c_labels c @ [databaseLabel] else c_labels c)"

definition metricName :: "'c collector \<Rightarrow> string \<Rightarrow> string" where
  "metricName c name = c_name c @ ''_'' @ name"

text \<open>
  The part \<^verbatim>\<open>AddCounter\<close> and \<^verbatim>\<open>AddGauge\<close> have in common: a new vector, \<^verbatim>\<open>Unregister\<close> of the one
  it replaces, \<^verbatim>\<open>Register\<close>, the entry in the table of metrics.
\<close>

definition add_metric :: "('v, 'r, 'c) libs \<Rightarrow> MetricKind \<Rightarrow> (nat \<Rightarrow> vecref) \<Rightarrow> string \<Rightarrow> string
    \<Rightarrow> ('c collector \<times> ('v, 'r) world, unit) op" where
  "add_metric L kind ref name help s = (case s of (c, w) \<Rightarrow>
     let v = vec_new (lib_vec L) kind (metricName c name) help (getAllLabels c);
         i = length (w_vecs w);
         w1 = w\<lparr>w_vecs := w_vecs w @ [v], w_reg := snd (reg_Unregister (lib_reg L) v (w_reg w))\<rparr>
     in (case reg_Register (lib_reg L) i v (w_reg w1) of
           Inl e \<Rightarrow> (Inl e, (c, w1))
         | Inr r \<Rightarrow> (Inr (), (c\<lparr>c_metrics := AList.update name
               \<lparr>m_help = help, m_kind = kind, m_name = name, m_vec = ref i\<rparr> (c_metrics c)\<rparr>, w1\<lparr>w_reg := r\<rparr>))))"

definition AddCounter :: "('v, 'r, 'c) libs \<Rightarrow> string \<Rightarrow> string \<Rightarrow> ('c collector \<times> ('v, 'r) world, unit) op" where
  "AddCounter L name help s = (case s of (c, w) \<Rightarrow>
     add_metric L KCounter CounterVec name help
       (c\<lparr>c_countersCardinality := wrap64 (c_countersCardinality c + 1)\<rparr>, w))"

definition AddGauge :: "('v, 'r, 'c) libs \<Rightarrow> string \<Rightarrow> string \<Rightarrow> ('c collector \<times> ('v, 'r) world, unit) op" where
  "AddGauge L name help s = add_metric L KGauge GaugeVec name help s"

text \<open>The quotes of \<^verbatim>\<open>%q\<close> around a kind without characters that need escaping.\<close>

definition unsupported :: "string \<Rightarrow> Metric \<Rightarrow> go_error" where
  "unsupported coll m = coll @ '': unsupported metric kind '' @ [CHR 0x22] @ metric_Kind m @ [CHR 0x22] @ '' for metric '' @ metric_Name m"

fun add_metrics :: "('v, 'r, 'c) libs \<Rightarrow> string \<Rightarrow> Metric list \<Rightarrow> ('c collector \<times> ('v, 'r) world, unit) op" where
  "add_metrics L coll [] s = (Inr (), s)"
| "add_metrics L coll (m # ms) s =
     op_bind (if metric_Kind m = Gauge then AddGauge L (metric_Name m) (metric_Help m)
              else if metric_Kind m = Counter then AddCounter L (metric_Name m) (metric_Help m)
              else (\<lambda>s. (Inl (Err (unsupported coll m)), s)))
       (\<lambda>_. add_metrics L coll ms) s"

fun label_positions :: "nat \<Rightarrow> string list \<Rightarrow> (string, nat) gomap \<Rightarrow> (string, nat) gomap" where
  "label_positions i [] m = m"
| "label_positions i (l # ls) m = label_positions (Suc i) ls (AList.update l i m)"

definition FromCollection :: "('v, 'r, 'c) libs \<Rightarrow> Collection \<Rightarrow> (('v, 'r) world, 'c collector) op" where
  "FromCollection L coll w =
     (let c0 = \<lparr>c_name = coll_Name coll, c_countersCache = None, c_countersCardinality = 0,
            c_databases = coll_Databases coll, c_enabled = True,
            c_frequency = quot (Microseconds (coll_Frequency coll)) (1000 * 1000),
            c_gaugeLabels = [], c_labelMap = label_positions 0 (coll_Labels coll) [], c_labels = coll_Labels coll,
            c_lastModified = coll_LastModified coll, c_maxResults = coll_MaxResult coll, c_metrics = [],
            c_query = coll_Query coll, c_locked = False\<rparr>
      in (case add_metrics L (coll_Name coll) (coll_Metrics coll) (c0, w) of
            (Inl e, (c, w')) \<Rightarrow> (Inl e, w')
          | (Inr _, (c, w')) \<Rightarrow> (Inr c, w')))"

text \<open>\<^verbatim>\<open>Unregister\<close> drops the vectors of the collector from the registry; a failure is only logged.\<close>

definition vec_index :: "vecref \<Rightarrow> nat" where
  "vec_index r = (case r of CounterVec i \<Rightarrow> i | GaugeVec i \<Rightarrow> i)"

definition Unregister :: "('v, 'r, 'c) libs \<Rightarrow> 'c collector \<Rightarrow> ('v, 'r) world \<Rightarrow> ('v, 'r) world" where
  "Unregister L c w = fold (\<lambda>(n, m) w. w\<lparr>w_reg := snd (reg_Unregister (lib_reg L) (w_vecs w ! vec_index (m_vec m)) (w_reg w))\<rparr>)
     (c_metrics c) w"

definition GetFrequency :: "'c collector \<Rightarrow> int" where "GetFrequency c = c_frequency c"
definition GetLastModified :: "'c collector \<Rightarrow> time" where "GetLastModified c = c_lastModified c"
definition WithFrequency :: "int \<Rightarrow> 'c collector \<Rightarrow> 'c collector" where "WithFrequency fr c = c\<lparr>c_frequency := fr\<rparr>"
definition WithMaxResults :: "int \<Rightarrow> 'c collector \<Rightarrow> 'c collector" where "WithMaxResults mx c = c\<lparr>c_maxResults := mx\<rparr>"

section \<open>Updating the metrics\<close>

definition maybeInitCache :: "('v, 'r, 'c) libs \<Rightarrow> 'c collector \<Rightarrow> 'c collector" where
  "maybeInitCache L c = (case c_countersCache c of
      None \<Rightarrow> c\<lparr>c_countersCache := Some (lru_New (lib_lru L)
                (wrap64 (wrap64 (c_countersCardinality c * c_maxResults c) * 2)))\<rparr>
    | Some _ \<Rightarrow> c)"

definition getKey :: "string \<Rightarrow> string list \<Rightarrow> string" where
  "getKey name labels = ''{'' @ json_string ''Family'' @ '':'' @ json_string name @ '','' @
     json_string ''Labels'' @ '':'' @ json_list labels @ ''}''"

definition upd_vec :: "nat \<Rightarrow> 'v \<Rightarrow> ('v, 'r) world \<Rightarrow> ('v, 'r) world" where
  "upd_vec i v w = w\<lparr>w_vecs := (w_vecs w)[i := v]\<rparr>"

text \<open>The callback \<^verbatim>\<open>OnEvicted\<close>: the series of an evicted entry is deleted, under the labels its slice has now.\<close>

definition onEvicted :: "('v, 'r, 'c) libs \<Rightarrow> string \<times> cacheValue \<Rightarrow> ('v, 'r) world \<Rightarrow> ('v, 'r) world" where
  "onEvicted L e w = (let cv = snd e in
     upd_vec (cv_vec cv) (vec_delete (lib_vec L) (w_vecs w ! cv_vec cv) (w_slices w ! cv_labels cv)) w)"

definition counterDelta :: "cacheValue option \<Rightarrow> float64 \<Rightarrow> float64" where
  "counterDelta hit v = (case hit of
      None \<Rightarrow> v
    | Some cv \<Rightarrow> if flt v (cv_value cv) then v else fsub v (cv_value cv))"

definition counterAdd :: "('v, 'r, 'c) libs \<Rightarrow> nat \<Rightarrow> string \<Rightarrow> nat \<Rightarrow> float64
    \<Rightarrow> 'c collector \<times> ('v, 'r) world \<Rightarrow> ('c collector \<times> ('v, 'r) world) result" where
  "counterAdd L i name a v s = (case s of (c, w) \<Rightarrow>
     (case c_countersCache c of
        None \<Rightarrow> Inl (Panic NilDereference)
      | Some cache \<Rightarrow>
          (let labels = w_slices w ! a;
               key = getKey name labels;
               (hit, cache1) = lru_Get (lib_lru L) cache key
           in bind_result (vec_add (lib_vec L) (w_vecs w ! i) labels (counterDelta hit v))
             (\<lambda>vec. let (cache2, evicted) = lru_Add (lib_lru L) cache1 key \<lparr>cv_labels = a, cv_value = v, cv_vec = i\<rparr>
                    in Inr (c\<lparr>c_countersCache := Some cache2\<rparr>, fold (onEvicted L) evicted (upd_vec i vec w))))))"

definition gaugeSet :: "('v, 'r, 'c) libs \<Rightarrow> nat \<Rightarrow> nat \<Rightarrow> float64 \<Rightarrow> ('v, 'r) world \<Rightarrow> ('v, 'r) world result" where
  "gaugeSet L i a v w = bind_result (vec_set (lib_vec L) (w_vecs w ! i) (w_slices w ! a) v) (\<lambda>vec. Inr (upd_vec i vec w))"

section \<open>Collecting\<close>

text \<open>
  A value as \<^verbatim>\<open>rows.Values()\<close> decodes it: \<^verbatim>\<open>float64\<close>, \<^verbatim>\<open>int\<close>, \<^verbatim>\<open>pgtype.Numeric\<close> with what its
  \<^verbatim>\<open>Float64Value\<close> returns, null, \<^verbatim>\<open>string\<close>, or a value of any other Go type, with the name of the type.
\<close>

datatype dbvalue = DFloat float64 | DInt int | DNumeric "go_error + float64" | DNull | DString string | DOther string

type_synonym row = "go_error + dbvalue list"

text \<open>The answers to one run of \<^verbatim>\<open>collectLocked\<close>: \<^verbatim>\<open>Begin\<close>, \<^verbatim>\<open>USE\<close>, the query, \<^verbatim>\<open>Commit\<close>.\<close>

record answer =
  ans_begin :: "go_error option"
  ans_use :: "go_error option"
  ans_query :: "go_error + (string list \<times> row list)"
  ans_commit :: "go_error option"

definition metric_value :: "dbvalue \<Rightarrow> float64 option" where
  "metric_value v = (case v of DFloat x \<Rightarrow> Some x | DInt n \<Rightarrow> Some (float_of_int n)
     | DNumeric (Inr x) \<Rightarrow> Some x | _ \<Rightarrow> None)"

fun join :: "string \<Rightarrow> string list \<Rightarrow> string" where
  "join s [] = []"
| "join s [x] = x"
| "join s (x # y # xs) = x @ s @ join s (y # xs)"

definition set_label :: "nat \<Rightarrow> nat \<Rightarrow> string \<Rightarrow> ('v, 'r) world \<Rightarrow> ('v, 'r) world" where
  "set_label a pos v w = w\<lparr>w_slices := (w_slices w)[a := (w_slices w ! a)[pos := v]]\<rparr>"

definition track_gauge :: "string \<Rightarrow> string \<Rightarrow> nat \<Rightarrow> gauge_table \<Rightarrow> gauge_table" where
  "track_gauge col i a cur = AList.update col
     (AList.update i a (case map_of cur col of None \<Rightarrow> [] | Some t \<Rightarrow> t)) cur"

type_synonym ('v, 'r, 'c) cstate = "'c collector \<times> ('v, 'r) world \<times> gauge_table"

text \<open>The body of the loop over the columns of a row whose label values are in slice \<^verbatim>\<open>a\<close>.\<close>

definition collect_col :: "('v, 'r, 'c) libs \<Rightarrow> nat \<Rightarrow> string \<times> dbvalue \<Rightarrow> ('v, 'r, 'c) cstate \<Rightarrow> ('v, 'r, 'c) cstate result" where
  "collect_col L a cv s = (case (cv, s) of ((col, v), (c, w, cur)) \<Rightarrow>
     (case map_of (c_labelMap c) col of
        Some pos \<Rightarrow> (case v of DString str \<Rightarrow> Inr (c, set_label a pos str w, cur) | _ \<Rightarrow> Inr (c, w, cur))
      | None \<Rightarrow>
          (case map_of (c_metrics c) col of
             None \<Rightarrow> Inr (c, w, cur)
           | Some m \<Rightarrow>
               (case m_vec m of
                  CounterVec i \<Rightarrow>
                    (case metric_value v of
                       None \<Rightarrow> Inr (c, w, cur)
                     | Some x \<Rightarrow> bind_result (counterAdd L i (m_name m) a x (c, w)) (\<lambda>(c', w'). Inr (c', w', cur)))
                | GaugeVec i \<Rightarrow>
                    (let cur' = track_gauge col (join ''|'' (w_slices w ! a)) a cur in
                     case metric_value v of
                       None \<Rightarrow> Inr (c, w, cur')
                     | Some x \<Rightarrow> bind_result (gaugeSet L i a x w) (\<lambda>w'. Inr (c, w', cur')))))))"

fun collect_cols :: "('v, 'r, 'c) libs \<Rightarrow> nat \<Rightarrow> (string \<times> dbvalue) list \<Rightarrow> ('v, 'r, 'c) cstate \<Rightarrow> ('v, 'r, 'c) cstate result" where
  "collect_cols L a [] s = Inr s"
| "collect_cols L a (x # xs) s = bind_result (collect_col L a x s) (collect_cols L a xs)"

definition new_labels :: "'c collector \<Rightarrow> string \<Rightarrow> string list" where
  "new_labels c db = (let ls = replicate (length (getAllLabels c)) [] in
     if db \<noteq> [] then ls[length ls - 1 := db] else ls)"

fun collect_rows :: "('v, 'r, 'c) libs \<Rightarrow> string \<Rightarrow> string list \<Rightarrow> row list \<Rightarrow> ('v, 'r, 'c) cstate \<Rightarrow> ('v, 'r, 'c) cstate result" where
  "collect_rows L db desc [] s = Inr s"
| "collect_rows L db desc (Inl e # rows) s = collect_rows L db desc rows s"
| "collect_rows L db desc (Inr values # rows) (c, w, cur) =
     bind_result (collect_cols L (length (w_slices w)) (zip desc values)
         (c, w\<lparr>w_slices := w_slices w @ [new_labels c db]\<rparr>, cur))
       (collect_rows L db desc rows)"

text \<open>The inner loop of \<^verbatim>\<open>clearObsoleteGauges\<close> on the entries of one gauge, and the outer loop.\<close>

definition clear_gauge :: "('v, 'r, 'c) libs \<Rightarrow> 'c collector \<Rightarrow> gauge_table \<Rightarrow> string \<Rightarrow> (string, nat) gomap
    \<Rightarrow> ('v, 'r) world \<Rightarrow> ('v, 'r) world" where
  "clear_gauge L c cur g labels w = fold (\<lambda>(i, a) w.
     if (case map_of cur g of None \<Rightarrow> False | Some t \<Rightarrow> map_of t i \<noteq> None) then w
     else (case map_of (c_metrics c) g of
             Some m \<Rightarrow> (case m_vec m of
                 GaugeVec k \<Rightarrow> upd_vec k (vec_delete (lib_vec L) (w_vecs w ! k) (w_slices w ! a)) w
               | CounterVec _ \<Rightarrow> w)
           | None \<Rightarrow> w)) labels w"

definition clearObsoleteGauges :: "('v, 'r, 'c) libs \<Rightarrow> gauge_table \<Rightarrow> 'c collector \<times> ('v, 'r) world \<Rightarrow> 'c collector \<times> ('v, 'r) world" where
  "clearObsoleteGauges L cur s = (case s of (c, w) \<Rightarrow>
     (c\<lparr>c_gaugeLabels := cur\<rparr>, fold (\<lambda>(g, labels). clear_gauge L c cur g labels) (c_gaugeLabels c) w))"

definition column_mismatch :: go_error where
  "column_mismatch = ''columns returned in the query must be match labels+metrics''"

text \<open>A panic ends the process; the state it returns is the one before the rows.\<close>

definition collectLocked :: "('v, 'r, 'c) libs \<Rightarrow> answer \<Rightarrow> string \<Rightarrow> ('c collector \<times> ('v, 'r) world, unit) op" where
  "collectLocked L ans db s =
    (case ans_begin ans of Some e \<Rightarrow> (Inl (Err e), s)
     | None \<Rightarrow>
    (case (if db \<noteq> [] then ans_use ans else None) of Some e \<Rightarrow> (Inl (Err e), s)
     | None \<Rightarrow>
    (case ans_query ans of Inl e \<Rightarrow> (Inl (Err e), s)
     | Inr (desc, rows) \<Rightarrow>
        (case s of (c, w) \<Rightarrow>
          if length desc \<noteq> length (c_labels c) + length (c_metrics c) then (Inl (Err column_mismatch), s)
          else (case collect_rows L db desc rows (c, w, []) of
                  Inl e \<Rightarrow> (Inl e, s)
                | Inr (c', w', cur) \<Rightarrow>
                    (case ans_commit ans of
                       Some e \<Rightarrow> (Inl (Err e), clearObsoleteGauges L cur (c', w'))
                     | None \<Rightarrow> (Inr (), clearObsoleteGauges L cur (c', w'))))))))"

fun collect_dbs :: "('v, 'r, 'c) libs \<Rightarrow> (nat \<Rightarrow> answer) \<Rightarrow> nat \<Rightarrow> string list \<Rightarrow> ('c collector \<times> ('v, 'r) world, unit) op" where
  "collect_dbs L as n [] s = (Inr (), s)"
| "collect_dbs L as n (db # dbs) s = op_bind (collectLocked L (as n) db) (\<lambda>_. collect_dbs L as (Suc n) dbs) s"

text \<open>The name \<^verbatim>\<open>%T\<close> prints for the type of a value.\<close>

fun go_type :: "dbvalue \<Rightarrow> string" where
  "go_type (DFloat _) = ''float64''"
| "go_type (DInt _) = ''int''"
| "go_type (DNumeric _) = ''pgtype.Numeric''"
| "go_type DNull = ''<nil>''"
| "go_type (DString _) = ''string''"
| "go_type (DOther t) = t"

text \<open>The rows of the query for the databases: their first column is a string.\<close>

fun database_names :: "string \<Rightarrow> row list \<Rightarrow> string list result" where
  "database_names name [] = Inr []"
| "database_names name (Inl e # rows) = Inl (Err e)"
| "database_names name (Inr vs # rows) =
     (case vs of [] \<Rightarrow> Inl (Panic IndexOutOfRange)
      | DString db # _ \<Rightarrow> bind_result (database_names name rows) (\<lambda>dbs. Inr (db # dbs))
      | v # _ \<Rightarrow> Inl (Err (name @ '': expected string for database name, got '' @ go_type v)))"

text \<open>The answer to that query: an error, or its rows and what \<^verbatim>\<open>rows.Err()\<close> reports.\<close>

type_synonym db_answer = "go_error + (row list \<times> go_error option)"

definition list_databases :: "'c collector \<Rightarrow> db_answer \<Rightarrow> string list result" where
  "list_databases c q = (if c_databases c = [] then Inr [[]]
     else (case q of Inl e \<Rightarrow> Inl (Err e)
       | Inr (rows, err) \<Rightarrow> bind_result (database_names (c_name c) rows)
           (\<lambda>dbs. case err of Some e \<Rightarrow> Inl (Err e) | None \<Rightarrow> Inr dbs)))"

text \<open>
  \<^verbatim>\<open>Collect\<close>; \<^verbatim>\<open>c_locked\<close> says that another run holds the lock.  The lock is taken and released
  around the body, so that runs do not interleave.
\<close>

definition Collect :: "('v, 'r, 'c) libs \<Rightarrow> db_answer \<Rightarrow> (nat \<Rightarrow> answer) \<Rightarrow> ('c collector \<times> ('v, 'r) world, unit) op" where
  "Collect L q as s = (case s of (c, w) \<Rightarrow>
     if c_locked c then (Inr (), s)
     else if \<not> c_enabled c then (Inr (), s)
     else (let c1 = maybeInitCache L c in
       (case list_databases c1 q of
          Inl e \<Rightarrow> (Inl e, (c1, w))
        | Inr dbs \<Rightarrow> collect_dbs L as 0 dbs (c1, w))))"

end
