(* ===== verification/Collector_Counters.thy ===== *)
theory Collector_Counters
  imports Collector
begin

text \<open>
  The counters of a collector: the entries of the LRU cache correspond to the series of the
  counter vectors (\<open>counters_inv\<close>), and the value a counter shows is the reset-aware total of the
  values its source had (\<open>counterAdds_run\<close>).
\<close>

section \<open>Counters\<close>

definition libs_ok :: "('v, 'r, 'c) libs \<Rightarrow> bool" where
  "libs_ok L = (vec_laws (lib_vec L) \<and> reg_laws (lib_vec L) (lib_reg L) \<and> lru_laws (lib_lru L))"

definition series :: "('v, 'r, 'c) libs \<Rightarrow> ('v, 'r) world \<Rightarrow> nat \<Rightarrow> string list \<Rightarrow> float64 option" where
  "series L w i l = vec_value (lib_vec L) (w_vecs w ! i) l"

definition cached :: "('v, 'r, 'c) libs \<Rightarrow> 'c collector \<Rightarrow> string \<Rightarrow> cacheValue option" where
  "cached L c k = (case c_countersCache c of None \<Rightarrow> None | Some ca \<Rightarrow> lru_peek (lib_lru L) ca k)"

definition cache_max :: "('v, 'r, 'c) libs \<Rightarrow> 'c collector \<Rightarrow> int" where
  "cache_max L c = (case c_countersCache c of None \<Rightarrow> 0 | Some ca \<Rightarrow> lru_max (lib_lru L) ca)"

text \<open>
  The collector is well formed: each metric is stored under its name and has a vector of its own,
  with one label per entry of \<^verbatim>\<open>getAllLabels\<close>; names and the label values in its slices are
  valid UTF-8, which the database guarantees for its strings.
\<close>

definition metrics_ok :: "('v, 'r, 'c) libs \<Rightarrow> 'c collector \<Rightarrow> ('v, 'r) world \<Rightarrow> bool" where
  "metrics_ok L c w =
    ((\<forall>n m. map_of (c_metrics c) n = Some m \<longrightarrow> m_name m = n \<and> valid_utf8 n \<and> vec_index (m_vec m) < length (w_vecs w)
        \<and> vec_labels (lib_vec L) (w_vecs w ! vec_index (m_vec m)) = getAllLabels c)
     \<and> (\<forall>n n' m m'. map_of (c_metrics c) n = Some m \<longrightarrow> map_of (c_metrics c) n' = Some m' \<longrightarrow>
          vec_index (m_vec m) = vec_index (m_vec m') \<longrightarrow> n = n'))"

definition slice_ok :: "'c collector \<Rightarrow> ('v, 'r) world \<Rightarrow> nat \<Rightarrow> bool" where
  "slice_ok c w a = (a < length (w_slices w) \<and> length (w_slices w ! a) = length (getAllLabels c)
     \<and> (\<forall>x \<in> set (w_slices w ! a). valid_utf8 x))"

text \<open>The entries of the cache and the series of the counters correspond to each other.\<close>

definition cache_sound :: "('v, 'r, 'c) libs \<Rightarrow> 'c collector \<Rightarrow> ('v, 'r) world \<Rightarrow> bool" where
  "cache_sound L c w = (\<forall>k cv. cached L c k = Some cv \<longrightarrow> slice_ok c w (cv_labels cv)
     \<and> (\<exists>n m. map_of (c_metrics c) n = Some m \<and> m_vec m = CounterVec (cv_vec cv)
          \<and> k = getKey n (w_slices w ! cv_labels cv)))"

definition cache_complete :: "('v, 'r, 'c) libs \<Rightarrow> 'c collector \<Rightarrow> ('v, 'r) world \<Rightarrow> bool" where
  "cache_complete L c w = (\<forall>n m i l. map_of (c_metrics c) n = Some m \<longrightarrow> m_vec m = CounterVec i \<longrightarrow>
     series L w i l \<noteq> None \<longrightarrow> (\<exists>cv. cached L c (getKey n l) = Some cv \<and> cv_vec cv = i \<and> w_slices w ! cv_labels cv = l))"

definition counters_inv :: "('v, 'r, 'c) libs \<Rightarrow> 'c collector \<Rightarrow> ('v, 'r) world \<Rightarrow> bool" where
  "counters_inv L c w = (c_countersCache c \<noteq> None \<and> metrics_ok L c w \<and> cache_sound L c w \<and> cache_complete L c w)"

lemma getKey_inj:
  assumes "valid_utf8 n" "valid_utf8 n'" "\<forall>x \<in> set l. valid_utf8 x" "\<forall>x \<in> set l'. valid_utf8 x"
  shows "getKey n l = getKey n' l' \<longleftrightarrow> n = n' \<and> l = l'"
proof
  assume "getKey n l = getKey n' l'"
  then have "json_string n @ '','' @ json_string ''Labels'' @ '':'' @ json_list l @ ''}''
      = json_string n' @ '','' @ json_string ''Labels'' @ '':'' @ json_list l' @ ''}''"
    by (simp add: getKey_def)
  from json_string_split[OF assms(1,2) this]
  have "n = n'" "json_list l @ ''}'' = json_list l' @ ''}''" by simp_all
  then show "n = n' \<and> l = l'" using json_list_inj[OF assms(3,4)] by blast
qed simp

lemma vec_addE:
  assumes "libs_ok L" "length l = vec_arity (lib_vec L) v" "utf8_values l" "\<not> flt x (Fin 0)"
  obtains v' where "vec_add (lib_vec L) v l x = Inr v'" "same_desc (lib_vec L) v v'" "vec_value (lib_vec L) v' l \<noteq> None"
    "\<And>l'. l' \<noteq> l \<Longrightarrow> vec_value (lib_vec L) v' l' = vec_value (lib_vec L) v l'"
proof -
  have "\<forall>v l x. length l = vec_arity (lib_vec L) v \<longrightarrow> utf8_values l \<longrightarrow> \<not> flt x (Fin 0) \<longrightarrow>
       (\<exists>v'. vec_add (lib_vec L) v l x = Inr v' \<and> same_desc (lib_vec L) v v' \<and> vec_value (lib_vec L) v' l \<noteq> None
          \<and> (\<forall>l'. l' \<noteq> l \<longrightarrow> vec_value (lib_vec L) v' l' = vec_value (lib_vec L) v l'))"
    using assms(1) unfolding libs_ok_def vec_laws_def by (elim conjE)
  then show thesis using assms that by metis
qed

lemma vec_add_int:
  assumes "libs_ok L" "0 \<le> a" "0 \<le> b" "a + b \<le> 2 ^ 53"
    "vec_value (lib_vec L) v l = Some (Fin (of_int a)) \<or> vec_value (lib_vec L) v l = None \<and> a = 0"
    "vec_add (lib_vec L) v l (Fin (of_int b)) = Inr v'"
  shows "vec_value (lib_vec L) v' l = Some (Fin (of_int (a + b)))"
proof -
  have "\<forall>v l a b v'. 0 \<le> a \<longrightarrow> 0 \<le> b \<longrightarrow> a + b \<le> 2 ^ 53 \<longrightarrow>
       (vec_value (lib_vec L) v l = Some (Fin (of_int a)) \<or> vec_value (lib_vec L) v l = None \<and> a = 0) \<longrightarrow>
       vec_add (lib_vec L) v l (Fin (of_int b)) = Inr v' \<longrightarrow> vec_value (lib_vec L) v' l = Some (Fin (of_int (a + b)))"
    using assms(1) unfolding libs_ok_def vec_laws_def by (elim conjE)
  from this[rule_format, OF assms(2-6)] show ?thesis .
qed

lemma vec_deleteE:
  assumes "libs_ok L"
  shows "same_desc (lib_vec L) v (vec_delete (lib_vec L) v l)"
    "vec_value (lib_vec L) (vec_delete (lib_vec L) v l) = (vec_value (lib_vec L) v)(l := None)"
  using assms unfolding libs_ok_def vec_laws_def by (elim conjE, metis)+

lemma vec_setE:
  assumes "libs_ok L" "length l = vec_arity (lib_vec L) v" "utf8_values l"
  obtains v' where "vec_set (lib_vec L) v l x = Inr v'" "same_desc (lib_vec L) v v'"
    "vec_value (lib_vec L) v' = (vec_value (lib_vec L) v)(l \<mapsto> x)"
proof -
  have "\<forall>v l x. length l = vec_arity (lib_vec L) v \<longrightarrow> utf8_values l \<longrightarrow>
       (\<exists>v'. vec_set (lib_vec L) v l x = Inr v' \<and> same_desc (lib_vec L) v v' \<and> vec_value (lib_vec L) v' = (vec_value (lib_vec L) v)(l \<mapsto> x))"
    using assms(1) unfolding libs_ok_def vec_laws_def by (elim conjE)
  then show thesis using assms that by metis
qed

lemma lru_GetE:
  assumes "libs_ok L"
  shows "fst (lru_Get (lib_lru L) ca k) = lru_peek (lib_lru L) ca k"
    "lru_peek (lib_lru L) (snd (lru_Get (lib_lru L) ca k)) = lru_peek (lib_lru L) ca"
    "lru_max (lib_lru L) (snd (lru_Get (lib_lru L) ca k)) = lru_max (lib_lru L) ca"
  using assms unfolding libs_ok_def lru_laws_def by auto

lemma lru_AddE:
  assumes "libs_ok L" "lru_Add (lib_lru L) ca k x = (ca', ev)"
  shows "lru_max (lib_lru L) ca' = lru_max (lib_lru L) ca"
    "\<And>k' x'. (k', x') \<in> set ev \<Longrightarrow> ((lru_peek (lib_lru L) ca)(k \<mapsto> x)) k' = Some x'"
    "\<And>k'. lru_peek (lib_lru L) ca' k' = (if k' \<in> fst ` set ev then None else ((lru_peek (lib_lru L) ca)(k \<mapsto> x)) k')"
    "0 < lru_max (lib_lru L) ca \<Longrightarrow> k \<notin> fst ` set ev"
    "0 < lru_max (lib_lru L) ca \<Longrightarrow> int (card (dom (lru_peek (lib_lru L) ca))) \<le> lru_max (lib_lru L) ca \<Longrightarrow>
       int (card (dom (lru_peek (lib_lru L) ca'))) \<le> lru_max (lib_lru L) ca"
    "lru_max (lib_lru L) ca = 0 \<or> int (card (dom ((lru_peek (lib_lru L) ca)(k \<mapsto> x)))) \<le> lru_max (lib_lru L) ca \<Longrightarrow> ev = []"
proof -
  have "\<forall>c k x c' ev. lru_Add (lib_lru L) c k x = (c', ev) \<longrightarrow>
        lru_max (lib_lru L) c' = lru_max (lib_lru L) c
        \<and> distinct (map fst ev)
        \<and> (\<forall>(k', x') \<in> set ev. ((lru_peek (lib_lru L) c)(k \<mapsto> x)) k' = Some x')
        \<and> (\<forall>k'. lru_peek (lib_lru L) c' k' = (if k' \<in> fst ` set ev then None else ((lru_peek (lib_lru L) c)(k \<mapsto> x)) k'))
        \<and> (0 < lru_max (lib_lru L) c \<longrightarrow> k \<notin> fst ` set ev)
        \<and> (0 < lru_max (lib_lru L) c \<longrightarrow> int (card (dom (lru_peek (lib_lru L) c))) \<le> lru_max (lib_lru L) c \<longrightarrow>
             int (card (dom (lru_peek (lib_lru L) c'))) \<le> lru_max (lib_lru L) c)
        \<and> (lru_max (lib_lru L) c = 0 \<or> int (card (dom ((lru_peek (lib_lru L) c)(k \<mapsto> x)))) \<le> lru_max (lib_lru L) c \<longrightarrow> ev = [])"
    using assms(1) unfolding libs_ok_def lru_laws_def by (elim conjE)
  from this[rule_format, OF assms(2)]
  show "lru_max (lib_lru L) ca' = lru_max (lib_lru L) ca"
    "\<And>k' x'. (k', x') \<in> set ev \<Longrightarrow> ((lru_peek (lib_lru L) ca)(k \<mapsto> x)) k' = Some x'"
    "\<And>k'. lru_peek (lib_lru L) ca' k' = (if k' \<in> fst ` set ev then None else ((lru_peek (lib_lru L) ca)(k \<mapsto> x)) k')"
    "0 < lru_max (lib_lru L) ca \<Longrightarrow> k \<notin> fst ` set ev"
    "0 < lru_max (lib_lru L) ca \<Longrightarrow> int (card (dom (lru_peek (lib_lru L) ca))) \<le> lru_max (lib_lru L) ca \<Longrightarrow>
       int (card (dom (lru_peek (lib_lru L) ca'))) \<le> lru_max (lib_lru L) ca"
    "lru_max (lib_lru L) ca = 0 \<or> int (card (dom ((lru_peek (lib_lru L) ca)(k \<mapsto> x)))) \<le> lru_max (lib_lru L) ca \<Longrightarrow> ev = []"
    by blast+
qed

text \<open>Deleting the series of evicted entries.\<close>

lemma onEvicted_frame [simp]:
  "w_slices (onEvicted L e w) = w_slices w" "w_reg (onEvicted L e w) = w_reg w"
  "length (w_vecs (onEvicted L e w)) = length (w_vecs w)"
  by (simp_all add: onEvicted_def upd_vec_def Let_def)

lemma fold_onEvicted_frame [simp]:
  "w_slices (fold (onEvicted L) ev w) = w_slices w" "w_reg (fold (onEvicted L) ev w) = w_reg w"
  "length (w_vecs (fold (onEvicted L) ev w)) = length (w_vecs w)"
  by (induction ev arbitrary: w) auto

lemma fold_onEvicted:
  assumes "libs_ok L" "\<forall>e \<in> set ev. cv_vec (snd e) < length (w_vecs w)" "j < length (w_vecs w)"
  shows "same_desc (lib_vec L) (w_vecs w ! j) (w_vecs (fold (onEvicted L) ev w) ! j)
    \<and> series L (fold (onEvicted L) ev w) j l =
        (if \<exists>e \<in> set ev. cv_vec (snd e) = j \<and> w_slices w ! cv_labels (snd e) = l then None else series L w j l)"
  using assms(2,3)
proof (induction ev arbitrary: w)
  case (Cons e ev)
  have "same_desc (lib_vec L) (w_vecs w ! j) (w_vecs (onEvicted L e w) ! j)"
    "series L (onEvicted L e w) j l = (if cv_vec (snd e) = j \<and> w_slices w ! cv_labels (snd e) = l then None else series L w j l)"
    using Cons.prems vec_deleteE[OF assms(1)]
    by (auto simp: onEvicted_def upd_vec_def series_def Let_def nth_list_update same_desc_def)
  then show ?case using Cons.IH[of "onEvicted L e w"] Cons.prems by (auto simp: same_desc_def)
qed (simp add: same_desc_def)

lemma vec_index_simps [simp]: "vec_index (CounterVec i) = i" "vec_index (GaugeVec i) = i"
  by (simp_all add: vec_index_def)

lemma metrics_okD:
  assumes "metrics_ok L c w"
  shows "map_of (c_metrics c) n = Some m \<Longrightarrow> m_name m = n"
    "map_of (c_metrics c) n = Some m \<Longrightarrow> valid_utf8 n"
    "map_of (c_metrics c) n = Some m \<Longrightarrow> vec_index (m_vec m) < length (w_vecs w)"
    "map_of (c_metrics c) n = Some m \<Longrightarrow> vec_labels (lib_vec L) (w_vecs w ! vec_index (m_vec m)) = getAllLabels c"
    "map_of (c_metrics c) n = Some m \<Longrightarrow> map_of (c_metrics c) n' = Some m' \<Longrightarrow> vec_index (m_vec m) = vec_index (m_vec m') \<Longrightarrow> n = n'"
  using assms by (auto simp: metrics_ok_def)

lemma slice_okD:
  assumes "slice_ok c w a"
  shows "a < length (w_slices w)" "length (w_slices w ! a) = length (getAllLabels c)" "\<forall>x \<in> set (w_slices w ! a). valid_utf8 x"
  using assms by (simp_all add: slice_ok_def)

lemma cache_soundE:
  assumes "cache_sound L c w" "cached L c k = Some cv"
  obtains n m where "map_of (c_metrics c) n = Some m" "m_vec m = CounterVec (cv_vec cv)"
    "slice_ok c w (cv_labels cv)" "k = getKey n (w_slices w ! cv_labels cv)"
  using assms unfolding cache_sound_def by metis

lemma cache_sound_upd:
  assumes "cache_sound L c w" "map_of (c_metrics c) n = Some m" "m_vec m = CounterVec i" "slice_ok c w a"
    "((cached L c)(getKey n (w_slices w ! a) \<mapsto> \<lparr>cv_labels = a, cv_value = v, cv_vec = i\<rparr>)) k = Some cv"
  obtains n' m' where "map_of (c_metrics c) n' = Some m'" "m_vec m' = CounterVec (cv_vec cv)"
    "slice_ok c w (cv_labels cv)" "k = getKey n' (w_slices w ! cv_labels cv)"
proof (cases "k = getKey n (w_slices w ! a)")
  case True
  then have "cv = \<lparr>cv_labels = a, cv_value = v, cv_vec = i\<rparr>" using assms(5) by simp
  then show thesis using that[of n m] True assms(2-4) by simp
next
  case False
  then show thesis using assms(5) that cache_soundE[OF assms(1), of k cv] by auto
qed

definition evicts :: "('v, 'r) world \<Rightarrow> (string \<times> cacheValue) list \<Rightarrow> nat \<Rightarrow> string list \<Rightarrow> bool" where
  "evicts w ev j l = (\<exists>e \<in> set ev. cv_vec (snd e) = j \<and> w_slices w ! cv_labels (snd e) = l)"

text \<open>What one call of \<^verbatim>\<open>counterAdd\<close> does, when the increment is not negative.\<close>

lemma counterAdd_effect:
  fixes L :: "('v, 'r, 'c) libs"
  assumes ok: "libs_ok L" and inv: "counters_inv L c w"
    and m: "map_of (c_metrics c) n = Some m" "m_vec m = CounterVec i" and a: "slice_ok c w a"
    and nn: "\<not> flt (counterDelta (cached L c (getKey n (w_slices w ! a))) v) (Fin 0)"
  obtains ca' w' ev vec where
    "counterAdd L i n a v (c, w) = Inr (c\<lparr>c_countersCache := Some ca'\<rparr>, w')"
    "vec_add (lib_vec L) (w_vecs w ! i) (w_slices w ! a) (counterDelta (cached L c (getKey n (w_slices w ! a))) v) = Inr vec"
    "w_slices w' = w_slices w" "w_reg w' = w_reg w" "length (w_vecs w') = length (w_vecs w)"
    "lru_max (lib_lru L) ca' = cache_max L c"
    "\<And>k x. (k, x) \<in> set ev \<Longrightarrow> ((cached L c)(getKey n (w_slices w ! a) \<mapsto> \<lparr>cv_labels = a, cv_value = v, cv_vec = i\<rparr>)) k = Some x"
    "\<And>k. lru_peek (lib_lru L) ca' k = (if k \<in> fst ` set ev then None
        else ((cached L c)(getKey n (w_slices w ! a) \<mapsto> \<lparr>cv_labels = a, cv_value = v, cv_vec = i\<rparr>)) k)"
    "0 < cache_max L c \<Longrightarrow> getKey n (w_slices w ! a) \<notin> fst ` set ev"
    "0 < cache_max L c \<Longrightarrow> int (card (dom (cached L c))) \<le> cache_max L c \<Longrightarrow> int (card (dom (lru_peek (lib_lru L) ca'))) \<le> cache_max L c"
    "cache_max L c = 0 \<or> int (card (insert (getKey n (w_slices w ! a)) (dom (cached L c)))) \<le> cache_max L c \<Longrightarrow> ev = []"
    "\<And>j. j < length (w_vecs w) \<Longrightarrow> same_desc (lib_vec L) (w_vecs w ! j) (w_vecs w' ! j)"
    "\<And>j l. j < length (w_vecs w) \<Longrightarrow> series L w' j l = (if evicts w ev j l then None
        else if j = i \<and> l = w_slices w ! a then vec_value (lib_vec L) vec l else series L w j l)"
    "vec_value (lib_vec L) vec (w_slices w ! a) \<noteq> None"
proof -
  let ?l = "w_slices w ! a" and ?cv = "\<lparr>cv_labels = a, cv_value = v, cv_vec = i\<rparr>"
  let ?k = "getKey n ?l"
  obtain ca where ca: "c_countersCache c = Some ca" using inv by (auto simp: counters_inv_def)
  obtain hit ca1 where g: "lru_Get (lib_lru L) ca ?k = (hit, ca1)" by (cases "lru_Get (lib_lru L) ca ?k")
  have peek: "cached L c = lru_peek (lib_lru L) ca" "cache_max L c = lru_max (lib_lru L) ca"
    by (auto simp: cached_def cache_max_def ca)
  have g': "hit = cached L c ?k" "lru_peek (lib_lru L) ca1 = cached L c" "lru_max (lib_lru L) ca1 = cache_max L c"
    using lru_GetE[OF ok, of ca ?k] g peek by simp_all
  obtain ca' ev where add: "lru_Add (lib_lru L) ca1 ?k ?cv = (ca', ev)" by (cases "lru_Add (lib_lru L) ca1 ?k ?cv")
  note ev = lru_AddE[OF ok add, unfolded g']
  have mok: "metrics_ok L c w" and snd: "cache_sound L c w" using inv by (simp_all add: counters_inv_def)
  have i: "i < length (w_vecs w)" "vec_labels (lib_vec L) (w_vecs w ! i) = getAllLabels c"
    using metrics_okD(3,4)[OF mok m(1)] m(2) by simp_all
  have "length ?l = vec_arity (lib_vec L) (w_vecs w ! i)" "utf8_values ?l" using slice_okD(2,3)[OF a] i(2) by (simp_all add: utf8_values_def)
  then obtain vec where vec: "vec_add (lib_vec L) (w_vecs w ! i) ?l (counterDelta (cached L c ?k) v) = Inr vec"
      "same_desc (lib_vec L) (w_vecs w ! i) vec" "vec_value (lib_vec L) vec ?l \<noteq> None"
      "\<And>l'. l' \<noteq> ?l \<Longrightarrow> vec_value (lib_vec L) vec l' = vec_value (lib_vec L) (w_vecs w ! i) l'"
    using vec_addE[OF ok _ _ nn] by metis
  let ?w = "upd_vec i vec w"
  have evv: "\<forall>e \<in> set ev. cv_vec (snd e) < length (w_vecs ?w)"
  proof
    fix e assume "e \<in> set ev"
    then have "((cached L c)(?k \<mapsto> ?cv)) (fst e) = Some (snd e)" using ev(2)[of "fst e" "snd e"] by simp
    from cache_sound_upd[OF snd m a this] obtain n' m' where
      "map_of (c_metrics c) n' = Some m'" "m_vec m' = CounterVec (cv_vec (snd e))" by metis
    then show "cv_vec (snd e) < length (w_vecs ?w)"
      using metrics_okD(3)[OF mok, of n' m'] by (simp add: upd_vec_def)
  qed
  have w: "w_slices ?w = w_slices w" "length (w_vecs ?w) = length (w_vecs w)" "w_reg ?w = w_reg w" by (simp_all add: upd_vec_def)
  have sd: "j < length (w_vecs w) \<Longrightarrow> same_desc (lib_vec L) (w_vecs w ! j) (w_vecs ?w ! j)"
    and se: "j < length (w_vecs w) \<Longrightarrow> series L ?w j l = (if j = i \<and> l = ?l then vec_value (lib_vec L) vec l else series L w j l)" for j l
    using vec(2,4) i(1) by (auto simp: upd_vec_def series_def nth_list_update same_desc_def)
  show thesis
  proof (rule that[of ca' "fold (onEvicted L) ev ?w" vec ev])
    show "counterAdd L i n a v (c, w) = Inr (c\<lparr>c_countersCache := Some ca'\<rparr>, fold (onEvicted L) ev ?w)"
      by (simp add: counterAdd_def ca g g'(1) vec(1) add Let_def)
    fix j l assume j: "j < length (w_vecs w)"
    show "same_desc (lib_vec L) (w_vecs w ! j) (w_vecs (fold (onEvicted L) ev ?w) ! j)"
      using fold_onEvicted[OF ok evv, of j] sd[OF j] j w(2) by (simp add: same_desc_def)
    show "series L (fold (onEvicted L) ev ?w) j l = (if evicts w ev j l then None
        else if j = i \<and> l = ?l then vec_value (lib_vec L) vec l else series L w j l)"
    proof -
      have "evicts ?w ev j l = evicts w ev j l" by (simp add: evicts_def w)
      then show ?thesis
        using fold_onEvicted[OF ok evv, of j l, folded evicts_def] se[OF j, of l] j w(2) by simp
    qed
  qed (use vec ev w peek g' in auto)
qed

lemma evicts_key:
  assumes ok: "counters_inv L c w" and m: "map_of (c_metrics c) n = Some m" "m_vec m = CounterVec i" and a: "slice_ok c w a"
    and ev: "\<And>k x. (k, x) \<in> set ev \<Longrightarrow> ((cached L c)(getKey n (w_slices w ! a) \<mapsto> \<lparr>cv_labels = a, cv_value = v, cv_vec = i\<rparr>)) k = Some x"
    and m': "map_of (c_metrics c) n' = Some m'" "m_vec m' = CounterVec j" and l': "\<forall>x \<in> set l'. valid_utf8 x"
  shows "evicts w ev j l' \<longleftrightarrow> getKey n' l' \<in> fst ` set ev"
proof -
  have mok: "metrics_ok L c w" and snd: "cache_sound L c w" using ok by (simp_all add: counters_inv_def)
  note names = metrics_okD(2)[OF mok] and vals = slice_okD(3) and own = metrics_okD(5)[OF mok]
  have entry: "\<exists>n0 m0. map_of (c_metrics c) n0 = Some m0 \<and> m_vec m0 = CounterVec (cv_vec x) \<and> slice_ok c w (cv_labels x)
      \<and> k = getKey n0 (w_slices w ! cv_labels x)" if "(k, x) \<in> set ev" for k x
    using cache_sound_upd[OF snd m a ev[OF that]] by metis
  have iff: "k = getKey n' l' \<longleftrightarrow> cv_vec x = j \<and> w_slices w ! cv_labels x = l'" if kx: "(k, x) \<in> set ev" for k x
  proof -
    obtain n0 m0 where e: "map_of (c_metrics c) n0 = Some m0" "m_vec m0 = CounterVec (cv_vec x)" "slice_ok c w (cv_labels x)"
        "k = getKey n0 (w_slices w ! cv_labels x)" using entry[OF kx] by blast
    have "n0 = n' \<longleftrightarrow> cv_vec x = j"
      using own[OF e(1) m'(1)] e m' by auto
    then show ?thesis
      using getKey_inj[OF names[OF e(1)] names[OF m'(1)] vals[OF e(3)] l'] unfolding e(4) by metis
  qed
  show ?thesis unfolding evicts_def by (auto simp: iff image_iff) (use iff in force)+
qed

lemma metrics_ok_frame:
  assumes "metrics_ok L c w" "c_metrics c' = c_metrics c" "getAllLabels c' = getAllLabels c" "w_slices w' = w_slices w"
    "length (w_vecs w') = length (w_vecs w)"
    "\<And>j. j < length (w_vecs w) \<Longrightarrow> same_desc (lib_vec L) (w_vecs w ! j) (w_vecs w' ! j)"
  shows "metrics_ok L c' w'"
  unfolding metrics_ok_def assms(2-5)
proof (intro conjI allI impI)
  fix n m assume "map_of (c_metrics c) n = Some m"
  note D = metrics_okD(1-4)[OF assms(1) this]
  then show "m_name m = n" "valid_utf8 n" "vec_index (m_vec m) < length (w_vecs w)" by auto
  show "vec_labels (lib_vec L) (w_vecs w' ! vec_index (m_vec m)) = getAllLabels c"
    using assms(6)[OF D(3)] D(4) by (simp add: same_desc_def)
next
  fix n n' m m' assume "map_of (c_metrics c) n = Some m" "map_of (c_metrics c) n' = Some m'" "vec_index (m_vec m) = vec_index (m_vec m')"
  then show "n = n'" using metrics_okD(5)[OF assms(1)] by blast
qed

lemma cached_upd [simp]: "cached L (c\<lparr>c_countersCache := Some ca\<rparr>) = lru_peek (lib_lru L) ca"
  by (simp add: cached_def fun_eq_iff)

lemma getAllLabels_cache [simp]: "getAllLabels (c\<lparr>c_countersCache := x\<rparr>) = getAllLabels c"
  by (simp add: getAllLabels_def)

text \<open>A series that exists, or is the one written, has an entry in the updated cache.\<close>

lemma cache_entry_upd:
  assumes inv: "counters_inv L c w" and m: "map_of (c_metrics c) n = Some m" "m_vec m = CounterVec i" and a: "slice_ok c w a"
    and m': "map_of (c_metrics c) n' = Some m'" "m_vec m' = CounterVec j"
    and s: "j = i \<and> l' = w_slices w ! a \<or> series L w j l' \<noteq> None"
  shows "\<exists>cv. ((cached L c)(getKey n (w_slices w ! a) \<mapsto> \<lparr>cv_labels = a, cv_value = v, cv_vec = i\<rparr>)) (getKey n' l') = Some cv
    \<and> cv_vec cv = j \<and> w_slices w ! cv_labels cv = l' \<and> (\<forall>x \<in> set l'. valid_utf8 x)"
proof -
  let ?l = "w_slices w ! a"
  have mok: "metrics_ok L c w" and snd: "cache_sound L c w" and cmp: "cache_complete L c w"
    using inv by (simp_all add: counters_inv_def)
  show ?thesis
  proof (cases "j = i \<and> l' = ?l")
    case True
    then have "n' = n" using metrics_okD(5)[OF mok m'(1) m(1)] m m'(2) by simp
    then show ?thesis using True slice_okD(3)[OF a] by simp
  next
    case False
    then obtain cv where cv: "cached L c (getKey n' l') = Some cv" "cv_vec cv = j" "w_slices w ! cv_labels cv = l'"
      using s cmp m' unfolding cache_complete_def by blast
    have val: "\<forall>x \<in> set l'. valid_utf8 x"
      using cache_soundE[OF snd cv(1)] slice_okD(3) cv(3) by metis
    have "getKey n' l' \<noteq> getKey n ?l"
    proof
      assume "getKey n' l' = getKey n ?l"
      then have "n' = n" "l' = ?l"
        using getKey_inj[OF metrics_okD(2)[OF mok m'(1)] metrics_okD(2)[OF mok m(1)] val slice_okD(3)[OF a]] by simp_all
      then show False using False m m' by simp
    qed
    then show ?thesis using cv val by simp
  qed
qed

lemma counterAdd_inv:
  fixes L :: "('v, 'r, 'c) libs"
  assumes ok: "libs_ok L" and inv: "counters_inv L c w"
    and m: "map_of (c_metrics c) n = Some m" "m_vec m = CounterVec i" and a: "slice_ok c w a"
    and nn: "\<not> flt (counterDelta (cached L c (getKey n (w_slices w ! a))) v) (Fin 0)"
  shows "\<exists>ca' w'. counterAdd L i n a v (c, w) = Inr (c\<lparr>c_countersCache := Some ca'\<rparr>, w')
    \<and> counters_inv L (c\<lparr>c_countersCache := Some ca'\<rparr>) w' \<and> w_slices w' = w_slices w \<and> lru_max (lib_lru L) ca' = cache_max L c
    \<and> (0 < cache_max L c \<longrightarrow> int (card (dom (cached L c))) \<le> cache_max L c \<longrightarrow> int (card (dom (lru_peek (lib_lru L) ca'))) \<le> cache_max L c)"
proof -
  let ?l = "w_slices w ! a" and ?cv = "\<lparr>cv_labels = a, cv_value = v, cv_vec = i\<rparr>"
  let ?k = "getKey n ?l"
  obtain ca' w' vec ev where r: "counterAdd L i n a v (c, w) = Inr (c\<lparr>c_countersCache := Some ca'\<rparr>, w')"
    and "vec_add (lib_vec L) (w_vecs w ! i) ?l (counterDelta (cached L c ?k) v) = Inr vec"
    and fr: "w_slices w' = w_slices w" "w_reg w' = w_reg w" "length (w_vecs w') = length (w_vecs w)" "lru_max (lib_lru L) ca' = cache_max L c"
    and ev: "\<And>k x. (k, x) \<in> set ev \<Longrightarrow> ((cached L c)(?k \<mapsto> ?cv)) k = Some x"
    and pk: "\<And>k. lru_peek (lib_lru L) ca' k = (if k \<in> fst ` set ev then None else ((cached L c)(?k \<mapsto> ?cv)) k)"
    and "0 < cache_max L c \<Longrightarrow> ?k \<notin> fst ` set ev"
    and cap: "0 < cache_max L c \<Longrightarrow> int (card (dom (cached L c))) \<le> cache_max L c \<Longrightarrow>
      int (card (dom (lru_peek (lib_lru L) ca'))) \<le> cache_max L c"
    and "cache_max L c = 0 \<or> int (card (insert ?k (dom (cached L c)))) \<le> cache_max L c \<Longrightarrow> ev = []"
    and sd: "\<And>j. j < length (w_vecs w) \<Longrightarrow> same_desc (lib_vec L) (w_vecs w ! j) (w_vecs w' ! j)"
    and se: "\<And>j l. j < length (w_vecs w) \<Longrightarrow> series L w' j l = (if evicts w ev j l then None
        else if j = i \<and> l = ?l then vec_value (lib_vec L) vec l else series L w j l)"
    and "vec_value (lib_vec L) vec ?l \<noteq> None"
    by (rule counterAdd_effect[OF assms]) (rule that; assumption)
  have mok: "metrics_ok L c w" and snd: "cache_sound L c w" and cmp: "cache_complete L c w"
    using inv by (simp_all add: counters_inv_def)
  let ?c = "c\<lparr>c_countersCache := Some ca'\<rparr>"
  have "cache_sound L ?c w'"
    unfolding cache_sound_def
  proof (intro allI impI)
    fix k cv assume "cached L ?c k = Some cv"
    then have "((cached L c)(?k \<mapsto> ?cv)) k = Some cv" by (simp add: pk split: if_splits)
    from cache_sound_upd[OF snd m a this]
    show "slice_ok ?c w' (cv_labels cv) \<and> (\<exists>n m. map_of (c_metrics ?c) n = Some m \<and> m_vec m = CounterVec (cv_vec cv)
          \<and> k = getKey n (w_slices w' ! cv_labels cv))" unfolding fr slice_ok_def by simp metis
  qed
  moreover have "cache_complete L ?c w'"
    unfolding cache_complete_def
  proof (intro allI impI)
    fix n' m' j l' assume m': "map_of (c_metrics ?c) n' = Some m'" "m_vec m' = CounterVec j" and s: "series L w' j l' \<noteq> None"
    then have m'': "map_of (c_metrics c) n' = Some m'" by simp
    have j: "j < length (w_vecs w)" using metrics_okD(3)[OF mok m''] m'(2) by simp
    have nev: "\<not> evicts w ev j l'" using s se[OF j] by (auto split: if_splits)
    have "j = i \<and> l' = ?l \<or> series L w j l' \<noteq> None" using s se[OF j, of l'] nev by auto
    from cache_entry_upd[OF inv m a m'' m'(2) this, of v]
    obtain cv where cv: "((cached L c)(?k \<mapsto> ?cv)) (getKey n' l') = Some cv" "cv_vec cv = j" "w_slices w ! cv_labels cv = l'"
        "\<forall>x \<in> set l'. valid_utf8 x" by blast
    have "getKey n' l' \<notin> fst ` set ev" using evicts_key[OF inv m a ev m'' m'(2) cv(4)] nev by blast
    then have "cached L ?c (getKey n' l') = Some cv" using cv(1) by (simp add: pk)
    then show "\<exists>cv. cached L ?c (getKey n' l') = Some cv \<and> cv_vec cv = j \<and> w_slices w' ! cv_labels cv = l'"
      using cv fr by auto
  qed
  moreover have "metrics_ok L ?c w'" by (rule metrics_ok_frame[OF mok]) (use fr sd in simp_all)
  ultimately have "counters_inv L ?c w'" by (simp add: counters_inv_def)
  then show ?thesis using r fr cap by blast
qed

section \<open>The reading of a counter\<close>

text \<open>
  What a counter must show: the last value seen and the total of the increments, where a value
  below the last one means that the source was reset.
\<close>

fun counter_spec :: "(int \<times> int) option \<Rightarrow> int \<Rightarrow> (int \<times> int) option" where
  "counter_spec None v = Some (v, v)"
| "counter_spec (Some (p, t)) v = Some (v, t + (if v < p then v else v - p))"

definition reading :: "int list \<Rightarrow> (int \<times> int) option" where
  "reading vs = fold (\<lambda>v st. counter_spec st v) vs None"

text \<open>The cache and the vector agree with such a reading.\<close>

definition tracks :: "('v, 'r, 'c) libs \<Rightarrow> 'c collector \<Rightarrow> ('v, 'r) world \<Rightarrow> string \<Rightarrow> nat \<Rightarrow> string list \<Rightarrow> (int \<times> int) option \<Rightarrow> bool" where
  "tracks L c w n i l st = (case st of
      None \<Rightarrow> cached L c (getKey n l) = None \<and> series L w i l = None
    | Some (p, t) \<Rightarrow> (\<exists>cv. cached L c (getKey n l) = Some cv \<and> cv_value cv = Fin (of_int p)) \<and> series L w i l = Some (Fin (of_int t))
        \<and> 0 \<le> p \<and> p \<le> t)"

lemma tracks_delta:
  assumes "tracks L c w n i l st" "0 \<le> v" "counter_spec st v = Some (v, t')" "t' \<le> 2 ^ 53"
  obtains d where "counterDelta (cached L c (getKey n l)) (Fin (of_int v)) = Fin (of_int d)" "0 \<le> d"
    "t' = (case st of None \<Rightarrow> 0 | Some (p, t) \<Rightarrow> t) + d" "v \<le> t'"
proof (cases st)
  case None
  then have c: "cached L c (getKey n l) = None" "t' = v" using assms(1,3) by (simp_all add: tracks_def)
  show thesis by (rule that[of v]) (simp_all add: counterDelta_def c None assms(2))
next
  case (Some pt)
  obtain p t where pt: "pt = (p, t)" by (cases pt)
  then obtain cv where cv: "cached L c (getKey n l) = Some cv" "cv_value cv = Fin (of_int p)" "0 \<le> p" "p \<le> t"
    using assms(1) Some by (auto simp: tracks_def)
  have t': "t' = t + (if v < p then v else v - p)" using assms(3) Some pt by simp
  have "fsub (Fin (of_int v)) (Fin (of_int p)) = Fin (of_int (v - p))" if "p \<le> v"
  proof (rule fsub_int)
    have "\<bar>v - p\<bar> \<le> t'" using cv(3,4) that t' by simp
    then show "\<bar>v - p\<bar> \<le> 2 ^ 53" using assms(4) by (rule order_trans)
  qed
  then have "counterDelta (cached L c (getKey n l)) (Fin (of_int v)) = Fin (of_int (if v < p then v else v - p))"
    by (simp add: counterDelta_def cv)
  then show thesis using that[of "if v < p then v else v - p"] assms(2) cv(3,4) t' Some pt by simp
qed

text \<open>One value of the source: the reading of its series advances, no other reading changes.\<close>

text \<open>The total of a counter after an increment, and the counters the increment does not concern.\<close>

lemma tracked_total:
  assumes "libs_ok L" "tracks L c w n i l st" "0 \<le> d" "(case st of None \<Rightarrow> 0 | Some (p, t) \<Rightarrow> t) + d \<le> 2 ^ 53"
    "vec_add (lib_vec L) (w_vecs w ! i) l (Fin (of_int d)) = Inr vec"
  shows "vec_value (lib_vec L) vec l = Some (Fin (of_int ((case st of None \<Rightarrow> 0 | Some (p, t) \<Rightarrow> t) + d)))"
proof (rule vec_add_int[OF assms(1) _ assms(3,4) _ assms(5)])
  show "0 \<le> (case st of None \<Rightarrow> 0 | Some (p, t) \<Rightarrow> t)" using assms(2) by (auto simp: tracks_def split: option.splits)
  show "vec_value (lib_vec L) (w_vecs w ! i) l = Some (Fin (of_int (case st of None \<Rightarrow> 0 | Some (p, t) \<Rightarrow> t)))
      \<or> vec_value (lib_vec L) (w_vecs w ! i) l = None \<and> (case st of None \<Rightarrow> 0 | Some (p, t) \<Rightarrow> t) = 0"
    using assms(2) by (auto simp: tracks_def series_def split: option.splits)
qed

lemma tracks_other:
  assumes mok: "metrics_ok L c w" and m: "map_of (c_metrics c) n = Some m" "m_vec m = CounterVec i" and l: "\<forall>x \<in> set l. valid_utf8 x"
    and n': "map_of (c_metrics c) n' = Some m'" "m_vec m' = CounterVec j" "(n', l') \<noteq> (n, l)" "\<forall>x \<in> set l'. valid_utf8 x"
    and pk: "cached L c' = (cached L c)(getKey n l \<mapsto> cv)"
    and se: "\<And>j l'. j < length (w_vecs w) \<Longrightarrow> \<not> (j = i \<and> l' = l) \<Longrightarrow> series L w' j l' = series L w j l'"
    and t: "tracks L c w n' j l' st2"
  shows "tracks L c' w' n' j l' st2"
proof -
  have j: "j < length (w_vecs w)" using metrics_okD(3)[OF mok n'(1)] n'(2) by simp
  have "getKey n' l' \<noteq> getKey n l"
    using getKey_inj[OF metrics_okD(2)[OF mok n'(1)] metrics_okD(2)[OF mok m(1)] n'(4) l] n'(3) by simp
  moreover have "\<not> (j = i \<and> l' = l)" using metrics_okD(5)[OF mok n'(1) m(1)] n' m(2) by auto
  ultimately have "cached L c' (getKey n' l') = cached L c (getKey n' l')" "series L w' j l' = series L w j l'" using pk se[OF j] by auto
  then show ?thesis using t unfolding tracks_def by (cases st2) auto
qed

lemma counterAdd_tracks:
  fixes L :: "('v, 'r, 'c) libs"
  assumes ok: "libs_ok L" and inv: "counters_inv L c w"
    and m: "map_of (c_metrics c) n = Some m" "m_vec m = CounterVec i" and a: "slice_ok c w a"
    and tr: "tracks L c w n i (w_slices w ! a) st" and v: "0 \<le> v"
    and st': "counter_spec st v = Some (v, t')" "t' \<le> 2 ^ 53"
    and room: "cache_max L c = 0 \<or> int (card (insert (getKey n (w_slices w ! a)) (dom (cached L c)))) \<le> cache_max L c"
  shows "\<exists>ca' w'. counterAdd L i n a (Fin (of_int v)) (c, w) = Inr (c\<lparr>c_countersCache := Some ca'\<rparr>, w')
    \<and> counters_inv L (c\<lparr>c_countersCache := Some ca'\<rparr>) w' \<and> w_slices w' = w_slices w
    \<and> lru_max (lib_lru L) ca' = cache_max L c
    \<and> dom (lru_peek (lib_lru L) ca') = insert (getKey n (w_slices w ! a)) (dom (cached L c))
    \<and> tracks L (c\<lparr>c_countersCache := Some ca'\<rparr>) w' n i (w_slices w ! a) (Some (v, t'))
    \<and> (\<forall>n' m' j l' st2. map_of (c_metrics c) n' = Some m' \<longrightarrow> m_vec m' = CounterVec j \<longrightarrow> (n', l') \<noteq> (n, w_slices w ! a) \<longrightarrow>
         (\<forall>x \<in> set l'. valid_utf8 x) \<longrightarrow> tracks L c w n' j l' st2 \<longrightarrow> tracks L (c\<lparr>c_countersCache := Some ca'\<rparr>) w' n' j l' st2)"
proof -
  let ?l = "w_slices w ! a" and ?cv = "\<lparr>cv_labels = a, cv_value = Fin (of_int v), cv_vec = i\<rparr>"
  let ?k = "getKey n ?l"
  obtain d where d: "counterDelta (cached L c ?k) (Fin (of_int v)) = Fin (of_int d)" "0 \<le> d"
      "t' = (case st of None \<Rightarrow> 0 | Some (p, t) \<Rightarrow> t) + d" "v \<le> t'"
    by (rule tracks_delta[OF tr v st'])
  have nn: "\<not> flt (counterDelta (cached L c ?k) (Fin (of_int v))) (Fin 0)" using d by simp
  obtain ca' w' vec ev where r: "counterAdd L i n a (Fin (of_int v)) (c, w) = Inr (c\<lparr>c_countersCache := Some ca'\<rparr>, w')"
    and vec: "vec_add (lib_vec L) (w_vecs w ! i) ?l (counterDelta (cached L c ?k) (Fin (of_int v))) = Inr vec"
    and fr: "w_slices w' = w_slices w" "w_reg w' = w_reg w" "length (w_vecs w') = length (w_vecs w)" "lru_max (lib_lru L) ca' = cache_max L c"
    and "\<And>k x. (k, x) \<in> set ev \<Longrightarrow> ((cached L c)(?k \<mapsto> ?cv)) k = Some x"
    and pk: "\<And>k. lru_peek (lib_lru L) ca' k = (if k \<in> fst ` set ev then None else ((cached L c)(?k \<mapsto> ?cv)) k)"
    and "0 < cache_max L c \<Longrightarrow> ?k \<notin> fst ` set ev"
    and "0 < cache_max L c \<Longrightarrow> int (card (dom (cached L c))) \<le> cache_max L c \<Longrightarrow>
      int (card (dom (lru_peek (lib_lru L) ca'))) \<le> cache_max L c"
    and none: "cache_max L c = 0 \<or> int (card (insert ?k (dom (cached L c)))) \<le> cache_max L c \<Longrightarrow> ev = []"
    and "\<And>j. j < length (w_vecs w) \<Longrightarrow> same_desc (lib_vec L) (w_vecs w ! j) (w_vecs w' ! j)"
    and se: "\<And>j l. j < length (w_vecs w) \<Longrightarrow> series L w' j l = (if evicts w ev j l then None
        else if j = i \<and> l = ?l then vec_value (lib_vec L) vec l else series L w j l)"
    and "vec_value (lib_vec L) vec ?l \<noteq> None"
    by (rule counterAdd_effect[OF ok inv m a nn]) (rule that; assumption)
  let ?c = "c\<lparr>c_countersCache := Some ca'\<rparr>"
  have mok: "metrics_ok L c w" using inv by (simp add: counters_inv_def)
  have ev: "ev = []" using none room by blast
  have pk': "lru_peek (lib_lru L) ca' = (cached L c)(?k \<mapsto> ?cv)" using pk ev by auto
  have i: "i < length (w_vecs w)" using metrics_okD(3)[OF mok m(1)] m(2) by simp
  have se': "j < length (w_vecs w) \<Longrightarrow> series L w' j l = (if j = i \<and> l = ?l then vec_value (lib_vec L) vec l else series L w j l)" for j l
    using se[of j l] ev by (simp add: evicts_def)
  have "counters_inv L ?c w'" using counterAdd_inv[OF ok inv m a nn] r by auto
  moreover have "vec_value (lib_vec L) vec ?l = Some (Fin (of_int t'))"
    using tracked_total[OF ok tr d(2) _ vec[unfolded d(1)]] st'(2) d(3) by simp
  then have "tracks L ?c w' n i ?l (Some (v, t'))" using pk' se'[OF i] v d(4) by (simp add: tracks_def)
  moreover have cac: "cached L ?c = (cached L c)(?k \<mapsto> ?cv)" by (simp add: fun_eq_iff cached_def pk'[unfolded cached_def])
  have "tracks L ?c w' n' j l' st2" if n': "map_of (c_metrics c) n' = Some m'" "m_vec m' = CounterVec j"
      "(n', l') \<noteq> (n, ?l)" "\<forall>x \<in> set l'. valid_utf8 x" and t: "tracks L c w n' j l' st2" for n' m' j l' st2
    by (rule tracks_other[OF mok m slice_okD(3)[OF a] n' cac _ t]) (use se' in auto)
  moreover have "dom (lru_peek (lib_lru L) ca') = insert ?k (dom (cached L c))" by (simp add: pk')
  ultimately show ?thesis using r fr(1,4) by blast
qed

text \<open>A sequence of values, for any series in any order: each entry is a metric, the slice of its labels, a value.\<close>

fun counterAdds :: "('v, 'r, 'c) libs \<Rightarrow> (string \<times> nat \<times> nat \<times> int) list
    \<Rightarrow> 'c collector \<times> ('v, 'r) world \<Rightarrow> ('c collector \<times> ('v, 'r) world) result" where
  "counterAdds L [] s = Inr s"
| "counterAdds L ((n, i, a, v) # xs) s = bind_result (counterAdd L i n a (float_of_int v) s) (counterAdds L xs)"

definition values_of :: "('v, 'r) world \<Rightarrow> string \<Rightarrow> string list \<Rightarrow> (string \<times> nat \<times> nat \<times> int) list \<Rightarrow> int list" where
  "values_of w n l xs = map (\<lambda>(n, i, a, v). v) (filter (\<lambda>(n', i, a, v). n' = n \<and> w_slices w ! a = l) xs)"

definition key_of :: "('v, 'r) world \<Rightarrow> string \<times> nat \<times> nat \<times> int \<Rightarrow> string" where
  "key_of w x = (case x of (n, i, a, v) \<Rightarrow> getKey n (w_slices w ! a))"

definition step_ok :: "'c collector \<Rightarrow> ('v, 'r) world \<Rightarrow> string \<times> nat \<times> nat \<times> int \<Rightarrow> bool" where
  "step_ok c w x = (case x of (n, i, a, v) \<Rightarrow>
     (\<exists>m. map_of (c_metrics c) n = Some m \<and> m_vec m = CounterVec i) \<and> slice_ok c w a \<and> 0 \<le> v)"

definition read_on :: "int list \<Rightarrow> (int \<times> int) option \<Rightarrow> (int \<times> int) option" where
  "read_on vs st = fold (\<lambda>v st. counter_spec st v) vs st"

definition below :: "(int \<times> int) option \<Rightarrow> bool" where
  "below st = (case st of None \<Rightarrow> True | Some (p, t) \<Rightarrow> t \<le> 2 ^ 53)"

lemma counter_spec_Some: "\<exists>t. counter_spec st v = Some (v, t)"
  by (cases "(st, v)" rule: counter_spec.cases) auto

lemma read_on_mono:
  assumes "\<forall>v \<in> set vs. 0 \<le> v"
  shows "\<exists>p' t'. read_on vs (Some (p, t)) = Some (p', t') \<and> t \<le> t'"
  using assms
proof (induction vs arbitrary: p t)
  case (Cons v vs)
  let ?t = "t + (if v < p then v else v - p)"
  obtain p' t' where "read_on vs (Some (v, ?t)) = Some (p', t')" "?t \<le> t'" using Cons.IH[of v ?t] Cons.prems by auto
  moreover have "t \<le> ?t" using Cons.prems by simp
  ultimately show ?case by (simp add: read_on_def)
qed (simp add: read_on_def)

lemma below_first:
  assumes "\<forall>u \<in> set vs. 0 \<le> u" "below (read_on (v # vs) st)" "counter_spec st v = Some (v, t)"
  shows "t \<le> 2 ^ 53"
proof -
  obtain p' t' where "read_on vs (Some (v, t)) = Some (p', t')" "t \<le> t'" using read_on_mono[OF assms(1)] by blast
  then show ?thesis using assms(2,3) by (simp add: read_on_def below_def)
qed

definition readings :: "('v, 'r, 'c) libs \<Rightarrow> 'c collector \<Rightarrow> ('v, 'r) world \<Rightarrow> (string \<Rightarrow> string list \<Rightarrow> (int \<times> int) option) \<Rightarrow> bool" where
  "readings L c w R = (\<forall>n m i l. map_of (c_metrics c) n = Some m \<longrightarrow> m_vec m = CounterVec i \<longrightarrow>
     (\<forall>x \<in> set l. valid_utf8 x) \<longrightarrow> tracks L c w n i l (R n l))"

lemma readings_step:
  assumes R: "readings L c w R" and m: "map_of (c_metrics c) n = Some m" "m_vec m = CounterVec i" and c': "c_metrics c' = c_metrics c"
    and new: "tracks L c' w' n i l st"
    and old: "\<And>n' m' j l' st2. map_of (c_metrics c) n' = Some m' \<Longrightarrow> m_vec m' = CounterVec j \<Longrightarrow> (n', l') \<noteq> (n, l) \<Longrightarrow>
         \<forall>x \<in> set l'. valid_utf8 x \<Longrightarrow> tracks L c w n' j l' st2 \<Longrightarrow> tracks L c' w' n' j l' st2"
  shows "readings L c' w' (\<lambda>n' l'. if (n', l') = (n, l) then st else R n' l')"
  unfolding readings_def
proof (intro allI impI)
  fix n' m' j l' assume n': "map_of (c_metrics c') n' = Some m'" "m_vec m' = CounterVec j" "\<forall>x \<in> set l'. valid_utf8 x"
  show "tracks L c' w' n' j l' (if (n', l') = (n, l) then st else R n' l')"
  proof (cases "(n', l') = (n, l)")
    case True
    then show ?thesis using new n' m c' by simp
  next
    case False
    moreover have "tracks L c w n' j l' (R n' l')" using R n' c' unfolding readings_def by auto
    ultimately show ?thesis using old[of n' m' j l'] n' c' by auto
  qed
qed

lemma counterAdds_run:
  fixes L :: "('v, 'r, 'c) libs"
  assumes ok: "libs_ok L" and inv: "counters_inv L c w" and steps: "\<forall>x \<in> set xs. step_ok c w x"
    and K: "finite K" "dom (cached L c) \<subseteq> K" "key_of w ` set xs \<subseteq> K" "cache_max L c = 0 \<or> int (card K) \<le> cache_max L c"
    and R: "readings L c w R" and bnd: "\<forall>n l. below (read_on (values_of w n l xs) (R n l))"
  shows "\<exists>c' w'. counterAdds L xs (c, w) = Inr (c', w') \<and> counters_inv L c' w' \<and> c_metrics c' = c_metrics c
    \<and> readings L c' w' (\<lambda>n l. read_on (values_of w n l xs) (R n l))"
  using inv steps K(2-4) R bnd
proof (induction xs arbitrary: c w R)
  case Nil
  then show ?case by (auto simp: values_of_def read_on_def)
next
  case (Cons x xs)
  obtain n i a v where x: "x = (n, i, a, v)" by (cases x)
  obtain m where m: "map_of (c_metrics c) n = Some m" "m_vec m = CounterVec i" and a: "slice_ok c w a" and v: "0 \<le> v"
    using Cons.prems(2) x by (auto simp: step_ok_def)
  let ?l = "w_slices w ! a"
  have mok: "metrics_ok L c w" using Cons.prems(1) by (simp add: counters_inv_def)
  have tr: "tracks L c w n i ?l (R n ?l)"
    using Cons.prems(6) m slice_okD(3)[OF a] unfolding readings_def by blast
  obtain t where t: "counter_spec (R n ?l) v = Some (v, t)" using counter_spec_Some by blast
  have "values_of w n ?l (x # xs) = v # values_of w n ?l xs" by (simp add: values_of_def x)
  moreover have "\<forall>u \<in> set (values_of w n ?l xs). 0 \<le> u" using Cons.prems(2) by (auto simp: values_of_def step_ok_def)
  ultimately have t2: "t \<le> 2 ^ 53" using below_first t Cons.prems(7) by metis
  have "v \<le> t" using tracks_delta[OF tr v t t2] by metis
  then have fv: "float_of_int v = Fin (of_int v)" using v t2 by (intro float_of_int_exact) simp
  have "insert (getKey n ?l) (dom (cached L c)) \<subseteq> K" using Cons.prems(3,4) x by (auto simp: key_of_def)
  then have "card (insert (getKey n ?l) (dom (cached L c))) \<le> card K" using K(1) by (rule card_mono[rotated])
  then have room: "cache_max L c = 0 \<or> int (card (insert (getKey n ?l) (dom (cached L c)))) \<le> cache_max L c"
    using Cons.prems(5) by linarith
  obtain ca' w' where s: "counterAdd L i n a (Fin (of_int v)) (c, w) = Inr (c\<lparr>c_countersCache := Some ca'\<rparr>, w')"
      "counters_inv L (c\<lparr>c_countersCache := Some ca'\<rparr>) w'" "w_slices w' = w_slices w" "lru_max (lib_lru L) ca' = cache_max L c"
      "dom (lru_peek (lib_lru L) ca') = insert (getKey n ?l) (dom (cached L c))"
      "tracks L (c\<lparr>c_countersCache := Some ca'\<rparr>) w' n i ?l (Some (v, t))"
      "\<And>n' m' j l' st2. map_of (c_metrics c) n' = Some m' \<Longrightarrow> m_vec m' = CounterVec j \<Longrightarrow> (n', l') \<noteq> (n, ?l) \<Longrightarrow>
         \<forall>x \<in> set l'. valid_utf8 x \<Longrightarrow> tracks L c w n' j l' st2 \<Longrightarrow> tracks L (c\<lparr>c_countersCache := Some ca'\<rparr>) w' n' j l' st2"
    using counterAdd_tracks[OF ok Cons.prems(1) m a tr v t t2 room] by blast
  let ?c = "c\<lparr>c_countersCache := Some ca'\<rparr>" and ?R = "\<lambda>n' l'. if (n', l') = (n, ?l) then Some (v, t) else R n' l'"
  have vals: "values_of w' = values_of w" "key_of w' = key_of w" by (simp_all add: values_of_def key_of_def s(3) fun_eq_iff)
  have adv: "read_on (values_of w n' l' xs) (?R n' l') = read_on (values_of w n' l' (x # xs)) (R n' l')" for n' l'
    using t by (auto simp: values_of_def x read_on_def)
  have "\<exists>c' w''. counterAdds L xs (?c, w') = Inr (c', w'') \<and> counters_inv L c' w'' \<and> c_metrics c' = c_metrics ?c
      \<and> readings L c' w'' (\<lambda>n l. read_on (values_of w' n l xs) (?R n l))"
  proof (rule Cons.IH[OF s(2)])
    show "\<forall>x \<in> set xs. step_ok ?c w' x" using Cons.prems(2) by (auto simp: step_ok_def slice_ok_def s(3))
    show "dom (cached L ?c) \<subseteq> K" using Cons.prems(3,4) s(5) x by (auto simp: key_of_def)
    show "key_of w' ` set xs \<subseteq> K" using Cons.prems(4) vals by auto
    show "cache_max L ?c = 0 \<or> int (card K) \<le> cache_max L ?c" using Cons.prems(5) s(4) by (simp add: cache_max_def)
    show "readings L ?c w' ?R" by (rule readings_step[OF Cons.prems(6) m _ s(6,7)]) simp
    show "\<forall>n l. below (read_on (values_of w' n l xs) (?R n l))" using Cons.prems(7) adv vals by metis
  qed
  from this[unfolded vals adv] show ?case using s(1) by (simp add: x fv)
qed

lemma reading_sorted:
  "sorted vs \<Longrightarrow> vs \<noteq> [] \<Longrightarrow> reading vs = Some (last vs, last vs)"
proof (induction vs rule: rev_induct)
  case (snoc v vs)
  show ?case
  proof (cases "vs = []")
    case False
    then have "reading vs = Some (last vs, last vs)" "last vs \<le> v" using snoc by (auto simp: sorted_append)
    then show ?thesis by (simp add: reading_def)
  qed (simp add: reading_def)
qed simp

end
