(* ===== verification/Collector_Gauges.thy ===== *)
theory Collector_Gauges
  imports Collector_Counters
begin

text \<open>
  A whole run of \<^verbatim>\<open>collectLocked\<close>: the rows of a query whose label columns come before its
  metric columns.  The run does not panic, keeps the correspondence of the counter cache, and
  leaves each gauge with exactly the series the rows report.
\<close>

section \<open>Increments\<close>

lemma round64_nonneg: "0 \<le> x \<Longrightarrow> \<not> flt (round64 x) (Fin 0)"
  using rnd_nonneg[of x] by (auto simp: round64_def Let_def)

lemma counterDelta_nonneg: "\<not> flt v (Fin 0) \<Longrightarrow> \<not> flt (counterDelta hit v) (Fin 0)"
proof (cases hit)
  case (Some cv)
  assume v: "\<not> flt v (Fin 0)"
  have "\<not> flt (fsub v p) (Fin 0)" if "\<not> flt v p" for p
    using v that round64_nonneg by (cases v; cases p) (auto simp: fsub_def)
  then show ?thesis using v Some by (simp add: counterDelta_def)
qed (simp add: counterDelta_def)

section \<open>The columns of a row\<close>

definition set_labels :: "'c collector \<Rightarrow> (string \<times> dbvalue) list \<Rightarrow> string list \<Rightarrow> string list" where
  "set_labels c cols ls = fold (\<lambda>(col, v) ls. case (map_of (c_labelMap c) col, v) of
     (Some pos, DString s) \<Rightarrow> ls[pos := s] | _ \<Rightarrow> ls) cols ls"

definition is_label :: "'c collector \<Rightarrow> string \<Rightarrow> bool" where
  "is_label c col = (map_of (c_labelMap c) col \<noteq> None)"

lemma collect_cols_append:
  "collect_cols L a (xs @ ys) s = bind_result (collect_cols L a xs s) (collect_cols L a ys)"
  by (induction xs arbitrary: s) (auto simp: bind_result_def split: sum.splits)

lemma collect_cols_labels:
  assumes "\<forall>x \<in> set xs. is_label c (fst x)" "a < length (w_slices w)"
  shows "collect_cols L a xs (c, w, cur) = Inr (c, w\<lparr>w_slices := (w_slices w)[a := set_labels c xs (w_slices w ! a)]\<rparr>, cur)"
  using assms
proof (induction xs arbitrary: w)
  case (Cons x xs)
  obtain col v pos where x: "x = (col, v)" "map_of (c_labelMap c) col = Some pos"
    using Cons.prems(1) by (cases x) (auto simp: is_label_def)
  show ?case
  proof (cases v)
    case (DString s)
    then show ?thesis using Cons x by (simp add: collect_col_def set_label_def set_labels_def)
  qed (use Cons x in \<open>simp_all add: collect_col_def set_labels_def\<close>)
qed (simp add: set_labels_def)

definition tbl :: "gauge_table \<Rightarrow> string \<Rightarrow> string \<Rightarrow> nat option" where
  "tbl cur g i = (case map_of cur g of None \<Rightarrow> None | Some t \<Rightarrow> map_of t i)"

lemma tbl_track: "tbl (track_gauge col i a cur) g k = (if g = col \<and> k = i then Some a else tbl cur g k)"
  by (auto simp: tbl_def track_gauge_def split: option.splits)

lemma tbl_Nil [simp]: "tbl [] g i = None"
  by (simp add: tbl_def)

text \<open>What a row does to the series of gauge \<^verbatim>\<open>g\<close> that has its labels.\<close>

definition gauge_write :: "(string \<times> dbvalue) list \<Rightarrow> string \<Rightarrow> float64 option \<Rightarrow> float64 option" where
  "gauge_write cols g old = (case map_of cols g of None \<Rightarrow> old
     | Some v \<Rightarrow> (case metric_value v of None \<Rightarrow> old | Some x \<Rightarrow> Some x))"

definition counters_nonneg :: "'c collector \<Rightarrow> (string \<times> dbvalue) list \<Rightarrow> bool" where
  "counters_nonneg c cols = (\<forall>(col, v) \<in> set cols. \<forall>m i x. map_of (c_metrics c) col = Some m \<longrightarrow>
     m_vec m = CounterVec i \<longrightarrow> metric_value v = Some x \<longrightarrow> \<not> flt x (Fin 0))"

text \<open>The state before and after some metric columns of a row with labels in slice \<^verbatim>\<open>a\<close>.\<close>

definition row_step :: "('v, 'r, 'c) libs \<Rightarrow> nat \<Rightarrow> (string \<times> dbvalue) list \<Rightarrow> ('v, 'r, 'c) cstate \<Rightarrow> ('v, 'r, 'c) cstate \<Rightarrow> bool" where
  "row_step L a cols s s' = (case (s, s') of ((c, w, cur), (c', w', cur')) \<Rightarrow>
     (\<exists>ca. c' = c\<lparr>c_countersCache := ca\<rparr>) \<and> counters_inv L c' w' \<and> w_slices w' = w_slices w
     \<and> length (w_vecs w') = length (w_vecs w)
     \<and> (\<forall>g m i l. map_of (c_metrics c) g = Some m \<longrightarrow> m_vec m = GaugeVec i \<longrightarrow>
          series L w' i l = (if l = w_slices w ! a then gauge_write cols g (series L w i l) else series L w i l))
     \<and> (\<forall>g k. tbl cur' g k = (if (\<exists>m i. map_of (c_metrics c) g = Some m \<and> m_vec m = GaugeVec i) \<and> g \<in> fst ` set cols
            \<and> k = join ''|'' (w_slices w ! a) then Some a else tbl cur g k)))"

lemma row_step_refl:
  assumes "counters_inv L c w" "\<And>g m i. map_of (c_metrics c) g = Some m \<Longrightarrow> m_vec m = GaugeVec i \<Longrightarrow> g \<notin> fst ` set cols"
  shows "row_step L a cols (c, w, cur) (c, w, cur)"
proof -
  have "map_of cols g = None" if "map_of (c_metrics c) g = Some m" "m_vec m = GaugeVec i" for g m i
    using assms(2)[OF that] by (auto simp: map_of_eq_None_iff)
  then have "gauge_write cols g old = old" if "map_of (c_metrics c) g = Some m" "m_vec m = GaugeVec i" for g m i old
    using that by (simp add: gauge_write_def)
  moreover have "\<exists>ca. c = c\<lparr>c_countersCache := ca\<rparr>" by (rule exI[of _ "c_countersCache c"]) simp
  moreover have "\<not> ((\<exists>m i. map_of (c_metrics c) g = Some m \<and> m_vec m = GaugeVec i) \<and> g \<in> fst ` set cols \<and> k = k')" for g and k k' :: string
    using assms(2) by blast
  ultimately show ?thesis using assms(1) unfolding row_step_def prod.case by (intro conjI) (simp_all only: if_False, auto)
qed

lemma counter_col_step:
  fixes L :: "('v, 'r, 'c) libs"
  assumes ok: "libs_ok L" and inv: "counters_inv L c w" and a: "slice_ok c w a"
    and m: "map_of (c_metrics c) n = Some m" "m_vec m = CounterVec i" and x: "\<not> flt x (Fin 0)"
  shows "\<exists>c' w'. counterAdd L i n a x (c, w) = Inr (c', w') \<and> row_step L a [(n, v)] (c, w, cur) (c', w', cur)"
proof -
  let ?l = "w_slices w ! a" and ?cv = "\<lparr>cv_labels = a, cv_value = x, cv_vec = i\<rparr>"
  let ?k = "getKey n ?l"
  note nn = counterDelta_nonneg[OF x, of "cached L c ?k"]
  obtain ca' w' vec ev where r: "counterAdd L i n a x (c, w) = Inr (c\<lparr>c_countersCache := Some ca'\<rparr>, w')"
    and "vec_add (lib_vec L) (w_vecs w ! i) ?l (counterDelta (cached L c ?k) x) = Inr vec"
    and fr: "w_slices w' = w_slices w" "w_reg w' = w_reg w" "length (w_vecs w') = length (w_vecs w)" "lru_max (lib_lru L) ca' = cache_max L c"
    and ev: "\<And>k x'. (k, x') \<in> set ev \<Longrightarrow> ((cached L c)(?k \<mapsto> ?cv)) k = Some x'"
    and "\<And>k. lru_peek (lib_lru L) ca' k = (if k \<in> fst ` set ev then None else ((cached L c)(?k \<mapsto> ?cv)) k)"
    and "0 < cache_max L c \<Longrightarrow> ?k \<notin> fst ` set ev"
    and "0 < cache_max L c \<Longrightarrow> int (card (dom (cached L c))) \<le> cache_max L c \<Longrightarrow>
      int (card (dom (lru_peek (lib_lru L) ca'))) \<le> cache_max L c"
    and "cache_max L c = 0 \<or> int (card (insert ?k (dom (cached L c)))) \<le> cache_max L c \<Longrightarrow> ev = []"
    and "\<And>j. j < length (w_vecs w) \<Longrightarrow> same_desc (lib_vec L) (w_vecs w ! j) (w_vecs w' ! j)"
    and se: "\<And>j l. j < length (w_vecs w) \<Longrightarrow> series L w' j l = (if evicts w ev j l then None
        else if j = i \<and> l = ?l then vec_value (lib_vec L) vec l else series L w j l)"
    and "vec_value (lib_vec L) vec ?l \<noteq> None"
    by (rule counterAdd_effect[OF ok inv m a nn]) (rule that; assumption)
  let ?c = "c\<lparr>c_countersCache := Some ca'\<rparr>"
  have mok: "metrics_ok L c w" and snd: "cache_sound L c w" using inv by (simp_all add: counters_inv_def)
  have same: "series L w' j l = series L w j l" if g: "map_of (c_metrics c) g = Some mg" "m_vec mg = GaugeVec j" for g mg j l
  proof -
    have j: "j < length (w_vecs w)" using metrics_okD(3)[OF mok g(1)] g(2) by simp
    have "j \<noteq> i" using metrics_okD(5)[OF mok g(1) m(1)] g m by auto
    moreover have "\<not> evicts w ev j l"
    proof
      assume "evicts w ev j l"
      then obtain e where e: "e \<in> set ev" "cv_vec (snd e) = j" by (auto simp: evicts_def)
      then obtain n' m' where "map_of (c_metrics c) n' = Some m'" "m_vec m' = CounterVec j"
        using cache_sound_upd[OF snd m a ev[of "fst e" "snd e"]] by (metis prod.collapse)
      then show False using metrics_okD(5)[OF mok g(1), of n' m'] g by auto
    qed
    ultimately show ?thesis using se[OF j] by simp
  qed
  have ci: "counters_inv L ?c w'" using counterAdd_inv[OF ok inv m a nn] r by auto
  have ng: "g \<noteq> n" if "map_of (c_metrics c) g = Some mg" "m_vec mg = GaugeVec j" for g mg j using that m by auto
  have "row_step L a [(n, v)] (c, w, cur) (?c, w', cur)"
    unfolding row_step_def using ci fr same ng by (auto simp: gauge_write_def dest: ng)
  then show ?thesis using r by blast
qed

text \<open>Setting a gauge writes one series of its vector.\<close>

lemma gauge_set_step:
  fixes L :: "('v, 'r, 'c) libs"
  assumes ok: "libs_ok L" and mok: "metrics_ok L c w" and a: "slice_ok c w a" and m: "map_of (c_metrics c) n = Some m" "m_vec m = GaugeVec i"
  obtains w' where "(case metric_value v of None \<Rightarrow> Inr w | Some x \<Rightarrow> gaugeSet L i a x w) = Inr w'"
    "w_slices w' = w_slices w" "length (w_vecs w') = length (w_vecs w)"
    "\<And>j. j < length (w_vecs w) \<Longrightarrow> same_desc (lib_vec L) (w_vecs w ! j) (w_vecs w' ! j)"
    "\<And>j l. j < length (w_vecs w) \<Longrightarrow> series L w' j l = (if j = i \<and> l = w_slices w ! a then gauge_write [(n, v)] n (series L w j l) else series L w j l)"
proof (cases "metric_value v")
  case None
  then show thesis using that[of w] by (auto simp: gauge_write_def same_desc_def)
next
  case (Some x)
  let ?l = "w_slices w ! a"
  have i: "i < length (w_vecs w)" using metrics_okD(3)[OF mok m(1)] m(2) by simp
  have "length ?l = vec_arity (lib_vec L) (w_vecs w ! i)" "utf8_values ?l"
    using metrics_okD(4)[OF mok m(1)] m(2) slice_okD(2,3)[OF a] by (simp_all add: utf8_values_def)
  then obtain vec where vec: "vec_set (lib_vec L) (w_vecs w ! i) ?l x = Inr vec" "same_desc (lib_vec L) (w_vecs w ! i) vec"
      "vec_value (lib_vec L) vec = (vec_value (lib_vec L) (w_vecs w ! i))(?l \<mapsto> x)"
    using vec_setE[OF ok] by metis
  show thesis
    by (rule that[of "upd_vec i vec w"])
       (use Some vec i in \<open>auto simp: gaugeSet_def upd_vec_def series_def gauge_write_def nth_list_update same_desc_def\<close>)
qed

text \<open>The counters do not see a change of the vector of a gauge.\<close>

lemma counters_inv_gauge:
  assumes inv: "counters_inv L c w" and m: "map_of (c_metrics c) n = Some m" "m_vec m = GaugeVec i"
    and w': "w_slices w' = w_slices w" "length (w_vecs w') = length (w_vecs w)"
      "\<And>j. j < length (w_vecs w) \<Longrightarrow> same_desc (lib_vec L) (w_vecs w ! j) (w_vecs w' ! j)"
      "\<And>j l. j < length (w_vecs w) \<Longrightarrow> j \<noteq> i \<Longrightarrow> series L w' j l = series L w j l"
  shows "counters_inv L c w'"
proof -
  have mok: "metrics_ok L c w" using inv by (simp add: counters_inv_def)
  have "metrics_ok L c w'" by (rule metrics_ok_frame[OF mok]) (use w' in auto)
  moreover have "cache_sound L c w'" using inv w'(1) by (simp add: counters_inv_def cache_sound_def slice_ok_def)
  moreover have "cache_complete L c w'"
    unfolding cache_complete_def
  proof (intro allI impI)
    fix n' m' j l assume n': "map_of (c_metrics c) n' = Some m'" "m_vec m' = CounterVec j" and s: "series L w' j l \<noteq> None"
    have "j \<noteq> i" "j < length (w_vecs w)" using metrics_okD(5)[OF mok n'(1) m(1)] metrics_okD(3)[OF mok n'(1)] n' m by auto
    then have "series L w j l \<noteq> None" using s w'(4)[of j l] by simp
    then show "\<exists>cv. cached L c (getKey n' l) = Some cv \<and> cv_vec cv = j \<and> w_slices w' ! cv_labels cv = l"
      using inv n' w'(1) unfolding counters_inv_def cache_complete_def by metis
  qed
  ultimately show ?thesis using inv by (simp add: counters_inv_def)
qed

lemma gauge_col_step:
  fixes L :: "('v, 'r, 'c) libs"
  assumes ok: "libs_ok L" and inv: "counters_inv L c w" and a: "slice_ok c w a"
    and m: "map_of (c_metrics c) n = Some m" "m_vec m = GaugeVec i"
  shows "\<exists>w'. (case metric_value v of None \<Rightarrow> Inr w | Some x \<Rightarrow> gaugeSet L i a x w) = Inr w'
    \<and> row_step L a [(n, v)] (c, w, cur) (c, w', track_gauge n (join ''|'' (w_slices w ! a)) a cur)"
proof -
  let ?l = "w_slices w ! a"
  have mok: "metrics_ok L c w" using inv by (simp add: counters_inv_def)
  have i: "i < length (w_vecs w)" using metrics_okD(3)[OF mok m(1)] m(2) by simp
  obtain w' where w': "(case metric_value v of None \<Rightarrow> Inr w | Some x \<Rightarrow> gaugeSet L i a x w) = Inr w'"
      "w_slices w' = w_slices w" "length (w_vecs w') = length (w_vecs w)"
      "\<And>j. j < length (w_vecs w) \<Longrightarrow> same_desc (lib_vec L) (w_vecs w ! j) (w_vecs w' ! j)"
      "\<And>j l. j < length (w_vecs w) \<Longrightarrow> series L w' j l = (if j = i \<and> l = ?l then gauge_write [(n, v)] n (series L w j l) else series L w j l)"
    by (rule gauge_set_step[OF ok mok a m]) (rule that; assumption)
  have ci: "counters_inv L c w'" by (rule counters_inv_gauge[OF inv m w'(2-4)]) (use w'(5) in auto)
  have "series L w' j l = (if l = ?l then gauge_write [(n, v)] g (series L w j l) else series L w j l)"
    if g: "map_of (c_metrics c) g = Some mg" "m_vec mg = GaugeVec j" for g mg j l
  proof (cases "g = n")
    case True
    then show ?thesis using w'(5)[of j l] g m i by simp
  next
    case False
    then have "j \<noteq> i" "j < length (w_vecs w)" using metrics_okD(5)[OF mok g(1) m(1)] metrics_okD(3)[OF mok g(1)] g(2) m(2) by auto
    then show ?thesis using w'(5)[of j l] False by (simp add: gauge_write_def)
  qed
  moreover have "\<exists>ca. c = c\<lparr>c_countersCache := ca\<rparr>" by (rule exI[of _ "c_countersCache c"]) simp
  ultimately have "row_step L a [(n, v)] (c, w, cur) (c, w', track_gauge n (join ''|'' ?l) a cur)"
    unfolding row_step_def using ci w'(2,3) m by (auto simp: tbl_track)
  then show ?thesis using w'(1) by blast
qed

lemma collect_col_metric:
  fixes L :: "('v, 'r, 'c) libs"
  assumes ok: "libs_ok L" and inv: "counters_inv L c w" and a: "slice_ok c w a"
    and nl: "\<not> is_label c n" and nn: "counters_nonneg c [(n, v)]"
  shows "\<exists>s'. collect_col L a (n, v) (c, w, cur) = Inr s' \<and> row_step L a [(n, v)] (c, w, cur) s'"
proof (cases "map_of (c_metrics c) n")
  case None
  then show ?thesis using nl inv by (auto simp: collect_col_def is_label_def intro!: row_step_refl)
next
  case (Some m)
  have mn: "m_name m = n" using inv Some metrics_okD(1) by (auto simp: counters_inv_def)
  show ?thesis
  proof (cases "m_vec m")
    case (CounterVec i)
    show ?thesis
    proof (cases "metric_value v")
      case None
      then show ?thesis using nl inv Some CounterVec
        by (auto simp: collect_col_def is_label_def intro!: row_step_refl)
    next
      case (Some x)
      have "\<not> flt x (Fin 0)" using nn \<open>map_of (c_metrics c) n = Some m\<close> CounterVec Some by (simp add: counters_nonneg_def)
      from counter_col_step[OF ok inv a \<open>map_of (c_metrics c) n = Some m\<close> CounterVec this]
      show ?thesis using nl \<open>map_of (c_metrics c) n = Some m\<close> CounterVec Some mn
        by (fastforce simp: collect_col_def is_label_def)
    qed
  next
    case (GaugeVec i)
    from gauge_col_step[OF ok inv a Some GaugeVec, of v cur] show ?thesis
      using nl Some GaugeVec by (auto simp: collect_col_def is_label_def Let_def split: option.splits)
  qed
qed

lemma row_step_trans:
  assumes 1: "row_step L a xs s s1" and 2: "row_step L a ys s1 s2" and d: "fst ` set xs \<inter> fst ` set ys = {}"
  shows "row_step L a (xs @ ys) s s2"
proof -
  obtain c w cur where s: "s = (c, w, cur)" by (cases s)
  obtain c1 w1 cur1 where s1: "s1 = (c1, w1, cur1)" by (cases s1)
  obtain c2 w2 cur2 where s2: "s2 = (c2, w2, cur2)" by (cases s2)
  have gw: "gauge_write (xs @ ys) g old = gauge_write ys g (gauge_write xs g old)" for g old
  proof (cases "map_of xs g")
    case (Some x)
    then have "g \<in> fst ` set xs" by (metis domI dom_map_of_conv_image_fst)
    then have "map_of ys g = None" using d by (auto simp: map_of_eq_None_iff)
    then show ?thesis using Some by (simp add: gauge_write_def map_add_def)
  qed (simp add: gauge_write_def map_add_def split: option.splits)
  obtain ca ca1 where c: "c1 = c\<lparr>c_countersCache := ca\<rparr>" "c2 = c\<lparr>c_countersCache := ca1\<rparr>"
    using 1 2 by (auto simp: row_step_def s s1 s2)
  show ?thesis
    using 1 2 unfolding row_step_def s s1 s2 prod.case c by (auto simp: gw)
qed

lemma collect_cols_metrics:
  fixes L :: "('v, 'r, 'c) libs"
  assumes ok: "libs_ok L" and "counters_inv L c w" "slice_ok c w a" "\<forall>x \<in> set ys. \<not> is_label c (fst x)"
    "counters_nonneg c ys" "distinct (map fst ys)"
  shows "\<exists>s'. collect_cols L a ys (c, w, cur) = Inr s' \<and> row_step L a ys (c, w, cur) s'"
  using assms(2-)
proof (induction ys arbitrary: c w cur)
  case Nil
  then show ?case by (auto intro!: row_step_refl)
next
  case (Cons y ys)
  obtain n v where y: "y = (n, v)" by (cases y)
  obtain c1 w1 cur1 where 1: "collect_col L a (n, v) (c, w, cur) = Inr (c1, w1, cur1)" "row_step L a [(n, v)] (c, w, cur) (c1, w1, cur1)"
    using collect_col_metric[OF ok Cons.prems(1,2), of n v cur] Cons.prems(3,4) y by (auto simp: counters_nonneg_def)
  obtain ca where c1: "c1 = c\<lparr>c_countersCache := ca\<rparr>" and w1: "w_slices w1 = w_slices w" and inv1: "counters_inv L c1 w1"
    using 1(2) by (auto simp: row_step_def)
  obtain s' where 2: "collect_cols L a ys (c1, w1, cur1) = Inr s'" "row_step L a ys (c1, w1, cur1) s'"
    using Cons.IH[OF inv1, of cur1] Cons.prems w1 c1 by (auto simp: slice_ok_def is_label_def counters_nonneg_def)
  have "row_step L a ([(n, v)] @ ys) (c, w, cur) s'"
    by (rule row_step_trans[OF 1(2) 2(2)]) (use Cons.prems(5) y in auto)
  then show ?case using 1(1) 2(1) y by auto
qed

section \<open>The rows\<close>

definition labels_first :: "'c collector \<Rightarrow> string list \<Rightarrow> bool" where
  "labels_first c desc = (\<forall>y \<in> set (dropWhile (is_label c) desc). \<not> is_label c y)"

definition row_labels :: "'c collector \<Rightarrow> string \<Rightarrow> (string \<times> dbvalue) list \<Rightarrow> string list" where
  "row_labels c db cols = set_labels c cols (new_labels c db)"

text \<open>A query result the collector can use: distinct columns, labels first, no negative counter value, valid strings.\<close>

definition row_ok :: "'c collector \<Rightarrow> string list \<Rightarrow> dbvalue list \<Rightarrow> bool" where
  "row_ok c desc vs = (length vs = length desc \<and> counters_nonneg c (zip desc vs) \<and> (\<forall>s. DString s \<in> set vs \<longrightarrow> valid_utf8 s))"

lemma set_labels_length [simp]: "length (set_labels c cols ls) = length ls"
  unfolding set_labels_def by (induction cols arbitrary: ls) (auto split: option.splits dbvalue.splits)

lemma set_labels_valid:
  "\<forall>x \<in> set ls. valid_utf8 x \<Longrightarrow> \<forall>s. DString s \<in> snd ` set cols \<longrightarrow> valid_utf8 s \<Longrightarrow> \<forall>x \<in> set (set_labels c cols ls). valid_utf8 x"
proof (induction cols arbitrary: ls)
  case (Cons x cols)
  obtain col v where x: "x = (col, v)" by (cases x)
  let ?ls = "case (map_of (c_labelMap c) col, v) of (Some pos, DString s) \<Rightarrow> ls[pos := s] | _ \<Rightarrow> ls"
  have "\<forall>x \<in> set ?ls. valid_utf8 x"
    using Cons.prems x by (auto split: option.splits dbvalue.splits dest: subsetD[OF set_update_subset_insert])
  moreover have "set_labels c (x # cols) ls = set_labels c cols ?ls" by (simp add: set_labels_def x)
  ultimately show ?case using Cons.IH[of ?ls] Cons.prems(2) by auto
qed (simp add: set_labels_def)

lemma set_labels_metrics: "\<forall>x \<in> set ys. \<not> is_label c (fst x) \<Longrightarrow> set_labels c (xs @ ys) ls = set_labels c xs ls"
proof -
  have "\<forall>x \<in> set ys. \<not> is_label c (fst x) \<Longrightarrow> fold (\<lambda>(col, v) ls. case (map_of (c_labelMap c) col, v) of
     (Some pos, DString s) \<Rightarrow> ls[pos := s] | _ \<Rightarrow> ls) ys ls' = ls'" for ls'
    by (induction ys arbitrary: ls') (auto simp: is_label_def)
  then show "\<forall>x \<in> set ys. \<not> is_label c (fst x) \<Longrightarrow> ?thesis" by (simp add: set_labels_def)
qed

lemma new_labels_ok: "length (new_labels c db) = length (getAllLabels c)" "valid_utf8 db \<Longrightarrow> x \<in> set (new_labels c db) \<Longrightarrow> valid_utf8 x"
proof -
  show "length (new_labels c db) = length (getAllLabels c)" by (simp add: new_labels_def Let_def)
  assume "valid_utf8 db" "x \<in> set (new_labels c db)"
  then have "x = db \<or> x = []"
    using set_update_subset_insert[of "replicate (length (getAllLabels c)) []" "length (getAllLabels c) - 1" db]
    by (auto simp: new_labels_def Let_def split: if_splits)
  then show "valid_utf8 x" using \<open>valid_utf8 db\<close> by auto
qed

lemma counters_inv_slices:
  assumes "counters_inv L c w"
  shows "counters_inv L c (w\<lparr>w_slices := w_slices w @ ls\<rparr>)"
proof -
  have m: "metrics_ok L c (w\<lparr>w_slices := w_slices w @ ls\<rparr>)" using assms by (simp add: counters_inv_def metrics_ok_def)
  have old: "w_slices w ! cv_labels cv = (w_slices w @ ls) ! cv_labels cv" "cv_labels cv < length (w_slices w)" if "cached L c k = Some cv" for k cv
    using assms that by (auto simp: counters_inv_def cache_sound_def slice_ok_def nth_append)
  have s: "cache_sound L c (w\<lparr>w_slices := w_slices w @ ls\<rparr>)"
    using assms unfolding counters_inv_def cache_sound_def slice_ok_def by (auto simp: nth_append intro: trans_less_add1)
  have "cache_complete L c (w\<lparr>w_slices := w_slices w @ ls\<rparr>)"
    unfolding cache_complete_def
  proof (intro allI impI)
    fix n m i l assume m: "map_of (c_metrics c) n = Some m" "m_vec m = CounterVec i" and "series L (w\<lparr>w_slices := w_slices w @ ls\<rparr>) i l \<noteq> None"
    then have "series L w i l \<noteq> None" by (simp add: series_def)
    then obtain cv where cv: "cached L c (getKey n l) = Some cv" "cv_vec cv = i" "w_slices w ! cv_labels cv = l"
      using assms m unfolding counters_inv_def cache_complete_def by blast
    then show "\<exists>cv. cached L c (getKey n l) = Some cv \<and> cv_vec cv = i \<and> w_slices (w\<lparr>w_slices := w_slices w @ ls\<rparr>) ! cv_labels cv = l"
      using old[OF cv(1)] by auto
  qed
  then show ?thesis using assms m s by (simp add: counters_inv_def)
qed

text \<open>A decoded row: the slice of its labels ends up as \<open>row_labels\<close>, and its metric columns are applied under it.\<close>

lemma collect_row:
  fixes L :: "('v, 'r, 'c) libs"
  assumes ok: "libs_ok L" and inv: "counters_inv L c w" and lf: "labels_first c desc" "distinct desc"
    and row: "row_ok c desc vs" and db: "valid_utf8 db"
  shows "\<exists>s'. collect_cols L (length (w_slices w)) (zip desc vs) (c, w\<lparr>w_slices := w_slices w @ [new_labels c db]\<rparr>, cur) = Inr s'
    \<and> row_step L (length (w_slices w)) (filter (\<lambda>x. \<not> is_label c (fst x)) (zip desc vs))
        (c, w\<lparr>w_slices := w_slices w @ [row_labels c db (zip desc vs)]\<rparr>, cur) s'"
proof -
  let ?cols = "zip desc vs" and ?a = "length (w_slices w)"
  define xs where "xs = takeWhile (\<lambda>x. is_label c (fst x)) ?cols"
  define ys where "ys = dropWhile (\<lambda>x. is_label c (fst x)) ?cols"
  have cols: "?cols = xs @ ys" by (simp add: xs_def ys_def)
  have xl: "\<forall>x \<in> set xs. is_label c (fst x)" by (auto simp: xs_def dest: set_takeWhileD)
  have len: "length vs = length desc" using row by (simp add: row_ok_def)
  have "dropWhile (is_label c) (map fst ?cols) = map fst ys" by (simp add: dropWhile_map ys_def comp_def)
  then have "map fst ys = dropWhile (is_label c) desc" using len by simp
  then have yl: "\<forall>y \<in> set ys. \<not> is_label c (fst y)" using lf(1) unfolding labels_first_def by (metis image_eqI image_set)
  have fl: "filter (\<lambda>x. \<not> is_label c (fst x)) ?cols = ys" using xl yl by (simp add: cols)
  have rl: "row_labels c db ?cols = set_labels c xs (new_labels c db)" by (simp add: row_labels_def cols set_labels_metrics[OF yl])
  let ?w = "w\<lparr>w_slices := w_slices w @ [row_labels c db ?cols]\<rparr>"
  have lab: "collect_cols L ?a xs (c, w\<lparr>w_slices := w_slices w @ [new_labels c db]\<rparr>, cur) = Inr (c, ?w, cur)"
    using collect_cols_labels[OF xl, of ?a "w\<lparr>w_slices := w_slices w @ [new_labels c db]\<rparr>" L cur] by (simp add: rl)
  have "\<forall>x \<in> set (row_labels c db ?cols). valid_utf8 x"
    unfolding row_labels_def
  proof (rule set_labels_valid)
    show "\<forall>x \<in> set (new_labels c db). valid_utf8 x" using new_labels_ok(2)[OF db] by blast
    show "\<forall>s. DString s \<in> snd ` set ?cols \<longrightarrow> valid_utf8 s" using row by (auto simp: row_ok_def dest: set_zip_rightD)
  qed
  then have sl: "slice_ok c ?w ?a" by (simp add: slice_ok_def row_labels_def new_labels_ok(1))
  have "counters_nonneg c ys" "distinct (map fst ys)"
    using row lf(2) len \<open>map fst ys = _\<close> by (auto simp: row_ok_def counters_nonneg_def cols distinct_dropWhile)
  from collect_cols_metrics[OF ok counters_inv_slices[OF inv] sl yl this]
  show ?thesis unfolding fl using lab by (auto simp: cols collect_cols_append)
qed

fun decoded :: "row list \<Rightarrow> dbvalue list list" where
  "decoded [] = []"
| "decoded (Inl e # rows) = decoded rows"
| "decoded (Inr vs # rows) = vs # decoded rows"

text \<open>The series of gauge \<^verbatim>\<open>g\<close> with labels \<^verbatim>\<open>l\<close> after the rows: the last value written, if a row has these labels.\<close>

definition gauge_rows :: "'c collector \<Rightarrow> string \<Rightarrow> string list \<Rightarrow> dbvalue list list \<Rightarrow> string \<Rightarrow> string list \<Rightarrow> float64 option \<Rightarrow> float64 option" where
  "gauge_rows c db desc rows g l old =
     fold (\<lambda>vs old. if row_labels c db (zip desc vs) = l then gauge_write (zip desc vs) g old else old) rows old"

definition is_gauge :: "'c collector \<Rightarrow> string \<Rightarrow> nat \<Rightarrow> bool" where
  "is_gauge c g i = (\<exists>m. map_of (c_metrics c) g = Some m \<and> m_vec m = GaugeVec i)"

definition rows_effect :: "('v, 'r, 'c) libs \<Rightarrow> string \<Rightarrow> string list \<Rightarrow> dbvalue list list
    \<Rightarrow> ('v, 'r, 'c) cstate \<Rightarrow> ('v, 'r, 'c) cstate \<Rightarrow> bool" where
  "rows_effect L db desc rows s s' = (case (s, s') of ((c, w, cur), (c', w', cur')) \<Rightarrow>
     (\<exists>ca. c' = c\<lparr>c_countersCache := ca\<rparr>) \<and> counters_inv L c' w'
     \<and> w_slices w' = w_slices w @ map (\<lambda>vs. row_labels c db (zip desc vs)) rows
     \<and> length (w_vecs w') = length (w_vecs w)
     \<and> (\<forall>g i l. is_gauge c g i \<longrightarrow> series L w' i l = gauge_rows c db desc rows g l (series L w i l))
     \<and> (\<forall>g k. ((\<exists>i. is_gauge c g i) \<and> g \<in> set desc \<longrightarrow> (\<exists>vs \<in> set rows. join ''|'' (row_labels c db (zip desc vs)) = k) \<longrightarrow>
          (\<exists>a. tbl cur' g k = Some a \<and> a < length (w_slices w') \<and> k = join ''|'' (w_slices w' ! a)
             \<and> (\<exists>vs \<in> set rows. row_labels c db (zip desc vs) = w_slices w' ! a)))
        \<and> (\<not> ((\<exists>i. is_gauge c g i) \<and> g \<in> set desc \<and> (\<exists>vs \<in> set rows. join ''|'' (row_labels c db (zip desc vs)) = k)) \<longrightarrow>
          tbl cur' g k = tbl cur g k)))"

lemma row_labels_cache [simp]: "row_labels (c\<lparr>c_countersCache := ca\<rparr>) db cols = row_labels c db cols"
  by (simp add: row_labels_def set_labels_def new_labels_def)

lemma collector_cache_simps [simp]:
  "is_label (c\<lparr>c_countersCache := ca\<rparr>) = is_label c"
  "is_gauge (c\<lparr>c_countersCache := ca\<rparr>) = is_gauge c"
  "labels_first (c\<lparr>c_countersCache := ca\<rparr>) = labels_first c"
  "row_ok (c\<lparr>c_countersCache := ca\<rparr>) = row_ok c"
  "gauge_rows (c\<lparr>c_countersCache := ca\<rparr>) = gauge_rows c"
proof -
  show "is_label (c\<lparr>c_countersCache := ca\<rparr>) = is_label c" by (intro ext) (simp add: is_label_def)
  then show "labels_first (c\<lparr>c_countersCache := ca\<rparr>) = labels_first c" by (intro ext) (simp add: labels_first_def)
  show "is_gauge (c\<lparr>c_countersCache := ca\<rparr>) = is_gauge c" by (intro ext) (simp add: is_gauge_def)
  show "row_ok (c\<lparr>c_countersCache := ca\<rparr>) = row_ok c" by (intro ext) (simp add: row_ok_def counters_nonneg_def)
  show "gauge_rows (c\<lparr>c_countersCache := ca\<rparr>) = gauge_rows c" by (intro ext) (simp add: gauge_rows_def)
qed

lemma gauge_write_metrics:
  assumes "\<not> is_label c g"
  shows "gauge_write (filter (\<lambda>x. \<not> is_label c (fst x)) cols) g old = gauge_write cols g old"
proof -
  have "map_of (filter (\<lambda>x. \<not> is_label c (fst x)) cols) g = map_of cols g"
    using map_of_filter_key[of "\<lambda>k. \<not> is_label c k" cols g] assms by (simp add: case_prod_unfold)
  then show ?thesis by (simp add: gauge_write_def)
qed

lemma row_step_table:
  assumes s: "row_step L a (filter (\<lambda>x. \<not> is_label c (fst x)) (zip desc vs)) (c, w, cur) (c1, w1, cur1)" and row: "row_ok c desc vs"
    and gl: "\<And>g i. is_gauge c g i \<Longrightarrow> \<not> is_label c g"
  shows "tbl cur1 g k = (if (\<exists>i. is_gauge c g i) \<and> g \<in> set desc \<and> k = join ''|'' (w_slices w ! a) then Some a else tbl cur g k)"
proof -
  have "g \<in> fst ` set (filter (\<lambda>x. \<not> is_label c (fst x)) (zip desc vs)) \<longleftrightarrow> g \<in> set desc" if "is_gauge c g i" for i
  proof -
    have "map fst (zip desc vs) = desc" using row by (simp add: row_ok_def)
    then have "g \<in> fst ` set (zip desc vs) \<longleftrightarrow> g \<in> set desc" by (metis list.set_map)
    then show ?thesis using gl[OF that] by auto
  qed
  then show ?thesis using s by (auto simp: row_step_def is_gauge_def)
qed

lemma collect_rows_effect:
  fixes L :: "('v, 'r, 'c) libs"
  assumes ok: "libs_ok L" and "counters_inv L c w" and lf: "labels_first c desc" "distinct desc" and db: "valid_utf8 db"
    and "\<forall>vs \<in> set (decoded rows). row_ok c desc vs"
    and gl: "\<And>g i. is_gauge c g i \<Longrightarrow> \<not> is_label c g"
  shows "\<exists>s'. collect_rows L db desc rows (c, w, cur) = Inr s' \<and> rows_effect L db desc (decoded rows) (c, w, cur) s'"
  using assms(2,3,6,7)
proof (induction rows arbitrary: c w cur rule: decoded.induct)
  case 1
  moreover have "\<exists>ca. c = c\<lparr>c_countersCache := ca\<rparr>" by (rule exI[of _ "c_countersCache c"]) simp
  ultimately show ?case by (auto simp: rows_effect_def gauge_rows_def)
next
  case (2 e rows)
  then show ?case by simp
next
  case (3 vs rows)
  let ?cols = "zip desc vs" and ?a = "length (w_slices w)"
  let ?l = "row_labels c db ?cols"
  let ?w = "w\<lparr>w_slices := w_slices w @ [?l]\<rparr>"
  have row: "row_ok c desc vs" using 3 by simp
  obtain c1 w1 cur1 where r1: "collect_cols L ?a ?cols (c, w\<lparr>w_slices := w_slices w @ [new_labels c db]\<rparr>, cur) = Inr (c1, w1, cur1)"
    and s1: "row_step L ?a (filter (\<lambda>x. \<not> is_label c (fst x)) ?cols) (c, ?w, cur) (c1, w1, cur1)"
    using collect_row[OF ok "3.prems"(1,2) lf(2) row db, of cur] by auto
  obtain ca where c1: "c1 = c\<lparr>c_countersCache := ca\<rparr>" and i1: "counters_inv L c1 w1" and w1: "w_slices w1 = w_slices w @ [?l]"
      "length (w_vecs w1) = length (w_vecs w)"
    using s1 by (auto simp: row_step_def)
  have g1: "series L w1 i l = (if ?l = l then gauge_write ?cols g (series L w i l) else series L w i l)" if "is_gauge c g i" for g i l
    using s1 that gauge_write_metrics[OF "3.prems"(4)[OF that]] by (auto simp: row_step_def is_gauge_def series_def)
  have t1: "tbl cur1 g k = (if (\<exists>i. is_gauge c g i) \<and> g \<in> set desc \<and> k = join ''|'' ?l then Some ?a else tbl cur g k)" for g k
    using row_step_table[OF s1 row "3.prems"(4)] by simp
  obtain c2 w2 cur2 where r2: "collect_rows L db desc rows (c1, w1, cur1) = Inr (c2, w2, cur2)"
    and s2: "rows_effect L db desc (decoded rows) (c1, w1, cur1) (c2, w2, cur2)"
    using "3.IH"[OF i1, of cur1] "3.prems" c1 by auto
  have w2: "w_slices w2 = w_slices w @ map (\<lambda>vs. row_labels c db (zip desc vs)) (vs # decoded rows)"
    using s2 w1 c1 by (simp add: rows_effect_def)
  have a2: "w_slices w2 ! ?a = ?l" "?a < length (w_slices w2)" by (simp_all add: w2 nth_append)
  have "rows_effect L db desc (vs # decoded rows) (c, w, cur) (c2, w2, cur2)"
    unfolding rows_effect_def prod.case
  proof (intro conjI allI)
    show "\<exists>ca. c2 = c\<lparr>c_countersCache := ca\<rparr>" "counters_inv L c2 w2" "length (w_vecs w2) = length (w_vecs w)"
      using s2 c1 w1 by (auto simp: rows_effect_def)
    show "w_slices w2 = w_slices w @ map (\<lambda>vs. row_labels c db (zip desc vs)) (vs # decoded rows)" by (rule w2)
    show "is_gauge c g i \<longrightarrow> series L w2 i l = gauge_rows c db desc (vs # decoded rows) g l (series L w i l)" for g i l
      using s2 c1 g1 by (auto simp: rows_effect_def gauge_rows_def)
    fix g k
    note T = s2[unfolded rows_effect_def prod.case, THEN conjunct2, THEN conjunct2, THEN conjunct2, THEN conjunct2, THEN conjunct2, rule_format, of g k]
    show "(\<exists>i. is_gauge c g i) \<and> g \<in> set desc \<longrightarrow> (\<exists>us \<in> set (vs # decoded rows). join ''|'' (row_labels c db (zip desc us)) = k) \<longrightarrow>
        (\<exists>a. tbl cur2 g k = Some a \<and> a < length (w_slices w2) \<and> k = join ''|'' (w_slices w2 ! a)
           \<and> (\<exists>us \<in> set (vs # decoded rows). row_labels c db (zip desc us) = w_slices w2 ! a))"
      using T t1[of g k] a2 c1 by (cases "\<exists>us \<in> set (decoded rows). join ''|'' (row_labels c db (zip desc us)) = k") auto
    show "\<not> ((\<exists>i. is_gauge c g i) \<and> g \<in> set desc \<and> (\<exists>us \<in> set (vs # decoded rows). join ''|'' (row_labels c db (zip desc us)) = k)) \<longrightarrow>
        tbl cur2 g k = tbl cur g k"
      using T t1[of g k] c1 by auto
  qed
  then show ?case using r1 r2 by auto
qed

section \<open>Obsolete gauges\<close>

definition table_wf :: "gauge_table \<Rightarrow> bool" where
  "table_wf cur = (wf_map cur \<and> (\<forall>(g, t) \<in> set cur. wf_map t))"

lemma table_wf_track: "table_wf cur \<Longrightarrow> table_wf (track_gauge col i a cur)"
proof -
  assume wf: "table_wf cur"
  have "wf_map (case map_of cur col of None \<Rightarrow> [] | Some t \<Rightarrow> t)"
    using wf map_of_SomeD[of cur col] by (auto simp: table_wf_def split: option.splits)
  moreover have "set (AList.update col t' cur) \<subseteq> insert (col, t') (set cur)" for t'
    by (induction cur) auto
  ultimately show ?thesis using wf unfolding table_wf_def track_gauge_def by (auto; blast)
qed

lemma collect_col_table_wf:
  "collect_col L a x (c, w, cur) = Inr (c', w', cur') \<Longrightarrow> table_wf cur \<Longrightarrow> table_wf cur'"
  by (cases x) (auto simp: collect_col_def bind_result_def Let_def table_wf_track
      split: option.splits dbvalue.splits vecref.splits sum.splits)

lemma collect_cols_table_wf:
  "collect_cols L a xs (c, w, cur) = Inr (c', w', cur') \<Longrightarrow> table_wf cur \<Longrightarrow> table_wf cur'"
proof (induction xs arbitrary: c w cur)
  case (Cons x xs)
  obtain c1 w1 cur1 where "collect_col L a x (c, w, cur) = Inr (c1, w1, cur1)" "collect_cols L a xs (c1, w1, cur1) = Inr (c', w', cur')"
    using Cons.prems(1) by (auto simp: bind_result_def split: sum.splits)
  then show ?case using Cons.IH Cons.prems(2) collect_col_table_wf by blast
qed simp

lemma collect_rows_table_wf:
  "collect_rows L db desc rows (c, w, cur) = Inr (c', w', cur') \<Longrightarrow> table_wf cur \<Longrightarrow> table_wf cur'"
proof (induction rows arbitrary: c w cur rule: decoded.induct)
  case (3 vs rows)
  obtain c1 w1 cur1 where "collect_cols L (length (w_slices w)) (zip desc vs) (c, w\<lparr>w_slices := w_slices w @ [new_labels c db]\<rparr>, cur) = Inr (c1, w1, cur1)"
      "collect_rows L db desc rows (c1, w1, cur1) = Inr (c', w', cur')"
    using "3.prems"(1) by (auto simp: bind_result_def split: sum.splits)
  then show ?case using "3.IH" "3.prems"(2) collect_cols_table_wf by blast
qed auto

lemma table_wf_iff:
  assumes "table_wf cur"
  shows "(\<exists>t. (g, t) \<in> set cur \<and> (i, a) \<in> set t) \<longleftrightarrow> tbl cur g i = Some a"
proof -
  have wf: "wf_map cur" "\<And>t. (g, t) \<in> set cur \<Longrightarrow> wf_map t" using assms by (auto simp: table_wf_def)
  then show ?thesis by (auto simp: tbl_def wf_map_in_set[symmetric] split: option.splits) (auto simp: wf_map_in_set)
qed

text \<open>What one pass over the entries of a gauge deletes.\<close>

definition world_frame :: "('v, 'r, 'c) libs \<Rightarrow> ('v, 'r) world \<Rightarrow> ('v, 'r) world \<Rightarrow> bool" where
  "world_frame L w w' = (w_slices w' = w_slices w \<and> w_reg w' = w_reg w \<and> length (w_vecs w') = length (w_vecs w)
     \<and> (\<forall>j < length (w_vecs w). same_desc (lib_vec L) (w_vecs w ! j) (w_vecs w' ! j)))"

lemma world_frame_trans: "world_frame L w w1 \<Longrightarrow> world_frame L w1 w2 \<Longrightarrow> world_frame L w w2"
  by (auto simp: world_frame_def same_desc_def)

definition obsolete :: "gauge_table \<Rightarrow> string list list \<Rightarrow> string \<Rightarrow> (string, nat) gomap \<Rightarrow> string list \<Rightarrow> bool" where
  "obsolete cur sl g t l = (\<exists>(k, a) \<in> set t. tbl cur g k = None \<and> sl ! a = l)"

definition obsolete_in :: "'c collector \<Rightarrow> gauge_table \<Rightarrow> string list list \<Rightarrow> gauge_table \<Rightarrow> nat \<Rightarrow> string list \<Rightarrow> bool" where
  "obsolete_in c cur sl tab j l = (\<exists>(g, t) \<in> set tab. is_gauge c g j \<and> obsolete cur sl g t l)"

lemma obsolete_simps [simp]:
  "obsolete cur sl g [] l = False"
  "obsolete cur sl g ((k, a) # t) l = (tbl cur g k = None \<and> sl ! a = l \<or> obsolete cur sl g t l)"
  "obsolete_in c cur sl [] j l = False"
  "obsolete_in c cur sl ((g, t) # tab) j l = (is_gauge c g j \<and> obsolete cur sl g t l \<or> obsolete_in c cur sl tab j l)"
  by (auto simp: obsolete_def obsolete_in_def)

lemma clear_gauge_one:
  assumes ok: "libs_ok L" and own: "\<And>i. is_gauge c g i \<Longrightarrow> i < length (w_vecs w)"
  shows "world_frame L w (clear_gauge L c cur g [(k, a)] w)
    \<and> (\<forall>j l. j < length (w_vecs w) \<longrightarrow> series L (clear_gauge L c cur g [(k, a)] w) j l =
         (if is_gauge c g j \<and> obsolete cur (w_slices w) g [(k, a)] l then None else series L w j l))"
proof (cases "\<exists>i. is_gauge c g i \<and> tbl cur g k = None")
  case True
  then obtain i where i: "is_gauge c g i" "tbl cur g k = None" by blast
  then have w: "clear_gauge L c cur g [(k, a)] w = upd_vec i (vec_delete (lib_vec L) (w_vecs w ! i) (w_slices w ! a)) w"
    by (auto simp: clear_gauge_def is_gauge_def tbl_def split: option.splits)
  have iff: "is_gauge c g j \<longleftrightarrow> j = i" for j using i(1) by (auto simp: is_gauge_def)
  show ?thesis using own[OF i(1)] vec_deleteE[OF ok, of "w_vecs w ! i" "w_slices w ! a"]
    unfolding w iff by (auto simp: i(2) world_frame_def same_desc_def upd_vec_def series_def nth_list_update)
next
  case False
  then have "clear_gauge L c cur g [(k, a)] w = w"
    by (auto simp: clear_gauge_def is_gauge_def tbl_def split: option.splits vecref.splits)
  then show ?thesis using False by (auto simp: world_frame_def same_desc_def)
qed

lemma clear_gauge_effect:
  assumes ok: "libs_ok L" and own: "\<And>i. is_gauge c g i \<Longrightarrow> i < length (w_vecs w)"
  shows "world_frame L w (clear_gauge L c cur g labels w)
    \<and> (\<forall>j l. j < length (w_vecs w) \<longrightarrow> series L (clear_gauge L c cur g labels w) j l =
         (if is_gauge c g j \<and> obsolete cur (w_slices w) g labels l then None else series L w j l))"
  using own
proof (induction labels arbitrary: w)
  case Nil
  then show ?case by (simp add: clear_gauge_def world_frame_def same_desc_def)
next
  case (Cons x labels)
  obtain k a where x: "x = (k, a)" by (cases x)
  let ?w = "clear_gauge L c cur g [(k, a)] w"
  have one: "world_frame L w ?w \<and> (\<forall>j l. j < length (w_vecs w) \<longrightarrow> series L ?w j l =
         (if is_gauge c g j \<and> obsolete cur (w_slices w) g [(k, a)] l then None else series L w j l))"
    by (rule clear_gauge_one[OF ok]) (rule Cons.prems)
  have fold: "clear_gauge L c cur g ((k, a) # labels) w = clear_gauge L c cur g labels ?w" by (simp add: clear_gauge_def)
  have fr: "w_slices ?w = w_slices w" "length (w_vecs ?w) = length (w_vecs w)" using one by (simp_all add: world_frame_def)
  have IH: "world_frame L ?w (clear_gauge L c cur g labels ?w)
    \<and> (\<forall>j l. j < length (w_vecs ?w) \<longrightarrow> series L (clear_gauge L c cur g labels ?w) j l =
         (if is_gauge c g j \<and> obsolete cur (w_slices ?w) g labels l then None else series L ?w j l))"
    by (rule Cons.IH) (simp add: fr Cons.prems)
  show ?case unfolding x fold
    using one IH[unfolded fr] world_frame_trans[of L w ?w] by auto
qed

lemma clear_gauges_effect:
  assumes ok: "libs_ok L" and own: "\<And>g i. is_gauge c g i \<Longrightarrow> i < length (w_vecs w)"
  shows "world_frame L w (fold (\<lambda>(g, labels). clear_gauge L c cur g labels) tab w)
    \<and> (\<forall>j l. j < length (w_vecs w) \<longrightarrow> series L (fold (\<lambda>(g, labels). clear_gauge L c cur g labels) tab w) j l =
         (if obsolete_in c cur (w_slices w) tab j l then None else series L w j l))"
  using own
proof (induction tab arbitrary: w)
  case Nil
  then show ?case by (simp add: world_frame_def same_desc_def)
next
  case (Cons x tab)
  obtain g t where x: "x = (g, t)" by (cases x)
  let ?w = "clear_gauge L c cur g t w" and ?F = "\<lambda>(g, labels). clear_gauge L c cur g labels"
  have one: "world_frame L w ?w \<and> (\<forall>j l. j < length (w_vecs w) \<longrightarrow> series L ?w j l =
         (if is_gauge c g j \<and> obsolete cur (w_slices w) g t l then None else series L w j l))"
    by (rule clear_gauge_effect[OF ok]) (rule Cons.prems)
  have fr: "w_slices ?w = w_slices w" "length (w_vecs ?w) = length (w_vecs w)" using one by (simp_all add: world_frame_def)
  have IH: "world_frame L ?w (fold ?F tab ?w) \<and> (\<forall>j l. j < length (w_vecs ?w) \<longrightarrow> series L (fold ?F tab ?w) j l =
         (if obsolete_in c cur (w_slices ?w) tab j l then None else series L ?w j l))"
    by (rule Cons.IH) (simp add: fr Cons.prems)
  show ?case
    using one IH[unfolded fr] world_frame_trans[of L w ?w "fold ?F tab ?w"] by (auto simp: x)
qed

section \<open>A whole run\<close>

text \<open>Label values without the separator that \<^verbatim>\<open>strings.Join\<close> puts between them.\<close>

definition clean :: "string list \<Rightarrow> bool" where
  "clean l = (\<forall>x \<in> set l. CHR ''|'' \<notin> set x)"

lemma split_at_bar:
  assumes "CHR ''|'' \<notin> set x" "CHR ''|'' \<notin> set y" "x @ CHR ''|'' # r = y @ CHR ''|'' # r'"
  shows "x = y \<and> r = r'"
proof -
  have "takeWhile (\<lambda>c. c \<noteq> CHR ''|'') (x @ CHR ''|'' # r) = x" "takeWhile (\<lambda>c. c \<noteq> CHR ''|'') (y @ CHR ''|'' # r') = y"
    using assms(1,2) by (subst takeWhile_append2; auto)+
  then show ?thesis using assms(3) by simp
qed

lemma join_inj:
  "clean l \<Longrightarrow> clean l' \<Longrightarrow> length l = length l' \<Longrightarrow> join ''|'' l = join ''|'' l' \<Longrightarrow> l = l'"
proof (induction l arbitrary: l' rule: join.induct[of "\<lambda>_. P" for P, case_names Nil One Cons])
  case (Nil s)
  then show ?case by simp
next
  case (One s x)
  then show ?case by (cases l' rule: join.cases[of "(''|'', l')" for l']) (auto simp: length_Suc_conv)
next
  case (Cons s x y xs)
  obtain x' y' xs' where l': "l' = x' # y' # xs'" using Cons.prems(3) by (cases l'; cases "tl l'") auto
  have c: "CHR ''|'' \<notin> set x" "CHR ''|'' \<notin> set x'" "clean (y # xs)" "clean (y' # xs')"
    using Cons.prems(1,2) by (auto simp: clean_def l')
  then have "x = x' \<and> join ''|'' (y # xs) = join ''|'' (y' # xs')"
    using split_at_bar[OF c(1,2)] Cons.prems(4) l' by simp
  then show ?case using Cons.IH[of "y' # xs'"] c Cons.prems(3) l' by simp
qed

text \<open>Every series of a gauge is in the table of the last run, under the labels it has.\<close>

definition gauges_inv :: "('v, 'r, 'c) libs \<Rightarrow> 'c collector \<Rightarrow> ('v, 'r) world \<Rightarrow> bool" where
  "gauges_inv L c w = (table_wf (c_gaugeLabels c)
     \<and> (\<forall>g k a. tbl (c_gaugeLabels c) g k = Some a \<longrightarrow> a < length (w_slices w) \<and> k = join ''|'' (w_slices w ! a)
          \<and> length (w_slices w ! a) = length (getAllLabels c) \<and> clean (w_slices w ! a))
     \<and> (\<forall>g i l. is_gauge c g i \<longrightarrow> series L w i l \<noteq> None \<longrightarrow>
          (\<exists>a. tbl (c_gaugeLabels c) g (join ''|'' l) = Some a \<and> w_slices w ! a = l)))"

definition result_ok :: "'c collector \<Rightarrow> string \<Rightarrow> string list \<Rightarrow> row list \<Rightarrow> bool" where
  "result_ok c db desc rows = (labels_first c desc \<and> distinct desc \<and> valid_utf8 db
     \<and> length desc = length (c_labels c) + length (c_metrics c)
     \<and> (\<forall>g \<in> set (keys (c_metrics c)). g \<in> set desc \<and> \<not> is_label c g)
     \<and> (\<forall>vs \<in> set (decoded rows). row_ok c desc vs \<and> clean (row_labels c db (zip desc vs))))"

lemma is_gauge_index: "metrics_ok L c w \<Longrightarrow> is_gauge c g i \<Longrightarrow> i < length (w_vecs w)"
  using metrics_okD(3) by (fastforce simp: is_gauge_def)

lemma row_labels_length [simp]: "length (row_labels c db cols) = length (getAllLabels c)"
  by (simp add: row_labels_def new_labels_ok(1))

lemma getAllLabels_gauge [simp]: "getAllLabels (c\<lparr>c_gaugeLabels := t\<rparr>) = getAllLabels c"
  by (simp add: getAllLabels_def)

lemma counters_inv_clear:
  assumes inv: "counters_inv L c w" and fr: "world_frame L w w'"
    and se: "\<And>j l. j < length (w_vecs w) \<Longrightarrow> series L w' j l = (if obsolete_in c cur (w_slices w) tab j l then None else series L w j l)"
  shows "counters_inv L (c\<lparr>c_gaugeLabels := cur\<rparr>) w'"
proof -
  have mok: "metrics_ok L c w" using inv by (simp add: counters_inv_def)
  have w: "w_slices w' = w_slices w" "length (w_vecs w') = length (w_vecs w)"
      "\<And>j. j < length (w_vecs w) \<Longrightarrow> same_desc (lib_vec L) (w_vecs w ! j) (w_vecs w' ! j)"
    using fr by (auto simp: world_frame_def)
  have ca: "cached L (c\<lparr>c_gaugeLabels := cur\<rparr>) = cached L c" by (simp add: cached_def fun_eq_iff)
  have "metrics_ok L (c\<lparr>c_gaugeLabels := cur\<rparr>) w'" by (rule metrics_ok_frame[OF mok]) (use w in simp_all)
  moreover have "cache_sound L (c\<lparr>c_gaugeLabels := cur\<rparr>) w'"
    using inv by (simp add: counters_inv_def cache_sound_def ca slice_ok_def w)
  moreover have "cache_complete L (c\<lparr>c_gaugeLabels := cur\<rparr>) w'"
    unfolding cache_complete_def ca w(1)
  proof (intro allI impI)
    fix n m i l assume m: "map_of (c_metrics (c\<lparr>c_gaugeLabels := cur\<rparr>)) n = Some m" "m_vec m = CounterVec i" and s: "series L w' i l \<noteq> None"
    have "i < length (w_vecs w)" using metrics_okD(3)[OF mok, of n m] m by simp
    then have "series L w i l \<noteq> None" using se s by (auto split: if_splits)
    then show "\<exists>cv. cached L c (getKey n l) = Some cv \<and> cv_vec cv = i \<and> w_slices w ! cv_labels cv = l"
      using inv m unfolding counters_inv_def cache_complete_def by simp
  qed
  ultimately show ?thesis using inv by (simp add: counters_inv_def)
qed

lemma gauge_rows_none:
  "\<not> (\<exists>vs \<in> set rows. row_labels c db (zip desc vs) = l) \<Longrightarrow> gauge_rows c db desc rows g l old = old"
  unfolding gauge_rows_def by (induction rows arbitrary: old) auto

text \<open>
  The table of a run lists the gauges under the label values of the rows, \<open>R\<close>, and nothing else.
\<close>

definition lists_rows :: "'c collector \<Rightarrow> string list set \<Rightarrow> string list list \<Rightarrow> gauge_table \<Rightarrow> bool" where
  "lists_rows c R sl cur = (\<forall>g k. case tbl cur g k of
      Some a \<Rightarrow> (\<exists>i. is_gauge c g i) \<and> a < length sl \<and> k = join ''|'' (sl ! a) \<and> sl ! a \<in> R
    | None \<Rightarrow> (\<exists>i. is_gauge c g i) \<longrightarrow> k \<notin> join ''|'' ` R)"

lemma lists_rowsD:
  assumes "lists_rows c R sl cur"
  shows "tbl cur g k = Some a \<Longrightarrow> (\<exists>i. is_gauge c g i) \<and> a < length sl \<and> k = join ''|'' (sl ! a) \<and> sl ! a \<in> R"
    "is_gauge c g i \<Longrightarrow> l \<in> R \<Longrightarrow> \<exists>a. tbl cur g (join ''|'' l) = Some a"
proof -
  note T = assms[unfolded lists_rows_def, rule_format]
  show "tbl cur g k = Some a \<Longrightarrow> (\<exists>i. is_gauge c g i) \<and> a < length sl \<and> k = join ''|'' (sl ! a) \<and> sl ! a \<in> R"
    using T[of g k] by simp
  show "is_gauge c g i \<Longrightarrow> l \<in> R \<Longrightarrow> \<exists>a. tbl cur g (join ''|'' l) = Some a"
    using T[of g "join ''|'' l"] by (auto split: option.splits)
qed

lemma rows_effect_lists:
  assumes eff: "rows_effect L db desc (decoded rows) (c, w, []) (c1, w1, cur)" and res: "result_ok c db desc rows"
  shows "lists_rows c ((\<lambda>vs. row_labels c db (zip desc vs)) ` set (decoded rows)) (w_slices w1) cur"
proof -
  let ?rl = "\<lambda>vs. row_labels c db (zip desc vs)" and ?D = "set (decoded rows)"
  have gd: "g \<in> set desc" if "is_gauge c g i" for g i
    using res that unfolding result_ok_def is_gauge_def set_keys by blast
  note T = eff[unfolded rows_effect_def prod.case, THEN conjunct2, THEN conjunct2, THEN conjunct2, THEN conjunct2, THEN conjunct2, rule_format]
  have tin: "\<exists>a. tbl cur g k = Some a \<and> a < length (w_slices w1) \<and> k = join ''|'' (w_slices w1 ! a) \<and> (\<exists>vs \<in> ?D. ?rl vs = w_slices w1 ! a)"
    if "is_gauge c g i" "vs \<in> ?D" "join ''|'' (?rl vs) = k" for g i k vs
    using T[of g k] that gd[OF that(1)] by blast
  have tout: "tbl cur g k = None" if "\<not> ((\<exists>i. is_gauge c g i) \<and> (\<exists>vs \<in> ?D. join ''|'' (?rl vs) = k))" for g k
    using T[of g k] that gd by auto
  show ?thesis unfolding lists_rows_def
  proof (intro allI)
    fix g k
    show "case tbl cur g k of None \<Rightarrow> (\<exists>i. is_gauge c g i) \<longrightarrow> k \<notin> join ''|'' ` ?rl ` ?D
        | Some a \<Rightarrow> (\<exists>i. is_gauge c g i) \<and> a < length (w_slices w1) \<and> k = join ''|'' (w_slices w1 ! a) \<and> w_slices w1 ! a \<in> ?rl ` ?D"
    proof (cases "(\<exists>i. is_gauge c g i) \<and> (\<exists>vs \<in> ?D. join ''|'' (?rl vs) = k)")
      case True
      then obtain i vs where "is_gauge c g i" "vs \<in> ?D" "join ''|'' (?rl vs) = k" by blast
      from tin[OF this] \<open>is_gauge c g i\<close> show ?thesis by (auto simp: image_iff) metis+
    qed (use tout[of g k] in auto)
  qed
qed

text \<open>Label values of one length without the separator: a set that \<^verbatim>\<open>strings.Join\<close> keeps apart.\<close>

definition labels_ok :: "nat \<Rightarrow> string list set \<Rightarrow> bool" where
  "labels_ok n R = (\<forall>l \<in> R. clean l \<and> length l = n)"

lemma labels_okD: "labels_ok n R \<Longrightarrow> l \<in> R \<Longrightarrow> clean l \<and> length l = n"
  by (simp add: labels_ok_def)

lemma lists_rows_None:
  assumes t: "lists_rows c R sl cur" "labels_ok n R" and g: "is_gauge c g i" and l: "clean l" "length l = n"
  shows "tbl cur g (join ''|'' l) = None \<longleftrightarrow> l \<notin> R"
proof
  show "tbl cur g (join ''|'' l) = None \<Longrightarrow> l \<notin> R" using lists_rowsD(2)[OF t(1) g, of l] by auto
  show "l \<notin> R \<Longrightarrow> tbl cur g (join ''|'' l) = None"
    using lists_rowsD(1)[OF t(1), of g "join ''|'' l"] labels_okD[OF t(2)] join_inj[OF l(1)] l(2)
    by (cases "tbl cur g (join ''|'' l)") fastforce+
qed

lemma obsolete_in_iff:
  assumes g0: "gauges_inv L c w" and sl: "\<And>a. a < length (w_slices w) \<Longrightarrow> sl ! a = w_slices w ! a"
    and t: "lists_rows c R sl cur" "labels_ok (length (getAllLabels c)) R"
    and g: "is_gauge c g i" "\<And>g'. is_gauge c g' i \<Longrightarrow> g' = g"
  shows "obsolete_in c cur sl (c_gaugeLabels c) i l \<longleftrightarrow> l \<notin> R \<and> (\<exists>a. tbl (c_gaugeLabels c) g (join ''|'' l) = Some a \<and> w_slices w ! a = l)"
proof -
  have old: "sl ! a = w_slices w ! a" "k = join ''|'' (w_slices w ! a)" "clean (w_slices w ! a)" "length (w_slices w ! a) = length (getAllLabels c)"
    if "tbl (c_gaugeLabels c) g k = Some a" for k a
    using g0 that sl by (auto simp: gauges_inv_def)
  have wf: "table_wf (c_gaugeLabels c)" using g0 by (simp add: gauges_inv_def)
  have iff: "is_gauge c g' i \<longleftrightarrow> g' = g" for g' using g by blast
  have "obsolete_in c cur sl (c_gaugeLabels c) i l \<longleftrightarrow> (\<exists>k a. tbl (c_gaugeLabels c) g k = Some a \<and> tbl cur g k = None \<and> sl ! a = l)"
    unfolding obsolete_in_def obsolete_def iff table_wf_iff[OF wf, symmetric] by auto
  also have "\<dots> \<longleftrightarrow> (\<exists>a. tbl (c_gaugeLabels c) g (join ''|'' l) = Some a \<and> w_slices w ! a = l \<and> tbl cur g (join ''|'' l) = None)"
  proof
    assume "\<exists>k a. tbl (c_gaugeLabels c) g k = Some a \<and> tbl cur g k = None \<and> sl ! a = l"
    then obtain k a where k: "tbl (c_gaugeLabels c) g k = Some a" "tbl cur g k = None" "sl ! a = l" by blast
    then have "w_slices w ! a = l" "k = join ''|'' l" using old(1,2)[OF k(1)] by auto
    then show "\<exists>a. tbl (c_gaugeLabels c) g (join ''|'' l) = Some a \<and> w_slices w ! a = l \<and> tbl cur g (join ''|'' l) = None" using k by blast
  qed (use old(1) in blast)
  also have "\<dots> \<longleftrightarrow> l \<notin> R \<and> (\<exists>a. tbl (c_gaugeLabels c) g (join ''|'' l) = Some a \<and> w_slices w ! a = l)"
    using lists_rows_None[OF t g(1)] old(3,4) by blast
  finally show ?thesis .
qed

lemma gauges_inv_lists:
  assumes t: "lists_rows c R (w_slices w) cur" "labels_ok (length (getAllLabels c)) R" "table_wf cur"
    and se: "\<And>g i l. is_gauge c g i \<Longrightarrow> series L w i l \<noteq> None \<Longrightarrow> l \<in> R"
  shows "gauges_inv L (c\<lparr>c_countersCache := ca, c_gaugeLabels := cur\<rparr>) w"
proof -
  let ?c = "c\<lparr>c_countersCache := ca, c_gaugeLabels := cur\<rparr>"
  have c: "is_gauge ?c = is_gauge c" "getAllLabels ?c = getAllLabels c" by (simp_all add: is_gauge_def getAllLabels_def fun_eq_iff)
  have "a < length (w_slices w) \<and> k = join ''|'' (w_slices w ! a) \<and> length (w_slices w ! a) = length (getAllLabels c) \<and> clean (w_slices w ! a)"
    if "tbl cur g k = Some a" for g k a
    using lists_rowsD(1)[OF t(1) that] labels_okD[OF t(2)] by blast
  moreover have "\<exists>a. tbl cur g (join ''|'' l) = Some a \<and> w_slices w ! a = l" if g: "is_gauge c g i" and s: "series L w i l \<noteq> None" for g i l
  proof -
    have l: "l \<in> R" using se[OF g s] .
    then obtain a where a: "tbl cur g (join ''|'' l) = Some a" using lists_rowsD(2)[OF t(1) g] by blast
    have "w_slices w ! a = l"
      using lists_rowsD(1)[OF t(1) a] labels_okD[OF t(2)] l join_inj[of l "w_slices w ! a"] by metis
    then show ?thesis using a by blast
  qed
  ultimately show ?thesis using t(3) by (simp add: gauges_inv_def c)
qed

lemma clear_exact:
  fixes L :: "('v, 'r, 'c) libs"
  assumes ok: "libs_ok L" and g0: "gauges_inv L c w" and res: "result_ok c db desc rows"
    and eff: "rows_effect L db desc (decoded rows) (c, w, []) (c1, w1, cur)" and wf: "table_wf cur"
    and cl: "clearObsoleteGauges L cur (c1, w1) = (c2, w2)"
  shows "counters_inv L c2 w2 \<and> gauges_inv L c2 w2 \<and> (\<forall>g i l. is_gauge c g i \<longrightarrow> series L w2 i l =
      (if \<exists>vs \<in> set (decoded rows). row_labels c db (zip desc vs) = l
       then gauge_rows c db desc (decoded rows) g l (series L w i l) else None))"
proof -
  let ?R = "(\<lambda>vs. row_labels c db (zip desc vs)) ` set (decoded rows)"
  obtain ca where c1: "c1 = c\<lparr>c_countersCache := ca\<rparr>" and inv1: "counters_inv L c1 w1"
    and w1: "w_slices w1 = w_slices w @ map (\<lambda>vs. row_labels c db (zip desc vs)) (decoded rows)"
    and se1: "\<And>g i l. is_gauge c g i \<Longrightarrow> series L w1 i l = gauge_rows c db desc (decoded rows) g l (series L w i l)"
    using eff by (auto simp: rows_effect_def)
  have mok: "metrics_ok L c1 w1" using inv1 by (simp add: counters_inv_def)
  have gi: "is_gauge c1 = is_gauge c" by (simp add: c1 is_gauge_def fun_eq_iff)
  have c2: "c2 = c1\<lparr>c_gaugeLabels := cur\<rparr>" and w2: "w2 = fold (\<lambda>(g, labels). clear_gauge L c1 cur g labels) (c_gaugeLabels c1) w1"
    using cl by (simp_all add: clearObsoleteGauges_def)
  have fr: "world_frame L w1 w2" and se2: "\<And>j l. j < length (w_vecs w1) \<Longrightarrow>
      series L w2 j l = (if obsolete_in c1 cur (w_slices w1) (c_gaugeLabels c1) j l then None else series L w1 j l)"
    using clear_gauges_effect[OF ok, of c1 w1 cur "c_gaugeLabels c1"] is_gauge_index[OF mok] unfolding w2[symmetric] by blast+
  have lab: "labels_ok (length (getAllLabels c)) ?R" using res by (auto simp: labels_ok_def result_ok_def)
  note li = rows_effect_lists[OF eff res]
  have obs: "obsolete_in c1 cur (w_slices w1) (c_gaugeLabels c1) i l \<longleftrightarrow>
      l \<notin> ?R \<and> (\<exists>a. tbl (c_gaugeLabels c) g (join ''|'' l) = Some a \<and> w_slices w ! a = l)" if g: "is_gauge c g i" for g i l
  proof -
    have only: "g' = g" if "is_gauge c g' i" for g'
      using g that metrics_okD(5)[OF mok] unfolding gi[symmetric] is_gauge_def by metis
    have "obsolete_in c1 = (obsolete_in c :: gauge_table \<Rightarrow> _)" by (simp add: obsolete_in_def gi fun_eq_iff)
    then show ?thesis using obsolete_in_iff[OF g0 _ li lab g only] by (simp add: w1 nth_append c1)
  qed
  have fin: "series L w2 i l = (if l \<in> ?R then gauge_rows c db desc (decoded rows) g l (series L w i l) else None)" if g: "is_gauge c g i" for g i l
  proof -
    have i: "i < length (w_vecs w1)" using is_gauge_index[OF mok] g gi by simp
    have "series L w i l \<noteq> None \<longrightarrow> (\<exists>a. tbl (c_gaugeLabels c) g (join ''|'' l) = Some a \<and> w_slices w ! a = l)"
      using g0 g by (simp add: gauges_inv_def)
    moreover have "l \<notin> ?R \<Longrightarrow> gauge_rows c db desc (decoded rows) g l (series L w i l) = series L w i l" by (rule gauge_rows_none) auto
    ultimately show ?thesis using se2[OF i, of l] obs[OF g, of l] se1[OF g, of l] by auto
  qed
  have "counters_inv L c2 w2" unfolding c2 by (rule counters_inv_clear[OF inv1 fr se2])
  moreover have "gauges_inv L c2 w2"
    unfolding c2 c1 using fin lab wf li fr by (intro gauges_inv_lists) (auto simp: world_frame_def split: if_splits)
  ultimately show ?thesis using fin by (auto simp: image_iff)
qed

end
