(* ===== verification/Collector_Setup.thy ===== *)
theory Collector_Setup
  imports Collector_Gauges
begin

text \<open>
  The life of a collector around its runs: \<^verbatim>\<open>FromCollection\<close> gives a well-formed collector whose
  vectors are registered and empty, \<^verbatim>\<open>Unregister\<close> takes all of them out of the registry, and
  \<^verbatim>\<open>Collect\<close> puts the runs together.  The last section states the properties of the component.
\<close>

section \<open>Registration\<close>

lemma reg_Unregister_law:
  assumes "libs_ok L"
  shows "reg_lookup (lib_reg L) (snd (reg_Unregister (lib_reg L) v r)) = (reg_lookup (lib_reg L) r)(vec_name (lib_vec L) v := None)"
    "reg_desc (lib_reg L) (snd (reg_Unregister (lib_reg L) v r)) = reg_desc (lib_reg L) r"
  using assms unfolding libs_ok_def reg_laws_def by auto

lemma reg_Register_Inr:
  assumes "libs_ok L" "reg_Register (lib_reg L) i v r = Inr r'"
  shows "reg_accepts (lib_vec L) (lib_reg L) v r"
    "reg_lookup (lib_reg L) r' = (reg_lookup (lib_reg L) r)(vec_name (lib_vec L) v \<mapsto> i)"
    "reg_desc (lib_reg L) r' = (reg_desc (lib_reg L) r)(vec_name (lib_vec L) v \<mapsto> (vec_help (lib_vec L) v, vec_labels (lib_vec L) v))"
proof -
  have acc: "\<forall>i v r. reg_accepts (lib_vec L) (lib_reg L) v r \<longrightarrow> (\<exists>r'. reg_Register (lib_reg L) i v r = Inr r'
        \<and> reg_lookup (lib_reg L) r' = (reg_lookup (lib_reg L) r)(vec_name (lib_vec L) v \<mapsto> i)
        \<and> reg_desc (lib_reg L) r' = (reg_desc (lib_reg L) r)(vec_name (lib_vec L) v \<mapsto> (vec_help (lib_vec L) v, vec_labels (lib_vec L) v)))"
    using assms(1) unfolding libs_ok_def reg_laws_def by (elim conjE)
  have rej: "\<forall>i v r. \<not> reg_accepts (lib_vec L) (lib_reg L) v r \<longrightarrow> (\<exists>e. reg_Register (lib_reg L) i v r = Inl (Err e))"
    using assms(1) unfolding libs_ok_def reg_laws_def by (elim conjE)
  show a: "reg_accepts (lib_vec L) (lib_reg L) v r" using rej assms(2) by (metis Inl_Inr_False)
  show "reg_lookup (lib_reg L) r' = (reg_lookup (lib_reg L) r)(vec_name (lib_vec L) v \<mapsto> i)"
    "reg_desc (lib_reg L) r' = (reg_desc (lib_reg L) r)(vec_name (lib_vec L) v \<mapsto> (vec_help (lib_vec L) v, vec_labels (lib_vec L) v))"
    using acc[rule_format, OF a, of i] assms(2) by auto
qed

lemma reg_Register_rejects:
  assumes "libs_ok L" "\<not> reg_accepts (lib_vec L) (lib_reg L) v r"
  shows "\<exists>e. reg_Register (lib_reg L) i v r = Inl (Err e)"
  using assms unfolding libs_ok_def reg_laws_def by auto

lemma vec_new_laws:
  assumes "libs_ok L"
  shows "vec_value (lib_vec L) (vec_new (lib_vec L) k n h ls) l = None" "vec_name (lib_vec L) (vec_new (lib_vec L) k n h ls) = n"
    "vec_help (lib_vec L) (vec_new (lib_vec L) k n h ls) = h" "vec_labels (lib_vec L) (vec_new (lib_vec L) k n h ls) = ls"
  using assms unfolding libs_ok_def vec_laws_def by auto

lemma metricName_inj [simp]: "metricName c n = metricName c n' \<longleftrightarrow> n = n'"
  by (simp add: metricName_def)

text \<open>A collector under construction: its vectors are empty and are the ones the registry exposes under its names.\<close>

definition fresh_collector :: "('v, 'r, 'c) libs \<Rightarrow> 'c collector \<Rightarrow> ('v, 'r) world \<Rightarrow> bool" where
  "fresh_collector L c w = (metrics_ok L c w \<and> wf_map (c_metrics c) \<and> c_countersCache c = None \<and> c_gaugeLabels c = []
     \<and> (\<forall>n m. map_of (c_metrics c) n = Some m \<longrightarrow> (\<forall>l. series L w (vec_index (m_vec m)) l = None)
          \<and> vec_name (lib_vec L) (w_vecs w ! vec_index (m_vec m)) = metricName c n
          \<and> reg_lookup (lib_reg L) (w_reg w) (metricName c n) = Some (vec_index (m_vec m))))"

lemma fresh_metrics_upd [simp]:
  "getAllLabels (c\<lparr>c_metrics := ms\<rparr>) = getAllLabels c" "metricName (c\<lparr>c_metrics := ms\<rparr>) = metricName c"
  "getAllLabels (c\<lparr>c_countersCardinality := k\<rparr>) = getAllLabels c" "metricName (c\<lparr>c_countersCardinality := k\<rparr>) = metricName c"
  by (simp_all add: getAllLabels_def metricName_def fun_eq_iff)

lemma add_metric_fresh:
  assumes ok: "libs_ok L" and f: "fresh_collector L c w" and r: "add_metric L kind ref name help (c, w) = (Inr (), (c', w'))"
    and ref: "\<And>i. vec_index (ref i) = i" and val: "valid_utf8 name"
  shows "fresh_collector L c' w'
    \<and> c' = c\<lparr>c_metrics := AList.update name \<lparr>m_help = help, m_kind = kind, m_name = name, m_vec = ref (length (w_vecs w))\<rparr> (c_metrics c)\<rparr>
    \<and> w_slices w' = w_slices w \<and> length (w_vecs w') = Suc (length (w_vecs w))"
proof -
  let ?v = "vec_new (lib_vec L) kind (metricName c name) help (getAllLabels c)" and ?i = "length (w_vecs w)"
  let ?m = "\<lparr>m_help = help, m_kind = kind, m_name = name, m_vec = ref ?i\<rparr>"
  let ?r = "snd (reg_Unregister (lib_reg L) ?v (w_reg w))"
  obtain r' where reg: "reg_Register (lib_reg L) ?i ?v ?r = Inr r'"
    and c': "c' = c\<lparr>c_metrics := AList.update name ?m (c_metrics c)\<rparr>"
    and w': "w' = w\<lparr>w_vecs := w_vecs w @ [?v], w_reg := r'\<rparr>"
    using r by (auto simp: add_metric_def Let_def split: sum.splits)
  have lk: "reg_lookup (lib_reg L) r' n = (if n = metricName c name then Some ?i else reg_lookup (lib_reg L) (w_reg w) n)" for n
    using reg_Register_Inr(2)[OF ok reg] reg_Unregister_law(1)[OF ok, of ?v "w_reg w"] by (simp add: vec_new_laws[OF ok])
  have mok: "metrics_ok L c w" using f by (simp add: fresh_collector_def)
  have entry: "n = name \<and> m = ?m \<or> n \<noteq> name \<and> map_of (c_metrics c) n = Some m" if "map_of (c_metrics c') n = Some m" for n m
    using that by (auto simp: c' split: if_splits)
  have new: "w_vecs w' ! ?i = ?v" and old: "i < ?i \<Longrightarrow> w_vecs w' ! i = w_vecs w ! i" for i
    by (simp_all add: w' nth_append)
  have "metrics_ok L c' w'"
    unfolding metrics_ok_def
  proof (intro conjI allI impI)
    fix n m assume "map_of (c_metrics c') n = Some m"
    from entry[OF this] show "m_name m = n" "valid_utf8 n" "vec_index (m_vec m) < length (w_vecs w')"
        "vec_labels (lib_vec L) (w_vecs w' ! vec_index (m_vec m)) = getAllLabels c'"
      using val ref metrics_okD(1-4)[OF mok, of n m] new old by (auto simp: c' w' vec_new_laws[OF ok] nth_append)
  next
    fix n n' m m' assume "map_of (c_metrics c') n = Some m" "map_of (c_metrics c') n' = Some m'" "vec_index (m_vec m) = vec_index (m_vec m')"
    then show "n = n'"
      using entry[of n m] entry[of n' m'] metrics_okD(3)[OF mok, of n m] metrics_okD(3)[OF mok, of n' m'] metrics_okD(5)[OF mok, of n m n' m'] ref
      by auto
  qed
  moreover have "(\<forall>l. series L w' (vec_index (m_vec m)) l = None) \<and> vec_name (lib_vec L) (w_vecs w' ! vec_index (m_vec m)) = metricName c' n
      \<and> reg_lookup (lib_reg L) (w_reg w') (metricName c' n) = Some (vec_index (m_vec m))" if "map_of (c_metrics c') n = Some m" for n m
    using entry[OF that]
  proof (elim disjE conjE)
    assume "n = name" "m = ?m"
    then show ?thesis using new ref lk by (simp add: series_def vec_new_laws[OF ok] c' w')
  next
    assume o: "n \<noteq> name" "map_of (c_metrics c) n = Some m"
    then show ?thesis
      using f old[of "vec_index (m_vec m)"] metrics_okD(3)[OF mok o(2)] lk[of "metricName c n"]
      by (simp add: fresh_collector_def series_def c' w')
  qed
  moreover have "wf_map (c_metrics c')" "c_countersCache c' = None" "c_gaugeLabels c' = []"
    using f by (auto simp: fresh_collector_def c')
  ultimately show ?thesis using c' w' by (simp add: fresh_collector_def)
qed

definition kind_of :: "Metric \<Rightarrow> MetricKind" where
  "kind_of x = (if metric_Kind x = Gauge then KGauge else if metric_Kind x = Counter then KCounter else Undefined)"

text \<open>The entry of a metric: its kind is the one of its vector.\<close>

definition entry_of :: "Metric \<Rightarrow> metric \<Rightarrow> bool" where
  "entry_of x m = (m_name m = metric_Name x \<and> m_help m = metric_Help x \<and> m_kind m = kind_of x
     \<and> (case m_vec m of CounterVec _ \<Rightarrow> kind_of x = KCounter | GaugeVec _ \<Rightarrow> kind_of x = KGauge))"

text \<open>The fields of a collector that registering metrics leaves alone.\<close>

definition same_config :: "'c collector \<Rightarrow> 'c collector \<Rightarrow> bool" where
  "same_config c c' = (c_name c' = c_name c \<and> c_labels c' = c_labels c \<and> c_labelMap c' = c_labelMap c \<and> c_databases c' = c_databases c
     \<and> c_frequency c' = c_frequency c \<and> c_lastModified c' = c_lastModified c \<and> c_maxResults c' = c_maxResults c
     \<and> c_query c' = c_query c \<and> c_enabled c' = c_enabled c \<and> c_locked c' = c_locked c)"

lemma same_config_trans: "same_config a b \<Longrightarrow> same_config b c \<Longrightarrow> same_config a c"
  by (simp add: same_config_def)

definition add_one :: "('v, 'r, 'c) libs \<Rightarrow> string \<Rightarrow> Metric \<Rightarrow> ('c collector \<times> ('v, 'r) world, unit) op" where
  "add_one L coll m = (if metric_Kind m = Gauge then AddGauge L (metric_Name m) (metric_Help m)
      else if metric_Kind m = Counter then AddCounter L (metric_Name m) (metric_Help m)
      else (\<lambda>s. (Inl (Err (unsupported coll m)), s)))"

lemma fresh_cardinality: "fresh_collector L (c\<lparr>c_countersCardinality := k\<rparr>) w = fresh_collector L c w"
  by (simp add: fresh_collector_def metrics_ok_def)

lemma add_one_fresh:
  assumes ok: "libs_ok L" and f: "fresh_collector L c w" and r: "add_one L coll x (c, w) = (Inr (), (c', w'))" and v: "valid_utf8 (metric_Name x)"
  shows "fresh_collector L c' w' \<and> same_config c c' \<and> w_slices w' = w_slices w
    \<and> (\<exists>m. entry_of x m \<and> c_metrics c' = AList.update (metric_Name x) m (c_metrics c))"
proof -
  consider (g) "metric_Kind x = Gauge" | (c) "metric_Kind x \<noteq> Gauge" "metric_Kind x = Counter"
    using r by (auto simp: add_one_def split: if_splits)
  then show ?thesis
  proof cases
    case g
    then have "add_metric L KGauge GaugeVec (metric_Name x) (metric_Help x) (c, w) = (Inr (), (c', w'))"
      using r by (simp add: add_one_def AddGauge_def)
    note A = add_metric_fresh[OF ok f this _ v]
    have "entry_of x \<lparr>m_help = metric_Help x, m_kind = KGauge, m_name = metric_Name x, m_vec = GaugeVec (length (w_vecs w))\<rparr>"
      using g by (simp add: entry_of_def kind_of_def)
    then show ?thesis using A by (auto simp: same_config_def)
  next
    case c
    let ?c = "c\<lparr>c_countersCardinality := wrap64 (c_countersCardinality c + 1)\<rparr>"
    have "add_metric L KCounter CounterVec (metric_Name x) (metric_Help x) (?c, w) = (Inr (), (c', w'))"
      using r c by (simp add: add_one_def AddCounter_def)
    note A = add_metric_fresh[OF ok _ this _ v]
    have "entry_of x \<lparr>m_help = metric_Help x, m_kind = KCounter, m_name = metric_Name x, m_vec = CounterVec (length (w_vecs w))\<rparr>"
      using c by (simp add: entry_of_def kind_of_def)
    then show ?thesis using A f by (auto simp: same_config_def fresh_cardinality)
  qed
qed

lemma add_metrics_fresh:
  assumes ok: "libs_ok L" and "fresh_collector L c w" "add_metrics L coll ms (c, w) = (Inr (), (c', w'))"
    and "\<forall>x \<in> set ms. valid_utf8 (metric_Name x)" "distinct (map metric_Name ms)"
  shows "fresh_collector L c' w' \<and> same_config c c' \<and> w_slices w' = w_slices w
    \<and> (\<forall>x \<in> set ms. \<exists>m. map_of (c_metrics c') (metric_Name x) = Some m \<and> entry_of x m)
    \<and> (\<forall>n. n \<notin> metric_Name ` set ms \<longrightarrow> map_of (c_metrics c') n = map_of (c_metrics c) n)"
  using assms(2-)
proof (induction ms arbitrary: c w)
  case Nil
  then show ?case by (simp add: same_config_def)
next
  case (Cons x ms)
  obtain c1 w1 where 1: "add_one L coll x (c, w) = (Inr (), (c1, w1))" and 2: "add_metrics L coll ms (c1, w1) = (Inr (), (c', w'))"
    using Cons.prems(2) by (auto simp: add_one_def[symmetric] op_bind_def split: prod.splits sum.splits)
  note s = add_one_fresh[OF ok Cons.prems(1) 1]
  from s obtain m where m: "entry_of x m" "c_metrics c1 = AList.update (metric_Name x) m (c_metrics c)"
    using Cons.prems(3) by auto
  have IH: "fresh_collector L c' w' \<and> same_config c1 c' \<and> w_slices w' = w_slices w1
    \<and> (\<forall>x \<in> set ms. \<exists>m. map_of (c_metrics c') (metric_Name x) = Some m \<and> entry_of x m)
    \<and> (\<forall>n. n \<notin> metric_Name ` set ms \<longrightarrow> map_of (c_metrics c') n = map_of (c_metrics c1) n)"
    by (rule Cons.IH[OF _ 2]) (use s Cons.prems in auto)
  have "map_of (c_metrics c') (metric_Name x) = Some m" using IH m(2) Cons.prems(4) by simp
  then show ?case using IH s m Cons.prems(3) same_config_trans[of c c1 c'] by auto
qed

lemma label_positions_dom: "dom (map_of (label_positions i ls m)) = set ls \<union> dom (map_of m)"
  by (induction ls arbitrary: i m) auto

lemma FromCollection_fresh:
  fixes L :: "('v, 'r, 'c) libs"
  assumes ok: "libs_ok L" and r: "FromCollection L coll w = (Inr c, w')"
    and v: "\<forall>x \<in> set (coll_Metrics coll). valid_utf8 (metric_Name x)" "distinct (map metric_Name (coll_Metrics coll))"
  shows "fresh_collector L c w' \<and> w_slices w' = w_slices w \<and> c_name c = coll_Name coll \<and> c_labels c = coll_Labels coll
    \<and> c_databases c = coll_Databases coll \<and> c_query c = coll_Query coll \<and> c_maxResults c = coll_MaxResult coll
    \<and> c_lastModified c = coll_LastModified coll \<and> c_frequency c = quot (Microseconds (coll_Frequency coll)) 1000000
    \<and> c_enabled c \<and> \<not> c_locked c \<and> dom (map_of (c_labelMap c)) = set (coll_Labels coll)
    \<and> (\<forall>x \<in> set (coll_Metrics coll). \<exists>m. map_of (c_metrics c) (metric_Name x) = Some m \<and> entry_of x m)
    \<and> dom (map_of (c_metrics c)) = metric_Name ` set (coll_Metrics coll)"
proof -
  define c0 :: "'c collector" where "c0 = \<lparr>c_name = coll_Name coll, c_countersCache = None, c_countersCardinality = 0,
            c_databases = coll_Databases coll, c_enabled = True,
            c_frequency = quot (Microseconds (coll_Frequency coll)) (1000 * 1000),
            c_gaugeLabels = [], c_labelMap = label_positions 0 (coll_Labels coll) [], c_labels = coll_Labels coll,
            c_lastModified = coll_LastModified coll, c_maxResults = coll_MaxResult coll, c_metrics = [],
            c_query = coll_Query coll, c_locked = False\<rparr>"
  have a: "add_metrics L (coll_Name coll) (coll_Metrics coll) (c0, w) = (Inr (), (c, w'))"
    using r unfolding FromCollection_def Let_def c0_def[symmetric] by (auto split: prod.splits sum.splits)
  have f: "fresh_collector L c0 w" by (simp add: fresh_collector_def metrics_ok_def c0_def)
  note A = add_metrics_fresh[OF ok f a v]
  have "dom (map_of (c_metrics c)) = metric_Name ` set (coll_Metrics coll)"
  proof -
    have "map_of (c_metrics c) n = None" if "n \<notin> metric_Name ` set (coll_Metrics coll)" for n
      using A that by (simp add: c0_def)
    then show ?thesis using A by force
  qed
  then show ?thesis using A by (simp add: same_config_def) (simp add: c0_def label_positions_dom)
qed

section \<open>A run on a new collector\<close>

lemma maybeInitCache_fresh:
  assumes ok: "libs_ok L" and f: "fresh_collector L c w"
  shows "counters_inv L (maybeInitCache L c) w" "gauges_inv L (maybeInitCache L c) w"
    "cached L (maybeInitCache L c) k = None"
    "cache_max L (maybeInitCache L c) = wrap64 (wrap64 (c_countersCardinality c * c_maxResults c) * 2)"
proof -
  let ?n = "wrap64 (wrap64 (c_countersCardinality c * c_maxResults c) * 2)"
  let ?c = "c\<lparr>c_countersCache := Some (lru_New (lib_lru L) ?n)\<rparr>"
  have c: "maybeInitCache L c = ?c" using f by (simp add: maybeInitCache_def fresh_collector_def)
  have new: "lru_peek (lib_lru L) (lru_New (lib_lru L) n) k = None" "lru_max (lib_lru L) (lru_New (lib_lru L) n) = n" for n k
    using ok unfolding libs_ok_def lru_laws_def by auto
  have e: "cached L ?c k = None" for k by (simp add: new)
  have "metrics_ok L ?c w" using f by (simp add: fresh_collector_def metrics_ok_def)
  moreover have "cache_sound L ?c w" by (simp add: cache_sound_def new)
  moreover have "series L w i l = None" if "map_of (c_metrics c) n = Some m" "vec_index (m_vec m) = i" for n m i l
    using f that by (auto simp: fresh_collector_def)
  note none = this
  then have "cache_complete L ?c w" by (fastforce simp: cache_complete_def)
  ultimately show "counters_inv L (maybeInitCache L c) w" by (simp add: c counters_inv_def)
  show "gauges_inv L (maybeInitCache L c) w"
    using f none by (fastforce simp: c gauges_inv_def fresh_collector_def table_wf_def is_gauge_def)
  show "cached L (maybeInitCache L c) k = None" by (simp add: c new)
  show "cache_max L (maybeInitCache L c) = ?n" by (simp add: c cache_max_def new)
qed

section \<open>Properties\<close>

lemma collectLocked_run:
  fixes L :: "('v, 'r, 'c) libs"
  assumes "libs_ok L" "counters_inv L c w" "gauges_inv L c w" "result_ok c db desc rows"
    and "ans_begin ans = None" "ans_use ans = None" "ans_query ans = Inr (desc, rows)" "ans_commit ans = None"
  shows "\<exists>ca t w'. collectLocked L ans db (c, w) = (Inr (), (c\<lparr>c_countersCache := ca, c_gaugeLabels := t\<rparr>, w'))
    \<and> counters_inv L (c\<lparr>c_countersCache := ca, c_gaugeLabels := t\<rparr>) w' \<and> gauges_inv L (c\<lparr>c_countersCache := ca, c_gaugeLabels := t\<rparr>) w'
    \<and> (\<forall>g i l. is_gauge c g i \<longrightarrow> series L w' i l =
        (if \<exists>vs \<in> set (decoded rows). row_labels c db (zip desc vs) = l
         then gauge_rows c db desc (decoded rows) g l (series L w i l) else None))"
proof -
  have r: "labels_first c desc" "distinct desc" "valid_utf8 db" "\<forall>vs \<in> set (decoded rows). row_ok c desc vs"
      "length desc = length (c_labels c) + length (c_metrics c)"
    using assms(4) by (auto simp: result_ok_def)
  have gl: "\<not> is_label c g" if "is_gauge c g i" for g i
    using assms(4) that by (auto simp: result_ok_def is_gauge_def)
  obtain c1 w1 cur where rows: "collect_rows L db desc rows (c, w, []) = Inr (c1, w1, cur)"
    and eff: "rows_effect L db desc (decoded rows) (c, w, []) (c1, w1, cur)"
    using collect_rows_effect[OF assms(1,2) r(1-4), of "[]"] gl by auto
  obtain ca where ca: "c1 = c\<lparr>c_countersCache := ca\<rparr>" using eff by (auto simp: rows_effect_def)
  have "table_wf cur" using collect_rows_table_wf[OF rows] by (simp add: table_wf_def)
  moreover obtain w2 where cl: "clearObsoleteGauges L cur (c1, w1) = (c\<lparr>c_countersCache := ca, c_gaugeLabels := cur\<rparr>, w2)"
    by (simp add: clearObsoleteGauges_def ca)
  moreover have "collectLocked L ans db (c, w) = (Inr (), (c\<lparr>c_countersCache := ca, c_gaugeLabels := cur\<rparr>, w2))"
    using assms(5-8) r(5) rows cl by (cases "db = []") (simp_all add: collectLocked_def)
  ultimately show ?thesis using clear_exact[OF assms(1,3,4) eff] by blast
qed


text \<open>The library instances, a collection with a gauge and a counter, and two results of its query.\<close>

definition ref_libs :: "(list_vec, list_reg, int \<times> (string, cacheValue) gomap) libs" where
  "ref_libs = \<lparr>lib_vec = list_vec_api, lib_reg = list_reg_api, lib_lru = list_lru_api\<rparr>"

lemma ref_libs_ok: "libs_ok ref_libs"
  by (simp add: libs_ok_def ref_libs_def list_vec_laws list_reg_laws list_lru_laws)

definition ex_sessions :: "string \<Rightarrow> Collection" where
  "ex_sessions dbs = \<lparr>coll_Databases = dbs, coll_Enabled = True, coll_Frequency = \<lparr>Microseconds = 10000000, Days = 0, Months = 0\<rparr>,
     coll_Labels = [''app''], coll_LastModified = 0, coll_MaxResult = 10,
     coll_Metrics = [\<lparr>metric_Name = ''open'', metric_Kind = Gauge, metric_Help = ''h''\<rparr>,
                     \<lparr>metric_Name = ''total'', metric_Kind = Counter, metric_Help = ''h''\<rparr>],
     coll_Name = ''sessions'', coll_Query = ''q'', coll_Scope = Cluster\<rparr>"

definition ex_world :: "(list_vec, list_reg) world" where
  "ex_world = \<lparr>w_vecs = [], w_reg = \<lparr>lr_live = [], lr_seen = []\<rparr>, w_slices = []\<rparr>"

definition ex_c :: "string \<Rightarrow> (int \<times> (string, cacheValue) gomap) collector" where
  "ex_c dbs = projr (fst (FromCollection ref_libs (ex_sessions dbs) ex_world))"

definition ex_w :: "string \<Rightarrow> (list_vec, list_reg) world" where
  "ex_w dbs = snd (FromCollection ref_libs (ex_sessions dbs) ex_world)"

definition ex_answer :: "(string \<times> int \<times> int) list \<Rightarrow> answer" where
  "ex_answer rs = \<lparr>ans_begin = None, ans_use = None,
     ans_query = Inr ([''app'', ''open'', ''total''],
       map (\<lambda>(a, g, n). Inr [DString a, DFloat (Fin (of_int g)), DFloat (Fin (of_int n))]) rs), ans_commit = None\<rparr>"

lemma ex_c_eq:
  "FromCollection ref_libs (ex_sessions dbs) ex_world = (Inr (ex_c dbs), ex_w dbs)"
  by (simp add: ex_c_def ex_w_def ex_sessions_def FromCollection_def ref_libs_def ex_world_def op_bind_def AddGauge_def AddCounter_def
      add_metric_def Let_def list_vec_api_def list_reg_api_def lr_accepts_def getAllLabels_def metricName_def Gauge_def Counter_def
      databaseLabel_def wrap64_def)

lemma ex_c_fields:
  "c_labelMap (ex_c dbs) = [(''app'', 0)]" "c_labels (ex_c dbs) = [''app'']" "c_databases (ex_c dbs) = dbs"
  "c_metrics (ex_c dbs) = [(''open'', \<lparr>m_help = ''h'', m_kind = KGauge, m_name = ''open'', m_vec = GaugeVec 0\<rparr>),
     (''total'', \<lparr>m_help = ''h'', m_kind = KCounter, m_name = ''total'', m_vec = CounterVec 1\<rparr>)]"
  "c_countersCache (ex_c dbs) = None"
  by (simp_all add: ex_c_def ex_sessions_def FromCollection_def ref_libs_def ex_world_def op_bind_def AddGauge_def AddCounter_def
      add_metric_def Let_def list_vec_api_def list_reg_api_def lr_accepts_def getAllLabels_def metricName_def Gauge_def Counter_def
      databaseLabel_def wrap64_def)

lemma ex_fresh: "fresh_collector ref_libs (ex_c dbs) (ex_w dbs)"
proof -
  have "valid_utf8 ''open''" "valid_utf8 ''total''" by (simp_all add: byte_def)
  then show ?thesis
    using FromCollection_fresh[OF ref_libs_ok ex_c_eq, of dbs] by (simp add: ex_sessions_def)
qed

abbreviation ex_c1 :: "string \<Rightarrow> (int \<times> (string, cacheValue) gomap) collector" where
  "ex_c1 dbs \<equiv> maybeInitCache ref_libs (ex_c dbs)"

lemma ex_c1_fields:
  "c_labelMap (ex_c1 dbs) = [(''app'', 0)]" "c_labels (ex_c1 dbs) = [''app'']" "c_databases (ex_c1 dbs) = dbs"
  "c_metrics (ex_c1 dbs) = c_metrics (ex_c dbs)"
  by (simp_all add: maybeInitCache_def ex_c_fields)

lemma ex_row_labels:
  "row_labels (ex_c1 []) [] (zip [''app'', ''open'', ''total''] [DString a, g, n]) = [a]"
  by (simp add: row_labels_def set_labels_def new_labels_def getAllLabels_def ex_c1_fields ex_c_fields)

lemma ex_result_ok:
  "result_ok (ex_c1 []) [] [''app'', ''open'', ''total'']
     [Inr [DString ''cli'', DFloat (Fin 3), DFloat (Fin 7)], Inr [DString ''web'', DFloat (Fin 5), DFloat (Fin 9)]]"
  by (simp add: result_ok_def labels_first_def is_label_def ex_c1_fields ex_c_fields row_ok_def counters_nonneg_def metric_value_def
      ex_row_labels[simplified] clean_def byte_def dom_def)




definition counter_series :: "('v, 'r, 'c) libs \<Rightarrow> 'c collector \<Rightarrow> ('v, 'r) world \<Rightarrow> (string \<times> string list) set" where
  "counter_series L c w = {(n, l). \<exists>m i. map_of (c_metrics c) n = Some m \<and> m_vec m = CounterVec i \<and> series L w i l \<noteq> None}"

lemma counter_series_card:
  assumes ok: "libs_ok L" and inv: "counters_inv L c w"
  shows "finite (counter_series L c w) \<and> card (counter_series L c w) \<le> card (dom (cached L c))"
proof -
  have mok: "metrics_ok L c w" and snd: "cache_sound L c w" using inv by (simp_all add: counters_inv_def)
  have fin: "finite (dom (cached L c))"
  proof -
    have "finite (dom (lru_peek (lib_lru L) ca))" for ca using ok unfolding libs_ok_def lru_laws_def by auto
    then show ?thesis by (cases "c_countersCache c") (auto simp: cached_def[abs_def])
  qed
  have valid: "valid_utf8 n \<and> (\<forall>x \<in> set l. valid_utf8 x) \<and> getKey n l \<in> dom (cached L c)" if nl: "(n, l) \<in> counter_series L c w" for n l
  proof -
    obtain m i where m: "map_of (c_metrics c) n = Some m" "m_vec m = CounterVec i" "series L w i l \<noteq> None"
      using nl by (auto simp: counter_series_def)
    then obtain cv where cv: "cached L c (getKey n l) = Some cv" "w_slices w ! cv_labels cv = l"
      using inv unfolding counters_inv_def cache_complete_def by blast
    have "slice_ok c w (cv_labels cv)" using cache_soundE[OF snd cv(1)] by metis
    then show ?thesis using metrics_okD(2)[OF mok m(1)] slice_okD(3) cv by auto
  qed
  have "p = q" if p: "p \<in> counter_series L c w" and q: "q \<in> counter_series L c w" and
    eq: "getKey (fst p) (snd p) = getKey (fst q) (snd q)" for p q
  proof -
    have "valid_utf8 (fst p) \<and> (\<forall>x \<in> set (snd p). valid_utf8 x)" "valid_utf8 (fst q) \<and> (\<forall>x \<in> set (snd q). valid_utf8 x)"
      using valid[of "fst p" "snd p"] valid[of "fst q" "snd q"] p q by simp_all
    then have "fst p = fst q \<and> snd p = snd q"
      by (elim conjE) (rule iffD1[OF getKey_inj eq]; assumption)
    then show ?thesis by (intro prod_eqI; elim conjE)
  qed
  then have "inj_on (\<lambda>p. getKey (fst p) (snd p)) (counter_series L c w)" by (rule inj_onI)
  moreover have "(\<lambda>p. getKey (fst p) (snd p)) ` counter_series L c w \<subseteq> dom (cached L c)"
    by (rule image_subsetI, rule valid[THEN conjunct2, THEN conjunct2]) simp
  ultimately show ?thesis using fin by (meson card_inj_on_le inj_on_finite)
qed

text \<open>
  C6: the cardinality of the counters is bounded by the size of the LRU cache: if the cache holds
  at most its maximal number of entries, then after any further non-negative value it still does,
  and the counters of the collector have together at most that many series, since the series of an
  evicted entry is deleted.
\<close>

theorem counter_cardinality_bounded:
  fixes L :: "('v, 'r, 'c) libs"
  assumes "libs_ok L" "counters_inv L c w" "0 < cache_max L c" "int (card (dom (cached L c))) \<le> cache_max L c"
    and "map_of (c_metrics c) n = Some m" "m_vec m = CounterVec i" "slice_ok c w a" "\<not> flt v (Fin 0)"
  shows "\<exists>c' w'. counterAdd L i n a v (c, w) = Inr (c', w') \<and> counters_inv L c' w' \<and> cache_max L c' = cache_max L c
    \<and> int (card (dom (cached L c'))) \<le> cache_max L c
    \<and> finite (counter_series L c' w') \<and> int (card (counter_series L c' w')) \<le> cache_max L c"
proof -
  note nn = counterDelta_nonneg[OF assms(8), of "cached L c (getKey n (w_slices w ! a))"]
  obtain ca' w' where r: "counterAdd L i n a v (c, w) = Inr (c\<lparr>c_countersCache := Some ca'\<rparr>, w')"
      "counters_inv L (c\<lparr>c_countersCache := Some ca'\<rparr>) w'" "lru_max (lib_lru L) ca' = cache_max L c"
      "int (card (dom (lru_peek (lib_lru L) ca'))) \<le> cache_max L c"
    using counterAdd_inv[OF assms(1,2,5,6,7) nn] assms(3,4) by blast
  then show ?thesis using counter_series_card[OF assms(1) r(2)]
    by (intro exI[of _ "c\<lparr>c_countersCache := Some ca'\<rparr>"] exI[of _ w']) (auto simp: cache_max_def)
qed

theorem counter_cardinality_bounded_witness:
  "\<exists>c' w'. counterAdd ref_libs 1 ''total'' 0 (Fin 7) (ex_c1 [], (ex_w [])\<lparr>w_slices := [[''cli'']]\<rparr>) = Inr (c', w')
    \<and> int (card (counter_series ref_libs c' w')) \<le> 20"
proof -
  let ?w = "(ex_w [])\<lparr>w_slices := [[''cli'']]\<rparr>"
  have inv: "counters_inv ref_libs (ex_c1 []) ?w"
    using counters_inv_slices[OF maybeInitCache_fresh(1)[OF ref_libs_ok ex_fresh], of "[]" "[[''cli'']]"]
      FromCollection_fresh[OF ref_libs_ok ex_c_eq, of "[]"] by (simp add: ex_sessions_def ex_world_def byte_def)
  have d: "dom (cached ref_libs (ex_c1 [])) = {}" using maybeInitCache_fresh(3)[OF ref_libs_ok ex_fresh] by auto
  have mx: "cache_max ref_libs (ex_c1 []) = 20"
    by (simp add: cache_max_def maybeInitCache_def ex_c_def ex_sessions_def FromCollection_def ref_libs_def ex_world_def op_bind_def
        AddGauge_def AddCounter_def add_metric_def Let_def list_vec_api_def list_reg_api_def lr_accepts_def getAllLabels_def
        metricName_def Gauge_def Counter_def wrap64_def)
  have sl: "slice_ok (ex_c1 []) ?w 0" by (simp add: slice_ok_def ex_c1_fields ex_c_fields getAllLabels_def byte_def)
  have m: "map_of (c_metrics (ex_c1 [])) ''total'' = Some \<lparr>m_help = ''h'', m_kind = KCounter, m_name = ''total'', m_vec = CounterVec 1\<rparr>"
    by (simp add: ex_c1_fields ex_c_fields)
  show ?thesis using counter_cardinality_bounded[OF ref_libs_ok inv _ _ m _ sl, of 1 "Fin 7"] unfolding d mx by auto
qed



text \<open>
  C7: \<^verbatim>\<open>FromCollection\<close> on a collection with distinct metric names, if it succeeds, gives a
  collector with the fields of the collection, whose metrics are those of the collection with
  their kinds, each with an empty vector of its own that carries the labels of the collection and
  is the one the registry exposes under the name of the metric; the first run starts from a
  consistent cache of size two times counters times results.
\<close>

theorem FromCollection_correct:
  fixes L :: "('v, 'r, 'c) libs"
  assumes "libs_ok L" "FromCollection L coll w = (Inr c, w')"
    and "\<forall>x \<in> set (coll_Metrics coll). valid_utf8 (metric_Name x)" "distinct (map metric_Name (coll_Metrics coll))"
  shows "c_name c = coll_Name coll \<and> c_labels c = coll_Labels coll \<and> c_query c = coll_Query coll
    \<and> c_databases c = coll_Databases coll \<and> c_maxResults c = coll_MaxResult coll
    \<and> c_frequency c = quot (Microseconds (coll_Frequency coll)) 1000000
    \<and> (\<forall>x \<in> set (coll_Metrics coll). \<exists>m. map_of (c_metrics c) (metric_Name x) = Some m \<and> entry_of x m
         \<and> (\<forall>l. series L w' (vec_index (m_vec m)) l = None)
         \<and> vec_labels (lib_vec L) (w_vecs w' ! vec_index (m_vec m)) = getAllLabels c
         \<and> reg_lookup (lib_reg L) (w_reg w') (metricName c (metric_Name x)) = Some (vec_index (m_vec m)))
    \<and> dom (map_of (c_metrics c)) = metric_Name ` set (coll_Metrics coll)
    \<and> counters_inv L (maybeInitCache L c) w' \<and> gauges_inv L (maybeInitCache L c) w'"
proof -
  note F = FromCollection_fresh[OF assms]
  have f: "fresh_collector L c w'" using F by blast
  have "(\<forall>l. series L w' (vec_index (m_vec m)) l = None) \<and> vec_labels (lib_vec L) (w_vecs w' ! vec_index (m_vec m)) = getAllLabels c
      \<and> reg_lookup (lib_reg L) (w_reg w') (metricName c n) = Some (vec_index (m_vec m))" if "map_of (c_metrics c) n = Some m" for n m
    using f that metrics_okD(4)[of L c w' n m] by (auto simp: fresh_collector_def)
  then show ?thesis using F maybeInitCache_fresh(1,2)[OF assms(1) f] by blast
qed

theorem FromCollection_correct_witness:
  "\<exists>c w'. FromCollection ref_libs (ex_sessions []) ex_world = (Inr c, w') \<and> c_frequency c = 10
    \<and> dom (map_of (c_metrics c)) = {''open'', ''total''} \<and> counters_inv ref_libs (maybeInitCache ref_libs c) w'"
proof -
  have v: "\<forall>x \<in> set (coll_Metrics (ex_sessions [])). valid_utf8 (metric_Name x)" "distinct (map metric_Name (coll_Metrics (ex_sessions [])))"
    by (simp_all add: ex_sessions_def byte_def)
  show ?thesis using FromCollection_correct[OF ref_libs_ok ex_c_eq v] ex_c_eq[of "[]"]
    by (auto simp: ex_sessions_def quot_def)
qed

text \<open>
  C24: a metric whose help text or labels have changed cannot be registered again, even though its
  predecessor is unregistered first: \<^verbatim>\<open>AddGauge\<close> and \<^verbatim>\<open>AddCounter\<close> return an error, and what the
  registry exposed under that name is gone.
\<close>

theorem changed_metric_rejected:
  assumes "libs_ok L" "reg_desc (lib_reg L) (w_reg w) (metricName c name) = Some (h, ls)"
    and "h \<noteq> help \<or> set ls \<noteq> set (getAllLabels c)"
  shows "(\<exists>e c' w'. AddGauge L name help (c, w) = (Inl (Err e), (c', w')) \<and> reg_lookup (lib_reg L) (w_reg w') (metricName c name) = None)
    \<and> (\<exists>e c' w'. AddCounter L name help (c, w) = (Inl (Err e), (c', w')) \<and> reg_lookup (lib_reg L) (w_reg w') (metricName c name) = None)"
proof -
  have core: "\<exists>e w'. add_metric L kind ref name help (c', w) = (Inl (Err e), (c', w')) \<and> reg_lookup (lib_reg L) (w_reg w') (metricName c name) = None"
    if c': "getAllLabels c' = getAllLabels c" "metricName c' = metricName c" for kind ref c'
  proof -
    let ?v = "vec_new (lib_vec L) kind (metricName c name) help (getAllLabels c)"
    let ?r = "snd (reg_Unregister (lib_reg L) ?v (w_reg w))"
    have "\<not> reg_accepts (lib_vec L) (lib_reg L) ?v ?r"
      using assms(2,3) reg_Unregister_law[OF assms(1), of ?v "w_reg w"] by (auto simp: reg_accepts_def vec_new_laws[OF assms(1)])
    then obtain e where "reg_Register (lib_reg L) (length (w_vecs w)) ?v ?r = Inl (Err e)"
      using reg_Register_rejects[OF assms(1)] by blast
    moreover have "reg_lookup (lib_reg L) ?r (metricName c name) = None"
      using reg_Unregister_law(1)[OF assms(1), of ?v "w_reg w"] by (simp add: vec_new_laws[OF assms(1)])
    ultimately show ?thesis by (simp add: add_metric_def Let_def c')
  qed
  have "\<exists>e c' w'. AddGauge L name help (c, w) = (Inl (Err e), (c', w')) \<and> reg_lookup (lib_reg L) (w_reg w') (metricName c name) = None"
    unfolding AddGauge_def using core[of c] by blast
  moreover have "\<exists>e c' w'. AddCounter L name help (c, w) = (Inl (Err e), (c', w')) \<and> reg_lookup (lib_reg L) (w_reg w') (metricName c name) = None"
    unfolding AddCounter_def using core[of "c\<lparr>c_countersCardinality := wrap64 (c_countersCardinality c + 1)\<rparr>"] by (simp, blast)
  ultimately show ?thesis by blast
qed

theorem changed_metric_rejected_witness:
  "\<exists>e s. AddGauge ref_libs ''open'' ''new help'' (ex_c [], ex_w []) = (Inl (Err e), s)"
proof -
  have "reg_desc (lib_reg ref_libs) (w_reg (ex_w [])) (metricName (ex_c []) ''open'') = Some (''h'', [''app''])"
    by (simp add: ex_c_def ex_w_def ex_sessions_def FromCollection_def ref_libs_def ex_world_def op_bind_def AddGauge_def AddCounter_def
      add_metric_def Let_def list_vec_api_def list_reg_api_def lr_accepts_def getAllLabels_def metricName_def Gauge_def Counter_def wrap64_def)
  from changed_metric_rejected[OF ref_libs_ok this, of "''new help''"] show ?thesis by auto
qed

end
