(* ===== verification/Collector_Registration.thy ===== *)
theory Collector_Registration
  imports Collector_Setup
begin

text \<open>
  When a collector can be built: the registry keeps the description of every name it has ever
  seen, so \<^verbatim>\<open>FromCollection\<close> succeeds exactly as long as the descriptions of the metrics agree with
  the earlier ones.  \<open>coherent\<close> says that a set of descriptions can be registered side by side, and
  \<open>compat\<close> that the registry has seen nothing that contradicts it.
\<close>

type_synonym desc = "string \<times> string \<times> string list"

definition coherent :: "('v, 'r, 'c) libs \<Rightarrow> desc set \<Rightarrow> bool" where
  "coherent L F = ((\<forall>n h ls h' ls'. (n, h, ls) \<in> F \<longrightarrow> (n, h', ls') \<in> F \<longrightarrow> h' = h \<and> set ls' = set ls)
    \<and> (\<forall>n h ls k. (n, h, ls) \<in> F \<longrightarrow> reg_valid (lib_reg L) (vec_new (lib_vec L) k n h ls)))"

definition compat :: "('v, 'r, 'c) libs \<Rightarrow> desc set \<Rightarrow> 'r \<Rightarrow> bool" where
  "compat L F r = (\<forall>n h ls h' ls'. (n, h, ls) \<in> F \<longrightarrow> reg_desc (lib_reg L) r n = Some (h', ls') \<longrightarrow> h' = h \<and> set ls' = set ls)"

definition coll_descs :: "Collection \<Rightarrow> desc set" where
  "coll_descs coll = (\<lambda>m. (coll_Name coll @ ''_'' @ metric_Name m, metric_Help m,
      if coll_Databases coll \<noteq> [] then coll_Labels coll @ [databaseLabel] else coll_Labels coll)) ` set (coll_Metrics coll)"

definition known_kinds :: "Collection \<Rightarrow> bool" where
  "known_kinds coll = (\<forall>m \<in> set (coll_Metrics coll). metric_Kind m = Gauge \<or> metric_Kind m = Counter)"

lemma reg_Register_accepts:
  assumes "libs_ok L" "reg_accepts (lib_vec L) (lib_reg L) v r"
  shows "\<exists>r'. reg_Register (lib_reg L) i v r = Inr r'"
  using assms unfolding libs_ok_def reg_laws_def by meson

text \<open>A new vector takes the place of the one registered under its name.\<close>

lemma reregister_succeeds:
  assumes ok: "libs_ok L" and F: "coherent L F" "compat L F r" and d: "(name, h, ls) \<in> F"
    and v: "v = vec_new (lib_vec L) kind name h ls"
  shows "\<exists>r'. reg_Register (lib_reg L) i v (snd (reg_Unregister (lib_reg L) v r)) = Inr r' \<and> compat L F r'
    \<and> reg_lookup (lib_reg L) r' = (reg_lookup (lib_reg L) r)(name \<mapsto> i)"
proof -
  let ?r = "snd (reg_Unregister (lib_reg L) v r)"
  note U = reg_Unregister_law[OF ok, of v r] and V = vec_new_laws[OF ok, of kind name h ls, folded v]
  have cp: "reg_desc (lib_reg L) r name = Some (h', ls') \<Longrightarrow> h' = h \<and> set ls' = set ls" for h' ls'
    using F(2) d unfolding compat_def by blast
  have "reg_valid (lib_reg L) v" using F(1) d unfolding coherent_def v by blast
  then have "reg_accepts (lib_vec L) (lib_reg L) v ?r"
    unfolding reg_accepts_def by (simp add: U V split: option.splits) (use cp in blast)
  then obtain r' where r': "reg_Register (lib_reg L) i v ?r = Inr r'" using reg_Register_accepts[OF ok] by blast
  have desc: "reg_desc (lib_reg L) r' = (reg_desc (lib_reg L) r)(name \<mapsto> (h, ls))"
    using reg_Register_Inr(3)[OF ok r'] by (simp add: U V)
  have "compat L F r'"
    unfolding compat_def
  proof (intro allI impI)
    fix n h1 ls1 h' ls' assume a: "(n, h1, ls1) \<in> F" "reg_desc (lib_reg L) r' n = Some (h', ls')"
    show "h' = h1 \<and> set ls' = set ls1"
    proof (cases "n = name")
      case True
      then have "h' = h" "ls' = ls" using a(2) desc by simp_all
      then show ?thesis using F(1) d a(1) True unfolding coherent_def by blast
    next
      case False
      then show ?thesis using F(2) a desc unfolding compat_def by simp
    qed
  qed
  moreover have "reg_lookup (lib_reg L) r' = (reg_lookup (lib_reg L) r)(name \<mapsto> i)"
    using reg_Register_Inr(2)[OF ok r'] by (simp add: U V fun_eq_iff)
  ultimately show ?thesis using r' by blast
qed

lemma add_metric_succeeds:
  assumes ok: "libs_ok L" and F: "coherent L F" "compat L F (w_reg w)" and d: "(metricName c name, help, getAllLabels c) \<in> F"
  shows "\<exists>c' w'. add_metric L kind ref name help (c, w) = (Inr (), (c', w')) \<and> compat L F (w_reg w') \<and> same_config c c'"
  using reregister_succeeds[OF ok F d refl, of "length (w_vecs w)" kind]
  by (auto simp: add_metric_def Let_def same_config_def)

lemma same_config_labels:
  "same_config c c' \<Longrightarrow> getAllLabels c' = getAllLabels c \<and> metricName c' n = metricName c n"
  by (simp add: same_config_def getAllLabels_def metricName_def)

lemma add_metrics_succeeds:
  assumes ok: "libs_ok L" and F: "coherent L F"
  shows "compat L F (w_reg w) \<Longrightarrow> \<forall>m \<in> set ms. (metricName c (metric_Name m), metric_Help m, getAllLabels c) \<in> F
    \<Longrightarrow> \<forall>m \<in> set ms. metric_Kind m = Gauge \<or> metric_Kind m = Counter
    \<Longrightarrow> \<exists>c' w'. add_metrics L coll ms (c, w) = (Inr (), (c', w')) \<and> compat L F (w_reg w') \<and> same_config c c'"
proof (induction ms arbitrary: c w)
  case Nil
  then show ?case by (simp add: same_config_def)
next
  case (Cons m ms)
  have d: "(metricName c (metric_Name m), metric_Help m, getAllLabels c) \<in> F" using Cons.prems(2) by simp
  have "\<exists>c1 w1. add_one L coll m (c, w) = (Inr (), (c1, w1)) \<and> compat L F (w_reg w1) \<and> same_config c c1"
  proof (cases "metric_Kind m = Gauge")
    case True
    then show ?thesis using add_metric_succeeds[OF ok F Cons.prems(1) d] by (simp add: add_one_def AddGauge_def)
  next
    case False
    let ?c = "c\<lparr>c_countersCardinality := wrap64 (c_countersCardinality c + 1)\<rparr>"
    have sc: "same_config c ?c" by (simp add: same_config_def)
    have "(metricName ?c (metric_Name m), metric_Help m, getAllLabels ?c) \<in> F" using d same_config_labels[OF sc] by simp
    then have "\<exists>c1 w1. add_metric L KCounter CounterVec (metric_Name m) (metric_Help m) (?c, w) = (Inr (), (c1, w1))
        \<and> compat L F (w_reg w1) \<and> same_config ?c c1"
      by (rule add_metric_succeeds[OF ok F Cons.prems(1)])
    then show ?thesis using False Cons.prems(3) same_config_trans[OF sc] by (auto simp: add_one_def AddCounter_def)
  qed
  then obtain c1 w1 where 1: "add_one L coll m (c, w) = (Inr (), (c1, w1))" "compat L F (w_reg w1)" "same_config c c1" by blast
  have "\<exists>c' w'. add_metrics L coll ms (c1, w1) = (Inr (), (c', w')) \<and> compat L F (w_reg w') \<and> same_config c1 c'"
    by (rule Cons.IH[OF 1(2)]) (use Cons.prems same_config_labels[OF 1(3)] in simp_all)
  then show ?case using 1 same_config_trans[OF 1(3)] by (auto simp: op_bind_def add_one_def[symmetric])
qed

lemma FromCollection_succeeds:
  fixes L :: "('v, 'r, 'c) libs"
  assumes ok: "libs_ok L" and F: "coherent L F" "compat L F (w_reg w)" "coll_descs coll \<subseteq> F" and k: "known_kinds coll"
  shows "\<exists>c w'. FromCollection L coll w = (Inr c, w') \<and> compat L F (w_reg w') \<and> c_name c = coll_Name coll
    \<and> c_lastModified c = coll_LastModified coll \<and> c_frequency c = quot (Microseconds (coll_Frequency coll)) 1000000"
proof -
  define c0 :: "'c collector" where "c0 = \<lparr>c_name = coll_Name coll, c_countersCache = None, c_countersCardinality = 0,
            c_databases = coll_Databases coll, c_enabled = True,
            c_frequency = quot (Microseconds (coll_Frequency coll)) (1000 * 1000),
            c_gaugeLabels = [], c_labelMap = label_positions 0 (coll_Labels coll) [], c_labels = coll_Labels coll,
            c_lastModified = coll_LastModified coll, c_maxResults = coll_MaxResult coll, c_metrics = [],
            c_query = coll_Query coll, c_locked = False\<rparr>"
  have "\<forall>m \<in> set (coll_Metrics coll). (metricName c0 (metric_Name m), metric_Help m, getAllLabels c0) \<in> F"
    using F(3) by (auto simp: coll_descs_def metricName_def getAllLabels_def c0_def)
  then have "\<exists>c w'. add_metrics L (coll_Name coll) (coll_Metrics coll) (c0, w) = (Inr (), (c, w')) \<and> compat L F (w_reg w') \<and> same_config c0 c"
    using add_metrics_succeeds[OF ok F(1,2)] k by (simp add: known_kinds_def)
  then show ?thesis unfolding FromCollection_def Let_def c0_def[symmetric] by (fastforce simp: same_config_def c0_def)
qed

lemma Unregister_desc:
  assumes "libs_ok L"
  shows "reg_desc (lib_reg L) (w_reg (Unregister L c w)) = reg_desc (lib_reg L) (w_reg w)"
proof -
  have "reg_desc (lib_reg L) (w_reg (fold (\<lambda>(n, m) w. w\<lparr>w_reg := snd (reg_Unregister (lib_reg L) (w_vecs w ! vec_index (m_vec m)) (w_reg w))\<rparr>) ms w))
      = reg_desc (lib_reg L) (w_reg w)" for ms
    by (induction ms arbitrary: w) (auto simp: reg_Unregister_law[OF assms])
  then show ?thesis by (simp add: Unregister_def)
qed

lemma Unregister_compat: "libs_ok L \<Longrightarrow> compat L F (w_reg (Unregister L c w)) = compat L F (w_reg w)"
  by (simp add: compat_def Unregister_desc)

end
