(* ===== verification/Store_Memory.thy ===== *)
theory Store_Memory
  imports Store_Model "HOL-Library.List_Lexorder" "HOL-Library.Char_ord"
begin

text \<open>
  \<^verbatim>\<open>internal/store/memory.go\<close>: the in-memory store that the commands use under test.  Each
  \<^verbatim>\<open>sync.Map\<close> is a Go map whose pointer is nil (\<open>None\<close>) until \<^verbatim>\<open>Init\<close>; an injected error
  is returned by every operation before it touches a map.  The clock \<^verbatim>\<open>now\<close> is part of the
  state: its next reading.
\<close>

record Memory =
  mem_collections :: "(string, Collection) gomap option"
  mem_histograms :: "(string, Histogram) gomap option"
  mem_scans :: "(string, Scan) gomap option"
  mem_nodes :: "(int, NodeInfo) gomap option"
  mem_now :: time
  mem_err :: "go_error option"
  mem_nextNodeID :: int

definition NewMemoryStore :: "time \<Rightarrow> Memory" where
  "NewMemoryStore now = \<lparr>mem_collections = None, mem_histograms = None, mem_scans = None, mem_nodes = None,
     mem_now = now, mem_err = None, mem_nextNodeID = 0\<rparr>"

definition InjectError :: "go_error option \<Rightarrow> Memory \<Rightarrow> Memory" where
  "InjectError e m = m\<lparr>mem_err := e\<rparr>"

definition mem_Init :: "Memory \<Rightarrow> Memory result" where
  "mem_Init m = Inr (InjectError None
     (m\<lparr>mem_collections := Some [], mem_histograms := Some [], mem_scans := Some [], mem_nodes := Some []\<rparr>))"

text \<open>The guard \<^verbatim>\<open>if m.Error() != nil\<close> and the use of a map that may be nil.\<close>

definition guarded :: "Memory \<Rightarrow> (unit \<Rightarrow> 'a result) \<Rightarrow> 'a result" where
  "guarded m f = (case mem_err m of Some e \<Rightarrow> Inl (Err e) | None \<Rightarrow> f ())"

definition with_map :: "('k, 'v) gomap option \<Rightarrow> (('k, 'v) gomap \<Rightarrow> 'a result) \<Rightarrow> 'a result" where
  "with_map p f = (case p of None \<Rightarrow> Inl (Panic NilDereference) | Some mp \<Rightarrow> f mp)"

definition getNames :: "Memory \<Rightarrow> (string, 'v) gomap option \<Rightarrow> string list result" where
  "getNames m vals = guarded m (\<lambda>_. with_map vals (\<lambda>mp. Inr (sort (keys mp))))"

definition mem_PutCollection :: "Collection \<Rightarrow> Memory \<Rightarrow> Memory result" where
  "mem_PutCollection c m = guarded m (\<lambda>_. with_map (mem_collections m)
     (\<lambda>mp. Inr (m\<lparr>mem_collections := Some (AList.update (coll_Name c) c mp)\<rparr>)))"

definition mem_GetCollection :: "Memory \<Rightarrow> string \<Rightarrow> Collection option result" where
  "mem_GetCollection m name = guarded m (\<lambda>_. with_map (mem_collections m) (\<lambda>mp. Inr (map_of mp name)))"

definition mem_DeleteCollection :: "string \<Rightarrow> Memory \<Rightarrow> Memory result" where
  "mem_DeleteCollection name m = guarded m (\<lambda>_. with_map (mem_collections m)
     (\<lambda>mp. Inr (m\<lparr>mem_collections := Some (AList.delete name mp)\<rparr>)))"

definition mem_GetCollectionNames :: "Memory \<Rightarrow> string list result" where
  "mem_GetCollectionNames m = getNames m (mem_collections m)"

definition mem_GetMetrics :: "Memory \<Rightarrow> string \<Rightarrow> Metric list result" where
  "mem_GetMetrics m name = guarded m (\<lambda>_.
     (case mem_GetCollection m name of
        Inr (Some c) \<Rightarrow> Inr (coll_Metrics c)
      | Inl (Panic p) \<Rightarrow> Inl (Panic p)
      | _ \<Rightarrow> Inl (Panic NilDereference)))"

definition mem_PutHistogram :: "Histogram \<Rightarrow> Memory \<Rightarrow> Memory result" where
  "mem_PutHistogram h m = guarded m (\<lambda>_. with_map (mem_histograms m)
     (\<lambda>mp. Inr (m\<lparr>mem_histograms := Some (AList.update (hist_Name h) h mp)\<rparr>)))"

definition mem_GetHistogram :: "Memory \<Rightarrow> string \<Rightarrow> Histogram option result" where
  "mem_GetHistogram m name = guarded m (\<lambda>_. with_map (mem_histograms m) (\<lambda>mp. Inr (map_of mp name)))"

definition mem_DeleteHistogram :: "string \<Rightarrow> Memory \<Rightarrow> Memory result" where
  "mem_DeleteHistogram name m = guarded m (\<lambda>_. with_map (mem_histograms m)
     (\<lambda>mp. Inr (m\<lparr>mem_histograms := Some (AList.delete name mp)\<rparr>)))"

definition mem_GetHistogramNames :: "Memory \<Rightarrow> string list result" where
  "mem_GetHistogramNames m = getNames m (mem_histograms m)"

definition mem_PutScan :: "Scan \<Rightarrow> Memory \<Rightarrow> Memory result" where
  "mem_PutScan sc m = guarded m (\<lambda>_. with_map (mem_scans m)
     (\<lambda>mp. Inr (m\<lparr>mem_scans := Some (AList.update (scan_Name sc) sc mp)\<rparr>)))"

definition mem_GetScan :: "Memory \<Rightarrow> string \<Rightarrow> Scan option result" where
  "mem_GetScan m name = guarded m (\<lambda>_. with_map (mem_scans m) (\<lambda>mp. Inr (map_of mp name)))"

definition mem_DeleteScan :: "string \<Rightarrow> Memory \<Rightarrow> Memory result" where
  "mem_DeleteScan name m = guarded m (\<lambda>_. with_map (mem_scans m)
     (\<lambda>mp. Inr (m\<lparr>mem_scans := Some (AList.delete name mp)\<rparr>)))"

definition mem_GetScanNames :: "Memory \<Rightarrow> string list result" where
  "mem_GetScanNames m = getNames m (mem_scans m)"

definition mem_GetScanPatterns :: "Memory \<Rightarrow> string \<Rightarrow> Pattern list result" where
  "mem_GetScanPatterns m name = guarded m (\<lambda>_.
     (case mem_GetScan m name of
        Inr (Some sc) \<Rightarrow> Inr (scan_Patterns sc)
      | Inl (Panic p) \<Rightarrow> Inl (Panic p)
      | _ \<Rightarrow> Inl (Panic NilDereference)))"

text \<open>\<^verbatim>\<open>nextID\<close> increments an \<^verbatim>\<open>int64\<close>.\<close>

definition nextID :: "Memory \<Rightarrow> int \<times> Memory" where
  "nextID m = (let n = wrap64 (mem_nextNodeID m + 1) in (n, m\<lparr>mem_nextNodeID := n\<rparr>))"

definition mem_RegisterNode :: "string \<Rightarrow> int \<Rightarrow> string \<Rightarrow> Memory \<Rightarrow> (int \<times> Memory) result" where
  "mem_RegisterNode hostname pid version m = guarded m (\<lambda>_.
     (case nextID m of (i, m1) \<Rightarrow> with_map (mem_nodes m1)
        (\<lambda>mp. Inr (i, m1\<lparr>mem_nodes := Some (AList.update i
           \<lparr>node_ID = i, node_Hostname = hostname, node_PID = pid, node_Version = version, node_Updated = mem_now m1\<rparr> mp)\<rparr>))))"

definition mem_Heartbeat :: "int \<Rightarrow> Memory \<Rightarrow> Memory result" where
  "mem_Heartbeat i m = guarded m (\<lambda>_. with_map (mem_nodes m)
     (\<lambda>mp. (case map_of mp i of
              None \<Rightarrow> Inr m
            | Some n \<Rightarrow> Inr (m\<lparr>mem_nodes := Some (AList.update i (n\<lparr>node_Updated := mem_now m\<rparr>) mp)\<rparr>))))"

definition mem_DeleteNode :: "int \<Rightarrow> Memory \<Rightarrow> Memory result" where
  "mem_DeleteNode i m = guarded m (\<lambda>_. with_map (mem_nodes m)
     (\<lambda>mp. Inr (m\<lparr>mem_nodes := Some (AList.delete i mp)\<rparr>)))"

text \<open>
  \<^verbatim>\<open>slices.SortFunc\<close> is not stable; as the order of the map's entries is arbitrary, so is
  the order of entries with the same time here.
\<close>

definition mem_GetNodes :: "Memory \<Rightarrow> NodeInfo list result" where
  "mem_GetNodes m = guarded m (\<lambda>_. with_map (mem_nodes m)
     (\<lambda>mp. Inr (sort_key (\<lambda>n. - node_Updated n) (map snd mp))))"

definition mem_wf :: "Memory \<Rightarrow> bool" where
  "mem_wf m = (pred_option wf_map (mem_collections m) \<and> pred_option wf_map (mem_histograms m)
     \<and> pred_option wf_map (mem_scans m) \<and> pred_option wf_map (mem_nodes m))"

definition mem_healthy :: "Memory \<Rightarrow> bool" where
  "mem_healthy m = (mem_err m = None \<and> mem_collections m \<noteq> None \<and> mem_histograms m \<noteq> None
     \<and> mem_scans m \<noteq> None \<and> mem_nodes m \<noteq> None \<and> mem_wf m)"

text \<open>Every node is stored under its own identifier, and no identifier beyond the counter is in use.\<close>

definition mem_nodes_ok :: "Memory \<Rightarrow> bool" where
  "mem_nodes_ok m = (mem_healthy m \<and> (\<forall>(i, n) \<in> set (the (mem_nodes m)). node_ID n = i \<and> i \<le> mem_nextNodeID m))"

definition mem_content :: "('k, 'v) gomap option \<Rightarrow> 'k \<Rightarrow> 'v option" where
  "mem_content p k = (case p of None \<Rightarrow> None | Some mp \<Rightarrow> map_of mp k)"

section \<open>The contract\<close>

lemmas mem_defs = guarded_def with_map_def getNames_def mem_content_def mem_healthy_def mem_wf_def

interpretation mem_coll: named_store mem_PutCollection mem_GetCollection mem_DeleteCollection
  mem_GetCollectionNames coll_Name mem_healthy "\<lambda>_. True" "\<lambda>_ c. c" "\<lambda>m. mem_content (mem_collections m)"
  by unfold_locales
    (auto simp: mem_PutCollection_def mem_GetCollection_def mem_DeleteCollection_def mem_GetCollectionNames_def
      mem_defs wf_map_def fun_eq_iff simp flip: wf_map_def)

interpretation mem_hist: named_store mem_PutHistogram mem_GetHistogram mem_DeleteHistogram
  mem_GetHistogramNames hist_Name mem_healthy "\<lambda>_. True" "\<lambda>_ h. h" "\<lambda>m. mem_content (mem_histograms m)"
  by unfold_locales
    (auto simp: mem_PutHistogram_def mem_GetHistogram_def mem_DeleteHistogram_def mem_GetHistogramNames_def
      mem_defs wf_map_def fun_eq_iff simp flip: wf_map_def)

interpretation mem_scan: named_store mem_PutScan mem_GetScan mem_DeleteScan
  mem_GetScanNames scan_Name mem_healthy "\<lambda>_. True" "\<lambda>_ c. c" "\<lambda>m. mem_content (mem_scans m)"
  by unfold_locales
    (auto simp: mem_PutScan_def mem_GetScan_def mem_DeleteScan_def mem_GetScanNames_def
      mem_defs wf_map_def fun_eq_iff simp flip: wf_map_def)

lemma mem_nodes_okE:
  assumes "mem_nodes_ok m"
  obtains mp where "mem_err m = None" "mem_nodes m = Some mp" "wf_map mp"
    "\<And>i n. map_of mp i = Some n \<Longrightarrow> node_ID n = i \<and> i \<le> mem_nextNodeID m"
  using assms map_of_SomeD by (fastforce simp: mem_nodes_ok_def mem_healthy_def mem_wf_def)

lemma mem_nodes_okI:
  assumes "mem_healthy m" "mem_nodes m = Some mp"
    "\<And>i n. map_of mp i = Some n \<Longrightarrow> node_ID n = i \<and> i \<le> mem_nextNodeID m"
  shows "mem_nodes_ok m"
  using assms by (auto simp: mem_nodes_ok_def mem_healthy_def mem_wf_def simp flip: wf_map_in_set)

lemma mem_healthy_nodes:
  "mem_healthy m \<Longrightarrow> wf_map mp \<Longrightarrow> mem_healthy (m\<lparr>mem_nextNodeID := k, mem_nodes := Some mp\<rparr>)"
  "mem_healthy m \<Longrightarrow> wf_map mp \<Longrightarrow> mem_healthy (m\<lparr>mem_nodes := Some mp\<rparr>)"
  by (simp_all add: mem_healthy_def mem_wf_def)

lemma mem_nodes_healthy: "mem_nodes_ok m \<Longrightarrow> mem_healthy m"
  by (simp add: mem_nodes_ok_def)

lemma mem_register_law:
  assumes "mem_nodes_ok m" "mem_nextNodeID m \<in> {0..<2 ^ 63 - 1}"
  shows "\<exists>i m'. mem_RegisterNode h p v m = Inr (i, m') \<and> mem_nodes_ok m' \<and> mem_now m' = mem_now m
    \<and> mem_content (mem_nodes m) i = None
    \<and> mem_content (mem_nodes m') = (mem_content (mem_nodes m))(i \<mapsto>
        \<lparr>node_ID = i, node_Hostname = h, node_PID = p, node_Version = v, node_Updated = mem_now m\<rparr>)"
proof -
  obtain mp where mp: "mem_err m = None" "mem_nodes m = Some mp" "wf_map mp"
    "\<And>i n. map_of mp i = Some n \<Longrightarrow> node_ID n = i \<and> i \<le> mem_nextNodeID m"
    using mem_nodes_okE[OF assms(1)] by blast
  let ?i = "mem_nextNodeID m + 1"
  let ?n = "\<lparr>node_ID = ?i, node_Hostname = h, node_PID = p, node_Version = v, node_Updated = mem_now m\<rparr>"
  let ?m = "m\<lparr>mem_nextNodeID := ?i, mem_nodes := Some (AList.update ?i ?n mp)\<rparr>"
  have w: "wrap64 ?i = ?i" using assms(2) by (intro wrap64_id) auto
  have reg: "mem_RegisterNode h p v m = Inr (?i, ?m)"
    by (simp add: mem_RegisterNode_def guarded_def nextID_def Let_def w mp with_map_def)
  have ok: "mem_nodes_ok ?m"
  proof (rule mem_nodes_okI)
    show "mem_healthy ?m"
      by (intro mem_healthy_nodes mem_nodes_healthy assms wf_map_update mp)
    fix i n assume "map_of (AList.update ?i ?n mp) i = Some n"
    then show "node_ID n = i \<and> i \<le> mem_nextNodeID ?m"
      using mp(4)[of i n] by (cases "i = ?i") auto
  qed simp
  have none: "map_of mp ?i = None"
    using mp(4)[of ?i] by (cases "map_of mp ?i") auto
  show ?thesis using reg ok none by (auto simp: mem_content_def mp)
qed

lemma mem_heartbeat_law:
  assumes "mem_nodes_ok m"
  shows "\<exists>m'. mem_Heartbeat i m = Inr m' \<and> mem_nodes_ok m' \<and> mem_now m' = mem_now m
    \<and> mem_content (mem_nodes m') = (mem_content (mem_nodes m))(i := map_option (beat (mem_now m)) (mem_content (mem_nodes m) i))"
proof -
  obtain mp where mp: "mem_err m = None" "mem_nodes m = Some mp" "wf_map mp"
    "\<And>i n. map_of mp i = Some n \<Longrightarrow> node_ID n = i \<and> i \<le> mem_nextNodeID m"
    using mem_nodes_okE[OF assms] by blast
  show ?thesis
  proof (cases "map_of mp i")
    case None
    then show ?thesis using assms mp
      by (auto simp: mem_Heartbeat_def guarded_def with_map_def mem_content_def)
  next
    case (Some n)
    let ?m = "m\<lparr>mem_nodes := Some (AList.update i (beat (mem_now m) n) mp)\<rparr>"
    have "mem_nodes_ok ?m"
    proof (rule mem_nodes_okI)
      show "mem_healthy ?m"
        by (intro mem_healthy_nodes mem_nodes_healthy assms wf_map_update mp)
      fix j k assume "map_of (AList.update i (beat (mem_now m) n) mp) j = Some k"
      then show "node_ID k = j \<and> j \<le> mem_nextNodeID ?m"
        using mp(4)[of j k] mp(4)[OF Some] by (cases "j = i") (auto simp: beat_def)
    qed simp
    then show ?thesis using mp Some
      by (auto simp: mem_Heartbeat_def guarded_def with_map_def mem_content_def beat_def)
  qed
qed

lemma mem_delete_node_law:
  assumes "mem_nodes_ok m"
  shows "\<exists>m'. mem_DeleteNode i m = Inr m' \<and> mem_nodes_ok m' \<and> mem_now m' = mem_now m
    \<and> mem_content (mem_nodes m') = (mem_content (mem_nodes m))(i := None)"
proof -
  obtain mp where mp: "mem_err m = None" "mem_nodes m = Some mp" "wf_map mp"
    "\<And>i n. map_of mp i = Some n \<Longrightarrow> node_ID n = i \<and> i \<le> mem_nextNodeID m"
    using mem_nodes_okE[OF assms] by blast
  let ?m = "m\<lparr>mem_nodes := Some (AList.delete i mp)\<rparr>"
  have "mem_nodes_ok ?m"
  proof (rule mem_nodes_okI)
    show "mem_healthy ?m"
      by (intro mem_healthy_nodes mem_nodes_healthy assms wf_map_delete mp)
    fix j k assume "map_of (AList.delete i mp) j = Some k"
    then show "node_ID k = j \<and> j \<le> mem_nextNodeID ?m" using mp(4)[of j k] by (auto split: if_splits)
  qed simp
  then show ?thesis using mp
    by (auto simp: mem_DeleteNode_def guarded_def with_map_def mem_content_def)
qed

lemma mem_nodes_law:
  assumes "mem_nodes_ok m"
  shows "\<exists>ns. mem_GetNodes m = Inr ns \<and> distinct (map node_ID ns)
    \<and> sorted_wrt (\<lambda>a b. node_Updated b \<le> node_Updated a) ns \<and> set ns = {n. \<exists>i. mem_content (mem_nodes m) i = Some n}"
proof -
  obtain mp where mp: "mem_err m = None" "mem_nodes m = Some mp" "wf_map mp"
    "\<And>i n. map_of mp i = Some n \<Longrightarrow> node_ID n = i \<and> i \<le> mem_nextNodeID m"
    using mem_nodes_okE[OF assms] by blast
  have "map node_ID (map snd mp) = keys mp"
    using mp(3,4) by (auto simp: keys_def wf_map_in_set simp flip: wf_map_in_set)
  then have "distinct (map node_ID (map snd mp))" using mp(3) by (simp add: wf_map_def)
  moreover have "set (map snd mp) = {n. \<exists>i. map_of mp i = Some n}"
    using mp(3) by (force simp: wf_map_in_set[symmetric])
  ultimately show ?thesis
    by (auto simp: mem_GetNodes_def guarded_def with_map_def mp mem_content_def distinct_map_sort_key sort_key_desc)
qed

interpretation mem_node: node_registry mem_RegisterNode mem_Heartbeat mem_DeleteNode mem_GetNodes
  mem_nodes_ok "\<lambda>m. mem_nextNodeID m \<in> {0..<2 ^ 63 - 1}" mem_now "\<lambda>_ _. True" "\<lambda>m. mem_content (mem_nodes m)"
proof unfold_locales
  fix m i n assume "mem_nodes_ok m" "mem_content (mem_nodes m) i = Some n"
  then show "node_ID n = i" by (auto elim!: mem_nodes_okE simp: mem_content_def)
qed (use mem_register_law mem_heartbeat_law mem_delete_node_law mem_nodes_law in simp_all)

section \<open>Properties\<close>

text \<open>
  On a healthy store, \<^verbatim>\<open>PutCollection\<close> followed by \<^verbatim>\<open>DeleteCollection\<close> of a
  name \<^verbatim>\<open>d\<close> succeeds; then \<^verbatim>\<open>GetCollection\<close> returns the collection unchanged unless its
  name is \<^verbatim>\<open>d\<close>, nothing for \<^verbatim>\<open>d\<close> and what it returned before for every other name,
  and \<^verbatim>\<open>GetCollectionNames\<close> lists each stored name once, in order.
\<close>

theorem mem_collection_contract:
  assumes "mem_healthy m"
  shows "\<exists>m1 m2 ns. mem_PutCollection c m = Inr m1 \<and> mem_DeleteCollection d m1 = Inr m2
    \<and> (\<forall>n. mem_GetCollection m2 n =
          Inr (if n = d then None else if n = coll_Name c then Some c else mem_content (mem_collections m) n))
    \<and> mem_GetCollectionNames m2 = Inr ns \<and> sorted ns \<and> distinct ns
    \<and> set ns = insert (coll_Name c) (dom (mem_content (mem_collections m))) - {d}"
proof -
  obtain m1 where m1: "mem_PutCollection c m = Inr m1" "mem_healthy m1"
      "mem_content (mem_collections m1) = (mem_content (mem_collections m))(coll_Name c \<mapsto> c)"
    using mem_coll.put_content[OF assms] by blast
  obtain m2 where m2: "mem_DeleteCollection d m1 = Inr m2" "mem_healthy m2"
      "mem_content (mem_collections m2) = (mem_content (mem_collections m1))(d := None)"
    using mem_coll.delete_content[OF m1(2)] by blast
  obtain ns where ns: "mem_GetCollectionNames m2 = Inr ns" "distinct ns" "set ns = dom (mem_content (mem_collections m2))"
    using mem_coll.names_content[OF m2(2)] by blast
  have "sorted ns" using ns(1) m2(2)
    by (auto simp: mem_GetCollectionNames_def mem_defs)
  moreover have "set ns = insert (coll_Name c) (dom (mem_content (mem_collections m))) - {d}"
    by (auto simp: ns(3) m2(3) m1(3))
  ultimately show ?thesis
    using m1(1) m2(1) ns(1,2) by (simp add: mem_coll.get_content[OF m2(2)] m2(3) m1(3))
qed

definition ex_coll :: Collection where
  "ex_coll = \<lparr>coll_Databases = [], coll_Enabled = True, coll_Frequency = \<lparr>Microseconds = 10000000, Days = 0, Months = 0\<rparr>,
     coll_Labels = [''db''], coll_LastModified = 0, coll_MaxResult = 10,
     coll_Metrics = [\<lparr>metric_Name = ''qps'', metric_Kind = Gauge, metric_Help = ''h''\<rparr>],
     coll_Name = ''c1'', coll_Query = ''q'', coll_Scope = Cluster\<rparr>"

definition ex_mem :: Memory where
  "ex_mem = (NewMemoryStore 5)\<lparr>mem_collections := Some [], mem_histograms := Some [], mem_scans := Some [], mem_nodes := Some []\<rparr>"

lemma ex_mem_ok: "mem_nodes_ok ex_mem" "mem_healthy ex_mem" "mem_nextNodeID ex_mem = 0" "mem_now ex_mem = 5"
    "mem_nodes ex_mem = Some []" "mem_collections ex_mem = Some []"
  by (simp_all add: ex_mem_def NewMemoryStore_def mem_nodes_ok_def mem_healthy_def mem_wf_def)

theorem mem_collection_contract_witness:
  "\<exists>m1 m2 ns. mem_PutCollection ex_coll ex_mem = Inr m1 \<and> mem_DeleteCollection ''other'' m1 = Inr m2
    \<and> mem_GetCollection m2 ''c1'' = Inr (Some ex_coll) \<and> mem_GetCollectionNames m2 = Inr ns \<and> set ns = {''c1''}"
proof -
  have "coll_Name ex_coll = ''c1''" "mem_content (mem_collections ex_mem) = Map.empty"
    by (simp_all add: ex_coll_def ex_mem_ok mem_content_def fun_eq_iff)
  then show ?thesis
    using mem_collection_contract[OF ex_mem_ok(2), of ex_coll "''other''"] by auto
qed

text \<open>
  While an error is injected, every operation of the in-memory store returns exactly that
  error, whatever the state of its maps, and \<^verbatim>\<open>Init\<close> ends that state.
\<close>

theorem mem_injected_error:
  "mem_PutCollection c (InjectError (Some e) m) = Inl (Err e)
   \<and> mem_GetCollection (InjectError (Some e) m) n = Inl (Err e)
   \<and> mem_DeleteCollection n (InjectError (Some e) m) = Inl (Err e)
   \<and> mem_GetCollectionNames (InjectError (Some e) m) = Inl (Err e)
   \<and> mem_GetMetrics (InjectError (Some e) m) n = Inl (Err e)
   \<and> mem_PutHistogram h (InjectError (Some e) m) = Inl (Err e)
   \<and> mem_GetHistogram (InjectError (Some e) m) n = Inl (Err e)
   \<and> mem_DeleteHistogram n (InjectError (Some e) m) = Inl (Err e)
   \<and> mem_GetHistogramNames (InjectError (Some e) m) = Inl (Err e)
   \<and> mem_PutScan sc (InjectError (Some e) m) = Inl (Err e)
   \<and> mem_GetScan (InjectError (Some e) m) n = Inl (Err e)
   \<and> mem_DeleteScan n (InjectError (Some e) m) = Inl (Err e)
   \<and> mem_GetScanNames (InjectError (Some e) m) = Inl (Err e)
   \<and> mem_GetScanPatterns (InjectError (Some e) m) n = Inl (Err e)
   \<and> mem_RegisterNode hn p v (InjectError (Some e) m) = Inl (Err e)
   \<and> mem_Heartbeat i (InjectError (Some e) m) = Inl (Err e)
   \<and> mem_DeleteNode i (InjectError (Some e) m) = Inl (Err e)
   \<and> mem_GetNodes (InjectError (Some e) m) = Inl (Err e)
   \<and> (\<exists>m'. mem_Init (InjectError (Some e) m) = Inr m' \<and> mem_healthy m')"
  by (simp add: mem_PutCollection_def mem_GetCollection_def mem_DeleteCollection_def mem_GetCollectionNames_def
      mem_GetMetrics_def mem_PutHistogram_def mem_GetHistogram_def mem_DeleteHistogram_def mem_GetHistogramNames_def
      mem_PutScan_def mem_GetScan_def mem_DeleteScan_def mem_GetScanNames_def mem_GetScanPatterns_def
      mem_RegisterNode_def mem_Heartbeat_def mem_DeleteNode_def mem_GetNodes_def mem_Init_def InjectError_def mem_defs)

text \<open>
  C15: \<^verbatim>\<open>RegisterNode\<close> assigns an identifier no registered node has, and the new node is listed by
  \<^verbatim>\<open>GetNodes\<close> with the data it was registered with.
\<close>

theorem mem_register_listed:
  assumes "mem_nodes_ok m" "0 \<le> mem_nextNodeID m" "mem_nextNodeID m < 2 ^ 63 - 1"
  shows "\<exists>i m' ns. mem_RegisterNode h p v m = Inr (i, m') \<and> mem_GetNodes m' = Inr ns
    \<and> i \<notin> dom (mem_content (mem_nodes m))
    \<and> \<lparr>node_ID = i, node_Hostname = h, node_PID = p, node_Version = v, node_Updated = mem_now m\<rparr> \<in> set ns"
  using mem_node.register_listed[OF assms(1)] assms(2,3) by simp

theorem mem_register_listed_witness:
  "\<exists>i m' ns. mem_RegisterNode ''host'' 7 ''v1'' ex_mem = Inr (i, m') \<and> mem_GetNodes m' = Inr ns
    \<and> \<lparr>node_ID = i, node_Hostname = ''host'', node_PID = 7, node_Version = ''v1'', node_Updated = 5\<rparr> \<in> set ns"
  using mem_register_listed[OF ex_mem_ok(1), of "''host''" 7 "''v1''"] by (auto simp: ex_mem_ok)

end
