(* ===== verification/Store_Sql.thy ===== *)
theory Store_Sql
  imports Store_Model "HOL-Library.Multiset"
begin

text \<open>
  The SQL store of \<^verbatim>\<open>internal/store\<close> (\<^verbatim>\<open>store.go\<close>, \<^verbatim>\<open>collection.go\<close>, \<^verbatim>\<open>histogram.go\<close>,
  \<^verbatim>\<open>scan.go\<close>, \<^verbatim>\<open>node.go\<close> and the statements under \<^verbatim>\<open>sql/\<close>).  The tables are those of
  \<^verbatim>\<open>ddl.sql\<close>, keyed by their primary keys (the namespace column keeps its default).  Every
  round trip to the server consumes the next entry of a schedule of outcomes, so that a theorem
  about every schedule covers every pattern of failures; an empty schedule is a network without
  failures.  A \<^verbatim>\<open>select\<close> without \<^verbatim>\<open>order by\<close> returns its rows in an order that is a parameter.
\<close>

section \<open>Tables\<close>

record coll_row =
  cr_updated :: time
  cr_enabled :: bool
  cr_scope :: string
  cr_maxResults :: int
  cr_frequency :: Interval
  cr_query :: string
  cr_labels :: "string list"
  cr_databases :: string

record hist_row =
  hr_regex :: string
  hr_updated :: time
  hr_bins :: int
  hr_start :: int
  hr_end :: int
  hr_enabled :: bool

record scan_row =
  sr_path :: string
  sr_format :: string
  sr_updated :: time
  sr_enabled :: bool

record pattern_row =
  pr_help :: string
  pr_regex :: string
  pr_exclude :: string

record visus_db =
  tbl_collection :: "(string, coll_row) gomap"
  tbl_metric :: "(string \<times> string, string \<times> string) gomap"
  tbl_histogram :: "(string, hist_row) gomap"
  tbl_scan :: "(string, scan_row) gomap"
  tbl_pattern :: "(string \<times> string, pattern_row) gomap"
  tbl_node :: "(int, NodeInfo) gomap"

definition empty_db :: visus_db where
  "empty_db = \<lparr>tbl_collection = [], tbl_metric = [], tbl_histogram = [], tbl_scan = [], tbl_pattern = [], tbl_node = []\<rparr>"

section \<open>The connection\<close>

text \<open>
  The outcome of a round trip: it is served, it is refused with an error before it has an
  effect, or the connection is lost: then the effect of an \<^verbatim>\<open>Exec\<close> or \<^verbatim>\<open>Commit\<close> has
  happened but the client sees an error, and a query has delivered some of its rows.
\<close>

datatype outcome = Served | Refused go_error | Lost go_error nat

record conn =
  conn_db :: "visus_db option"
  conn_net :: "outcome list"
  conn_now :: time
  conn_rowid :: "nat \<Rightarrow> int"
  conn_ticks :: nat
  conn_name_order :: "string list \<Rightarrow> string list"
  conn_metric_order :: "Metric list \<Rightarrow> Metric list"
  conn_pattern_order :: "Pattern list \<Rightarrow> Pattern list"

type_synonym stmt = "time \<Rightarrow> visus_db \<Rightarrow> visus_db result"

definition no_schema :: fault where "no_schema = Err ''database _visus does not exist''"
definition pk_violation :: fault where "pk_violation = Err ''duplicate key value violates unique constraint''"
definition bad_enum :: fault where "bad_enum = Err ''invalid input value for enum''"

definition take_net :: "conn \<Rightarrow> outcome \<times> conn" where
  "take_net c = (case conn_net c of [] \<Rightarrow> (Served, c) | o1 # os \<Rightarrow> (o1, c\<lparr>conn_net := os\<rparr>))"

text \<open>The statement on a database whose schema may not have been created yet.\<close>

definition on_schema :: "(visus_db \<Rightarrow> 'a result) \<Rightarrow> visus_db option \<Rightarrow> 'a result" where
  "on_schema f d = (case d of None \<Rightarrow> Inl no_schema | Some db \<Rightarrow> f db)"

definition conn_Exec :: "stmt \<Rightarrow> (conn, unit) op" where
  "conn_Exec st c = (case take_net c of (o1, c1) \<Rightarrow>
     (case (o1, on_schema (st (conn_now c1)) (conn_db c1)) of
        (Refused e, _) \<Rightarrow> (Inl (Err e), c1)
      | (_, Inl e) \<Rightarrow> (Inl e, c1)
      | (Served, Inr db) \<Rightarrow> (Inr (), c1\<lparr>conn_db := Some db\<rparr>)
      | (Lost e _, Inr db) \<Rightarrow> (Inl (Err e), c1\<lparr>conn_db := Some db\<rparr>)))"

text \<open>
  A query returns the rows it delivers and what \<^verbatim>\<open>rows.Err()\<close> reports after the last one.
\<close>

definition conn_Query :: "(visus_db \<Rightarrow> 'r list) \<Rightarrow> (conn, 'r list \<times> go_error option) op" where
  "conn_Query q c = (case take_net c of (o1, c1) \<Rightarrow>
     (case (o1, on_schema (\<lambda>db. Inr (q db)) (conn_db c1)) of
        (Refused e, _) \<Rightarrow> (Inl (Err e), c1)
      | (_, Inl e) \<Rightarrow> (Inl e, c1)
      | (Served, Inr rs) \<Rightarrow> (Inr (rs, None), c1)
      | (Lost e k, Inr rs) \<Rightarrow> (Inr (take k rs, Some e), c1)))"

text \<open>\<^verbatim>\<open>QueryRow(...).Scan\<close>: no row is \<^verbatim>\<open>ErrNoRows\<close> (here \<open>None\<close>).\<close>

definition conn_QueryRow :: "(visus_db \<Rightarrow> 'r option) \<Rightarrow> (conn, 'r option) op" where
  "conn_QueryRow q c = (case take_net c of (o1, c1) \<Rightarrow>
     (case (o1, on_schema (\<lambda>db. Inr (q db)) (conn_db c1)) of
        (Refused e, _) \<Rightarrow> (Inl (Err e), c1)
      | (_, Inl e) \<Rightarrow> (Inl e, c1)
      | (Served, Inr r) \<Rightarrow> (Inr r, c1)
      | (Lost e k, Inr r) \<Rightarrow> (Inl (Err e), c1)))"

text \<open>The loop \<^verbatim>\<open>for rows.Next() { rows.Scan(..); append }\<close>, which does not ask for \<^verbatim>\<open>rows.Err()\<close>.\<close>

definition rows_loop :: "'r list \<times> go_error option \<Rightarrow> (conn, 'r list) op" where
  "rows_loop r = op_return (fst r)"

text \<open>\<^verbatim>\<open>pgx.CollectRows\<close> does.\<close>

definition CollectRows :: "'r list \<times> go_error option \<Rightarrow> (conn, 'r list) op" where
  "CollectRows r c = (case snd r of None \<Rightarrow> (Inr (fst r), c) | Some e \<Rightarrow> (Inl (Err e), c))"

text \<open>
  A transaction: \<^verbatim>\<open>Begin\<close>, the statements in order up to the first error, \<^verbatim>\<open>Commit\<close>; the
  deferred \<^verbatim>\<open>Rollback\<close> of a transaction that did not get to \<^verbatim>\<open>Commit\<close> is a round trip whose
  outcome is only logged.  The statements work on a private copy of the database
  (transactions are serializable).
\<close>

fun txn_Execs :: "stmt list \<Rightarrow> visus_db option \<Rightarrow> (conn, visus_db option) op" where
  "txn_Execs [] w c = (Inr w, c)"
| "txn_Execs (st # sts) w c = (case take_net c of (o1, c1) \<Rightarrow>
     (case (o1, on_schema (st (conn_now c1)) w) of
        (Refused e, _) \<Rightarrow> (Inl (Err e), c1)
      | (Lost e _, _) \<Rightarrow> (Inl (Err e), c1)
      | (Served, Inl e) \<Rightarrow> (Inl e, c1)
      | (Served, Inr w') \<Rightarrow> txn_Execs sts (Some w') c1))"

definition txn_Commit :: "visus_db option \<Rightarrow> (conn, unit) op" where
  "txn_Commit w c = (case take_net c of
      (Served, c1) \<Rightarrow> (Inr (), c1\<lparr>conn_db := w\<rparr>)
    | (Refused e, c1) \<Rightarrow> (Inl (Err e), c1)
    | (Lost e _, c1) \<Rightarrow> (Inl (Err e), c1\<lparr>conn_db := w\<rparr>))"

definition in_txn :: "stmt list \<Rightarrow> (conn, unit) op" where
  "in_txn sts c = (case take_net c of
      (Refused e, c1) \<Rightarrow> (Inl (Err e), c1)
    | (Lost e _, c1) \<Rightarrow> (Inl (Err e), c1)
    | (Served, c1) \<Rightarrow>
        (case txn_Execs sts (conn_db c1) c1 of
           (Inl e, c2) \<Rightarrow> (Inl e, snd (take_net c2))
         | (Inr w, c2) \<Rightarrow> txn_Commit w c2))"

section \<open>Statements\<close>

definition deleteMetricsStmt :: "string \<Rightarrow> stmt" where
  "deleteMetricsStmt name now db = Inr (db\<lparr>tbl_metric := filter (\<lambda>(k, v). fst k \<noteq> name) (tbl_metric db)\<rparr>)"

definition deleteCollectionStmt :: "string \<Rightarrow> stmt" where
  "deleteCollectionStmt name now db = Inr (db\<lparr>tbl_collection := AList.delete name (tbl_collection db)\<rparr>)"

definition upsertCollectionStmt :: "Collection \<Rightarrow> stmt" where
  "upsertCollectionStmt c now db =
     (if coll_Scope c \<notin> {Cluster, Node} then Inl bad_enum
      else Inr (db\<lparr>tbl_collection := AList.update (coll_Name c)
        \<lparr>cr_updated = now, cr_enabled = coll_Enabled c, cr_scope = coll_Scope c, cr_maxResults = coll_MaxResult c,
         cr_frequency = coll_Frequency c, cr_query = coll_Query c, cr_labels = coll_Labels c,
         cr_databases = coll_Databases c\<rparr> (tbl_collection db)\<rparr>))"

definition insertMetricStmt :: "string \<Rightarrow> Metric \<Rightarrow> stmt" where
  "insertMetricStmt coll m now db =
     (if metric_Kind m \<notin> {Counter, Gauge} then Inl bad_enum
      else if map_of (tbl_metric db) (coll, metric_Name m) \<noteq> None then Inl pk_violation
      else Inr (db\<lparr>tbl_metric := ((coll, metric_Name m), (metric_Kind m, metric_Help m)) # tbl_metric db\<rparr>))"

definition getMetricsStmt :: "string \<Rightarrow> visus_db \<Rightarrow> Metric list" where
  "getMetricsStmt name db = map (\<lambda>((c, n), (k, h)). \<lparr>metric_Name = n, metric_Kind = k, metric_Help = h\<rparr>)
     (filter (\<lambda>(k, v). fst k = name) (tbl_metric db))"

text \<open>
  The statement names neither \<^verbatim>\<open>enabled\<close> nor \<^verbatim>\<open>updated\<close>: a new row gets the defaults of the
  table, an existing row keeps its values.
\<close>

definition upsertHistogramStmt :: "string \<Rightarrow> string \<Rightarrow> int \<Rightarrow> int \<Rightarrow> int \<Rightarrow> stmt" where
  "upsertHistogramStmt name regex bins st en now db =
     Inr (db\<lparr>tbl_histogram := AList.update name
       (case map_of (tbl_histogram db) name of
          None \<Rightarrow> \<lparr>hr_regex = regex, hr_updated = now, hr_bins = bins, hr_start = st, hr_end = en, hr_enabled = True\<rparr>
        | Some r \<Rightarrow> r\<lparr>hr_regex := regex, hr_bins := bins, hr_start := st, hr_end := en\<rparr>) (tbl_histogram db)\<rparr>)"

definition deleteHistogramStmt :: "string \<Rightarrow> stmt" where
  "deleteHistogramStmt name now db = Inr (db\<lparr>tbl_histogram := AList.delete name (tbl_histogram db)\<rparr>)"

definition upsertScanStmt :: "Scan \<Rightarrow> stmt" where
  "upsertScanStmt sc now db = Inr (db\<lparr>tbl_scan := AList.update (scan_Name sc)
     \<lparr>sr_path = scan_Path sc, sr_format = scan_Format sc, sr_updated = now, sr_enabled = scan_Enabled sc\<rparr> (tbl_scan db)\<rparr>)"

definition insertPatternStmt :: "string \<Rightarrow> Pattern \<Rightarrow> stmt" where
  "insertPatternStmt sc p now db =
     (if map_of (tbl_pattern db) (sc, pat_Name p) \<noteq> None then Inl pk_violation
      else Inr (db\<lparr>tbl_pattern := ((sc, pat_Name p),
        \<lparr>pr_help = pat_Help p, pr_regex = pat_Regex p, pr_exclude = pat_Exclude p\<rparr>) # tbl_pattern db\<rparr>))"

definition deletePatternsStmt :: "string \<Rightarrow> stmt" where
  "deletePatternsStmt name now db = Inr (db\<lparr>tbl_pattern := filter (\<lambda>(k, v). fst k \<noteq> name) (tbl_pattern db)\<rparr>)"

definition deleteScanStmt :: "string \<Rightarrow> stmt" where
  "deleteScanStmt name now db = Inr (db\<lparr>tbl_scan := AList.delete name (tbl_scan db)\<rparr>)"

definition getPatternsStmt :: "string \<Rightarrow> visus_db \<Rightarrow> Pattern list" where
  "getPatternsStmt name db = map (\<lambda>((s, n), r).
       \<lparr>pat_Help = pr_help r, pat_Name = n, pat_Exclude = pr_exclude r, pat_Regex = pr_regex r\<rparr>)
     (filter (\<lambda>(k, v). fst k = name) (tbl_pattern db))"

text \<open>Five minutes and two hours in nanoseconds.\<close>

definition fresh_window :: time where "fresh_window = 5 * 60 * 10 ^ 9"
definition ttl_window :: time where "ttl_window = 2 * 60 * 60 * 10 ^ 9"

definition listNodesStmt :: "time \<Rightarrow> visus_db \<Rightarrow> NodeInfo list" where
  "listNodesStmt now db = sort_key (\<lambda>n. - node_Updated n)
     (filter (\<lambda>n. now - fresh_window < node_Updated n) (map snd (tbl_node db)))"

definition registerNodeStmt :: "int \<Rightarrow> string \<Rightarrow> int \<Rightarrow> string \<Rightarrow> stmt" where
  "registerNodeStmt i hostname pid version now db =
     (if map_of (tbl_node db) i \<noteq> None then Inl pk_violation
      else Inr (db\<lparr>tbl_node := (i, \<lparr>node_ID = i, node_Hostname = hostname, node_PID = pid,
         node_Version = version, node_Updated = now\<rparr>) # tbl_node db\<rparr>))"

definition heartbeatNodeStmt :: "int \<Rightarrow> stmt" where
  "heartbeatNodeStmt i now db = Inr (db\<lparr>tbl_node := map (\<lambda>(k, n). (k, if k = i then beat now n else n)) (tbl_node db)\<rparr>)"

definition deleteNodeStmt :: "int \<Rightarrow> stmt" where
  "deleteNodeStmt i now db = Inr (db\<lparr>tbl_node := AList.delete i (tbl_node db)\<rparr>)"

text \<open>The daily job of the table's \<^verbatim>\<open>ttl_expiration_expression\<close>, a step of the server.\<close>

definition ttl_job :: stmt where
  "ttl_job now db = Inr (db\<lparr>tbl_node := filter (\<lambda>(k, n). now < node_Updated n + ttl_window) (tbl_node db)\<rparr>)"

text \<open>Every object of \<^verbatim>\<open>ddl.sql\<close> is created only if it does not exist.\<close>

definition ddlStmt :: "visus_db option \<Rightarrow> visus_db option" where
  "ddlStmt d = (case d of None \<Rightarrow> Some empty_db | Some db \<Rightarrow> Some db)"

section \<open>Operations\<close>

text \<open>
  \<^verbatim>\<open>lease.Init\<close> is a library function that creates the lease table; it is a parameter.
\<close>

definition sql_Init :: "(conn, unit) op \<Rightarrow> (conn, unit) op" where
  "sql_Init lease_Init c = (case take_net c of
      (Served, c1) \<Rightarrow> lease_Init (c1\<lparr>conn_db := ddlStmt (conn_db c1)\<rparr>)
    | (Refused e, c1) \<Rightarrow> (Inl (Err e), c1)
    | (Lost e _, c1) \<Rightarrow> (Inl (Err e), c1\<lparr>conn_db := ddlStmt (conn_db c1)\<rparr>))"

definition sql_DeleteCollection :: "string \<Rightarrow> (conn, unit) op" where
  "sql_DeleteCollection name = in_txn [deleteMetricsStmt name, deleteCollectionStmt name]"

definition sql_GetCollectionNames :: "(conn, string list) op" where
  "sql_GetCollectionNames c =
     op_bind (conn_Query (\<lambda>db. conn_name_order c (keys (tbl_collection db)))) rows_loop c"

definition sql_GetMetrics :: "string \<Rightarrow> (conn, Metric list) op" where
  "sql_GetMetrics name c =
     op_bind (conn_Query (\<lambda>db. conn_metric_order c (getMetricsStmt name db))) rows_loop c"

definition sql_GetCollection :: "string \<Rightarrow> (conn, Collection option) op" where
  "sql_GetCollection name =
     op_bind (conn_QueryRow (\<lambda>db. map_of (tbl_collection db) name))
       (\<lambda>row. case row of None \<Rightarrow> op_return None
          | Some r \<Rightarrow> op_bind (sql_GetMetrics name) (\<lambda>metrics. op_return (Some
              \<lparr>coll_Databases = cr_databases r, coll_Enabled = cr_enabled r, coll_Frequency = cr_frequency r,
               coll_Labels = cr_labels r, coll_LastModified = cr_updated r, coll_MaxResult = cr_maxResults r,
               coll_Metrics = metrics, coll_Name = name, coll_Query = cr_query r, coll_Scope = cr_scope r\<rparr>)))"

definition sql_PutCollection :: "Collection \<Rightarrow> (conn, unit) op" where
  "sql_PutCollection c = in_txn
     ([deleteMetricsStmt (coll_Name c), upsertCollectionStmt c] @ map (insertMetricStmt (coll_Name c)) (coll_Metrics c))"

definition sql_DeleteHistogram :: "string \<Rightarrow> (conn, unit) op" where
  "sql_DeleteHistogram name = conn_Exec (deleteHistogramStmt name)"

definition sql_GetHistogram :: "string \<Rightarrow> (conn, Histogram option) op" where
  "sql_GetHistogram name =
     op_bind (conn_QueryRow (\<lambda>db. map_of (tbl_histogram db) name))
       (\<lambda>row. op_return (map_option (\<lambda>r. \<lparr>hist_Enabled = hr_enabled r, hist_Name = name, hist_Bins = hr_bins r,
          hist_Start = hr_start r, hist_End = hr_end r, hist_Regex = hr_regex r, hist_LastModified = hr_updated r\<rparr>) row))"

definition sql_GetHistogramNames :: "(conn, string list) op" where
  "sql_GetHistogramNames c =
     op_bind (conn_Query (\<lambda>db. conn_name_order c (keys (tbl_histogram db)))) rows_loop c"

definition sql_PutHistogram :: "Histogram \<Rightarrow> (conn, unit) op" where
  "sql_PutHistogram h = conn_Exec
     (upsertHistogramStmt (hist_Name h) (hist_Regex h) (hist_Bins h) (hist_Start h) (hist_End h))"

definition sql_DeleteScan :: "string \<Rightarrow> (conn, unit) op" where
  "sql_DeleteScan name = in_txn [deletePatternsStmt name, deleteScanStmt name]"

definition sql_GetScanNames :: "(conn, string list) op" where
  "sql_GetScanNames c =
     op_bind (conn_Query (\<lambda>db. conn_name_order c (keys (tbl_scan db)))) rows_loop c"

definition sql_GetScanPatterns :: "string \<Rightarrow> (conn, Pattern list) op" where
  "sql_GetScanPatterns name c =
     op_bind (conn_Query (\<lambda>db. conn_pattern_order c (getPatternsStmt name db))) rows_loop c"

definition sql_GetScan :: "string \<Rightarrow> (conn, Scan option) op" where
  "sql_GetScan name =
     op_bind (conn_QueryRow (\<lambda>db. map_of (tbl_scan db) name))
       (\<lambda>row. case row of None \<Rightarrow> op_return None
          | Some r \<Rightarrow> op_bind (sql_GetScanPatterns name) (\<lambda>patterns. op_return (Some
              \<lparr>scan_Enabled = sr_enabled r, scan_Format = sr_format r, scan_LastModified = sr_updated r,
               scan_Name = name, scan_Path = sr_path r, scan_Patterns = patterns\<rparr>)))"

definition sql_PutScan :: "Scan \<Rightarrow> (conn, unit) op" where
  "sql_PutScan sc = in_txn
     ([deletePatternsStmt (scan_Name sc), upsertScanStmt sc] @ map (insertPatternStmt (scan_Name sc)) (scan_Patterns sc))"

definition sql_GetNodes :: "(conn, NodeInfo list) op" where
  "sql_GetNodes c = op_bind (conn_Query (listNodesStmt (conn_now c))) CollectRows c"

text \<open>\<^verbatim>\<open>unique_rowid()\<close> is the next value of a sequence; the statement returns it.\<close>

definition sql_RegisterNode :: "string \<Rightarrow> int \<Rightarrow> string \<Rightarrow> (conn, int) op" where
  "sql_RegisterNode hostname pid version c =
     (let i = conn_rowid c (conn_ticks c) in
      op_bind (conn_Exec (registerNodeStmt i hostname pid version)) (\<lambda>_. op_return i)
        (c\<lparr>conn_ticks := Suc (conn_ticks c)\<rparr>))"

definition sql_Heartbeat :: "int \<Rightarrow> (conn, unit) op" where
  "sql_Heartbeat i = conn_Exec (heartbeatNodeStmt i)"

definition sql_DeleteNode :: "int \<Rightarrow> (conn, unit) op" where
  "sql_DeleteNode i = conn_Exec (deleteNodeStmt i)"

section \<open>Transactions are atomic\<close>

fun run_stmts :: "time \<Rightarrow> stmt list \<Rightarrow> visus_db option \<Rightarrow> visus_db option result" where
  "run_stmts now [] d = Inr d"
| "run_stmts now (st # sts) d = (case on_schema (st now) d of Inl e \<Rightarrow> Inl e | Inr db \<Rightarrow> run_stmts now sts (Some db))"

lemma run_stmts_append:
  "run_stmts now (xs @ ys) d = (case run_stmts now xs d of Inl e \<Rightarrow> Inl e | Inr d' \<Rightarrow> run_stmts now ys d')"
  by (induction xs arbitrary: d) (auto split: sum.splits)

lemma take_net_frame:
  assumes "take_net c = (o1, c1)"
  shows "\<exists>os. c1 = c\<lparr>conn_net := os\<rparr>"
proof (cases "conn_net c")
  case Nil
  then have "c1 = c\<lparr>conn_net := conn_net c\<rparr>" using assms by (simp add: take_net_def)
  then show ?thesis ..
qed (use assms in \<open>auto simp: take_net_def\<close>)

lemma take_net_Nil [simp]: "conn_net c = [] \<Longrightarrow> take_net c = (Served, c)"
  by (simp add: take_net_def)

lemma txn_Execs_frame:
  "txn_Execs sts w c = (r, c1) \<Longrightarrow>
     (\<exists>os. c1 = c\<lparr>conn_net := os\<rparr>) \<and> (\<forall>w'. r = Inr w' \<longrightarrow> run_stmts (conn_now c) sts w = Inr w')"
proof (induction sts arbitrary: w c)
  case Nil
  then have "c1 = c\<lparr>conn_net := conn_net c\<rparr>" "r = Inr w" by simp_all
  then show ?case by fastforce
next
  case (Cons st sts)
  obtain o1 c0 where t: "take_net c = (o1, c0)" by (cases "take_net c")
  obtain os where c0: "c0 = c\<lparr>conn_net := os\<rparr>" using take_net_frame[OF t] by blast
  show ?case
  proof (cases "o1 = Served \<and> (\<exists>w'. on_schema (st (conn_now c)) w = Inr w')")
    case True
    then obtain w' where w': "o1 = Served" "on_schema (st (conn_now c)) w = Inr w'" by blast
    then have "txn_Execs sts (Some w') c0 = (r, c1)" using Cons.prems t c0 by simp
    from Cons.IH[OF this] show ?thesis using w' c0 by auto
  next
    case False
    then have "c1 = c0 \<and> (\<exists>e. r = Inl e)"
      using Cons.prems t c0 by (auto split: outcome.splits sum.splits)
    then show ?thesis using c0 by auto
  qed
qed

lemma in_txn_frame:
  assumes "in_txn sts c = (r, c1)"
  shows "(\<exists>d os. c1 = c\<lparr>conn_db := d, conn_net := os\<rparr> \<and> (d = conn_db c \<or> run_stmts (conn_now c) sts (conn_db c) = Inr d)
    \<and> (r = Inr () \<longrightarrow> run_stmts (conn_now c) sts (conn_db c) = Inr d))"
proof -
  obtain o1 c0 where t: "take_net c = (o1, c0)" by (cases "take_net c")
  obtain os where c0: "c0 = c\<lparr>conn_net := os\<rparr>" using take_net_frame[OF t] by blast
  have same: "\<exists>d os'. c0\<lparr>conn_net := os''\<rparr> = c\<lparr>conn_db := d, conn_net := os'\<rparr> \<and> d = conn_db c" for os''
    by (rule exI[of _ "conn_db c"], rule exI[of _ os'']) (cases c, simp add: c0)
  show ?thesis
  proof (cases "o1 = Served")
    case False
    then have "c1 = c0\<lparr>conn_net := os\<rparr>" "\<exists>e. r = Inl e"
      using assms t by (auto simp: in_txn_def c0 split: outcome.splits)
    then show ?thesis using same by (metis Inl_Inr_False)
  next
    case True
    obtain r2 c2 where x: "txn_Execs sts (conn_db c0) c0 = (r2, c2)" by (cases "txn_Execs sts (conn_db c0) c0")
    then obtain os2 where c2: "c2 = c0\<lparr>conn_net := os2\<rparr>"
      and run: "\<And>w. r2 = Inr w \<Longrightarrow> run_stmts (conn_now c) sts (conn_db c) = Inr w"
      using txn_Execs_frame[OF x] by (auto simp: c0)
    obtain o3 c3 where t3: "take_net c2 = (o3, c3)" by (cases "take_net c2")
    obtain os3 where c3: "c3 = c0\<lparr>conn_net := os3\<rparr>" using take_net_frame[OF t3] c2 by auto
    show ?thesis
    proof (cases r2)
      case (Inl e)
      then have "c1 = c0\<lparr>conn_net := os3\<rparr>" "r = Inl e"
        using assms t True x t3 c3 by (auto simp: in_txn_def)
      then show ?thesis using same by (metis Inl_Inr_False)
    next
      case (Inr w)
      then have eq: "txn_Commit w c2 = (r, c1)" using assms t True x by (simp add: in_txn_def)
      have full: "c0\<lparr>conn_net := os3, conn_db := w\<rparr> = c\<lparr>conn_db := w, conn_net := os3\<rparr>"
        by (cases c) (simp add: c0)
      show ?thesis
      proof (cases o3)
        case (Refused e)
        then have "c1 = c0\<lparr>conn_net := os3\<rparr>" "r = Inl (Err e)"
          using eq t3 c3 by (auto simp: txn_Commit_def)
        then show ?thesis using same by (metis Inl_Inr_False)
      next
        case Served
        then have "c1 = c\<lparr>conn_db := w, conn_net := os3\<rparr>" using eq t3 c3 full by (simp add: txn_Commit_def)
        then show ?thesis using run[OF Inr] by blast
      next
        case (Lost e k)
        then have "c1 = c\<lparr>conn_db := w, conn_net := os3\<rparr>" using eq t3 c3 full by (simp add: txn_Commit_def)
        then show ?thesis using run[OF Inr] by blast
      qed
    qed
  qed
qed

lemma in_txn_served:
  assumes "conn_net c = []"
  shows "in_txn sts c = (case run_stmts (conn_now c) sts (conn_db c) of
     Inl e \<Rightarrow> (Inl e, c) | Inr d \<Rightarrow> (Inr (), c\<lparr>conn_db := d\<rparr>))"
proof -
  have "txn_Execs sts w c = (run_stmts (conn_now c) sts w, c)" for w
    using assms by (induction sts arbitrary: w) (auto split: sum.splits)
  then show ?thesis using assms by (auto simp: in_txn_def txn_Commit_def split: sum.splits)
qed

section \<open>What the tables hold\<close>

definition db_wf :: "visus_db \<Rightarrow> bool" where
  "db_wf db = (wf_map (tbl_collection db) \<and> wf_map (tbl_metric db) \<and> wf_map (tbl_histogram db)
     \<and> wf_map (tbl_scan db) \<and> wf_map (tbl_pattern db) \<and> wf_map (tbl_node db))"

text \<open>An order in which rows are delivered delivers each of them once.\<close>

definition orders_ok :: "conn \<Rightarrow> bool" where
  "orders_ok c = ((\<forall>xs. mset (conn_name_order c xs) = mset xs) \<and> (\<forall>xs. mset (conn_metric_order c xs) = mset xs)
     \<and> (\<forall>xs. mset (conn_pattern_order c xs) = mset xs))"

definition sql_healthy :: "conn \<Rightarrow> bool" where
  "sql_healthy c = (conn_net c = [] \<and> orders_ok c \<and> conn_db c \<noteq> None \<and> db_wf (the (conn_db c)))"

definition sql_coll :: "conn \<Rightarrow> string \<Rightarrow> Collection option" where
  "sql_coll c name = map_option (\<lambda>r.
      \<lparr>coll_Databases = cr_databases r, coll_Enabled = cr_enabled r, coll_Frequency = cr_frequency r,
       coll_Labels = cr_labels r, coll_LastModified = cr_updated r, coll_MaxResult = cr_maxResults r,
       coll_Metrics = conn_metric_order c (getMetricsStmt name (the (conn_db c))),
       coll_Name = name, coll_Query = cr_query r, coll_Scope = cr_scope r\<rparr>) (map_of (tbl_collection (the (conn_db c))) name)"

definition sql_hist :: "conn \<Rightarrow> string \<Rightarrow> Histogram option" where
  "sql_hist c name = map_option (\<lambda>r. \<lparr>hist_Enabled = hr_enabled r, hist_Name = name, hist_Bins = hr_bins r,
      hist_Start = hr_start r, hist_End = hr_end r, hist_Regex = hr_regex r, hist_LastModified = hr_updated r\<rparr>)
    (map_of (tbl_histogram (the (conn_db c))) name)"

definition sql_scan :: "conn \<Rightarrow> string \<Rightarrow> Scan option" where
  "sql_scan c name = map_option (\<lambda>r. \<lparr>scan_Enabled = sr_enabled r, scan_Format = sr_format r,
      scan_LastModified = sr_updated r, scan_Name = name, scan_Path = sr_path r,
      scan_Patterns = conn_pattern_order c (getPatternsStmt name (the (conn_db c)))\<rparr>)
    (map_of (tbl_scan (the (conn_db c))) name)"

text \<open>What the enumerations and the primary keys of the tables accept.\<close>

definition coll_storable :: "Collection \<Rightarrow> bool" where
  "coll_storable c = (coll_Scope c \<in> {Cluster, Node} \<and> (\<forall>m \<in> set (coll_Metrics c). metric_Kind m \<in> {Counter, Gauge})
     \<and> distinct (map metric_Name (coll_Metrics c)))"

definition scan_storable :: "Scan \<Rightarrow> bool" where
  "scan_storable sc = distinct (map pat_Name (scan_Patterns sc))"

definition coll_shown :: "conn \<Rightarrow> Collection \<Rightarrow> Collection" where
  "coll_shown c x = x\<lparr>coll_LastModified := conn_now c, coll_Metrics := conn_metric_order c (rev (coll_Metrics x))\<rparr>"

definition scan_shown :: "conn \<Rightarrow> Scan \<Rightarrow> Scan" where
  "scan_shown c x = x\<lparr>scan_LastModified := conn_now c, scan_Patterns := conn_pattern_order c (rev (scan_Patterns x))\<rparr>"

text \<open>\<^verbatim>\<open>PutHistogram\<close> shows the flag and the time of the row it replaces, or the defaults.\<close>

definition hist_shown :: "conn \<Rightarrow> Histogram \<Rightarrow> Histogram" where
  "hist_shown c h = (case sql_hist c (hist_Name h) of
      None \<Rightarrow> h\<lparr>hist_Enabled := True, hist_LastModified := conn_now c\<rparr>
    | Some old \<Rightarrow> h\<lparr>hist_Enabled := hist_Enabled old, hist_LastModified := hist_LastModified old\<rparr>)"

lemma sql_healthyE:
  assumes "sql_healthy c"
  obtains db where "conn_net c = []" "orders_ok c" "conn_db c = Some db" "db_wf db"
  using assms by (auto simp: sql_healthy_def)

lemma sql_healthy_upd:
  "sql_healthy c \<Longrightarrow> db_wf db \<Longrightarrow> sql_healthy (c\<lparr>conn_db := Some db\<rparr>)"
  by (simp add: sql_healthy_def orders_ok_def)

definition metric_rows :: "string \<Rightarrow> Metric list \<Rightarrow> (string \<times> string, string \<times> string) gomap" where
  "metric_rows n ms = rev (map (\<lambda>m. ((n, metric_Name m), (metric_Kind m, metric_Help m))) ms)"

definition pattern_rows :: "string \<Rightarrow> Pattern list \<Rightarrow> (string \<times> string, pattern_row) gomap" where
  "pattern_rows n ps = rev (map (\<lambda>p. ((n, pat_Name p),
     \<lparr>pr_help = pat_Help p, pr_regex = pat_Regex p, pr_exclude = pat_Exclude p\<rparr>)) ps)"

lemma run_inserts:
  assumes "\<And>x db. ok x \<Longrightarrow> map_of (tbl db) (key x) = None \<Longrightarrow> ins x now db = Inr (upd ((key x, val x) # tbl db) db)"
    and "\<And>t db. tbl (upd t db) = t" "\<And>t t' db. upd t (upd t' db) = upd t db" "\<And>db. upd (tbl db) db = db"
    and "\<forall>x \<in> set xs. ok x" "distinct (map key xs)" "\<forall>x \<in> set xs. map_of (tbl db) (key x) = None"
  shows "run_stmts now (map ins xs) (Some db) = Inr (Some (upd (rev (map (\<lambda>x. (key x, val x)) xs) @ tbl db) db))"
  using assms(5-)
proof (induction xs arbitrary: db)
  case (Cons x xs)
  let ?db = "upd ((key x, val x) # tbl db) db"
  have "run_stmts now (map ins xs) (Some ?db) = Inr (Some (upd (rev (map (\<lambda>x. (key x, val x)) xs) @ tbl ?db) ?db))"
    using Cons.prems by (intro Cons.IH) (auto simp: assms(2) image_iff)
  then show ?case using Cons.prems by (simp add: on_schema_def assms(1-3))
qed (simp add: assms(4))

lemma run_insertMetrics:
  assumes "\<forall>m \<in> set ms. metric_Kind m \<in> {Counter, Gauge}" "distinct (map metric_Name ms)"
    "\<forall>k. map_of (tbl_metric db) (n, k) = None"
  shows "run_stmts now (map (insertMetricStmt n) ms) (Some db)
    = Inr (Some (db\<lparr>tbl_metric := metric_rows n ms @ tbl_metric db\<rparr>))"
  unfolding metric_rows_def
  by (rule run_inserts[where ok = "\<lambda>m. metric_Kind m \<in> {Counter, Gauge}" and upd = "\<lambda>t db. db\<lparr>tbl_metric := t\<rparr>"])
     (use assms in \<open>auto simp: insertMetricStmt_def distinct_map inj_on_def\<close>)

lemma run_insertPatterns:
  assumes "distinct (map pat_Name ps)" "\<forall>k. map_of (tbl_pattern db) (n, k) = None"
  shows "run_stmts now (map (insertPatternStmt n) ps) (Some db)
    = Inr (Some (db\<lparr>tbl_pattern := pattern_rows n ps @ tbl_pattern db\<rparr>))"
  unfolding pattern_rows_def
  by (rule run_inserts[where ok = "\<lambda>_. True" and upd = "\<lambda>t db. db\<lparr>tbl_pattern := t\<rparr>"])
     (use assms in \<open>auto simp: insertPatternStmt_def distinct_map inj_on_def\<close>)

lemma map_of_filter_owner:
  "map_of (filter (\<lambda>(k, v). fst k \<noteq> n) t) (a, b) = (if a = n then None else map_of t (a, b))"
  using map_of_filter_key[of "\<lambda>k. fst k \<noteq> n" t "(a, b)"] by simp

lemma filter_owner_other:
  "a \<noteq> n \<Longrightarrow> filter (\<lambda>(k, v). fst k = a) (filter (\<lambda>(k, v). fst k \<noteq> n) t) = filter (\<lambda>(k, v). fst k = a) t"
  "filter (\<lambda>(k, v). fst k = n) (filter (\<lambda>(k, v). fst k \<noteq> n) t) = []"
  by (auto simp: filter_empty_conv intro!: filter_cong)

definition put_coll_db :: "time \<Rightarrow> Collection \<Rightarrow> visus_db \<Rightarrow> visus_db" where
  "put_coll_db now x db = db\<lparr>tbl_collection := AList.update (coll_Name x)
        \<lparr>cr_updated = now, cr_enabled = coll_Enabled x, cr_scope = coll_Scope x, cr_maxResults = coll_MaxResult x,
         cr_frequency = coll_Frequency x, cr_query = coll_Query x, cr_labels = coll_Labels x,
         cr_databases = coll_Databases x\<rparr> (tbl_collection db),
     tbl_metric := metric_rows (coll_Name x) (coll_Metrics x) @ filter (\<lambda>(k, v). fst k \<noteq> coll_Name x) (tbl_metric db)\<rparr>"

definition put_scan_db :: "time \<Rightarrow> Scan \<Rightarrow> visus_db \<Rightarrow> visus_db" where
  "put_scan_db now x db = db\<lparr>tbl_scan := AList.update (scan_Name x)
        \<lparr>sr_path = scan_Path x, sr_format = scan_Format x, sr_updated = now, sr_enabled = scan_Enabled x\<rparr> (tbl_scan db),
     tbl_pattern := pattern_rows (scan_Name x) (scan_Patterns x) @ filter (\<lambda>(k, v). fst k \<noteq> scan_Name x) (tbl_pattern db)\<rparr>"

lemma run_put_coll:
  assumes "coll_storable x"
  shows "run_stmts now ([deleteMetricsStmt (coll_Name x), upsertCollectionStmt x] @ map (insertMetricStmt (coll_Name x)) (coll_Metrics x))
    (Some db) = Inr (Some (put_coll_db now x db))"
  using assms
  by (simp add: run_stmts_append on_schema_def deleteMetricsStmt_def upsertCollectionStmt_def coll_storable_def
      run_insertMetrics map_of_filter_owner put_coll_db_def)

lemma run_put_scan:
  assumes "scan_storable x"
  shows "run_stmts now ([deletePatternsStmt (scan_Name x), upsertScanStmt x] @ map (insertPatternStmt (scan_Name x)) (scan_Patterns x))
    (Some db) = Inr (Some (put_scan_db now x db))"
  using assms
  by (simp add: run_stmts_append on_schema_def deletePatternsStmt_def upsertScanStmt_def scan_storable_def
      run_insertPatterns map_of_filter_owner put_scan_db_def)

lemma filter_metric_rows: "filter (\<lambda>(k, v). fst k = a) (metric_rows n ms) = (if a = n then metric_rows n ms else [])"
  by (auto simp: metric_rows_def filter_empty_conv rev_filter[symmetric] intro!: filter_True)

lemma filter_pattern_rows: "filter (\<lambda>(k, v). fst k = a) (pattern_rows n ps) = (if a = n then pattern_rows n ps else [])"
  by (auto simp: pattern_rows_def filter_empty_conv rev_filter[symmetric] intro!: filter_True)

lemma record_eta [simp]:
  "\<lparr>metric_Name = metric_Name m, metric_Kind = metric_Kind m, metric_Help = metric_Help m\<rparr> = (m :: Metric)"
  "\<lparr>pat_Help = pat_Help p, pat_Name = pat_Name p, pat_Exclude = pat_Exclude p, pat_Regex = pat_Regex p\<rparr> = (p :: Pattern)"
  by simp_all

lemma rows_of_metric_rows:
  "map (\<lambda>((c, n), (k, h)). \<lparr>metric_Name = n, metric_Kind = k, metric_Help = h\<rparr>) (metric_rows a ms) = rev ms"
  by (simp add: metric_rows_def rev_map comp_def)

lemma rows_of_pattern_rows:
  "map (\<lambda>((s, n), r). \<lparr>pat_Help = pr_help r, pat_Name = n, pat_Exclude = pr_exclude r, pat_Regex = pr_regex r\<rparr>)
    (pattern_rows a ps) = rev ps"
  by (simp add: pattern_rows_def rev_map comp_def)

lemma getMetrics_put:
  "getMetricsStmt a (put_coll_db now x db) = (if a = coll_Name x then rev (coll_Metrics x) else getMetricsStmt a db)"
  by (simp add: getMetricsStmt_def put_coll_db_def filter_metric_rows filter_owner_other rows_of_metric_rows
      del: filter_filter)

lemma getPatterns_put:
  "getPatternsStmt a (put_scan_db now x db) = (if a = scan_Name x then rev (scan_Patterns x) else getPatternsStmt a db)"
  by (simp add: getPatternsStmt_def put_scan_db_def filter_pattern_rows filter_owner_other rows_of_pattern_rows
      del: filter_filter)

lemma wf_map_rows:
  assumes "wf_map t" "distinct (map f xs)"
  shows "wf_map (rev (map (\<lambda>x. ((n, f x), g x)) xs) @ filter (\<lambda>(k, v). fst k \<noteq> n) t)"
proof -
  have "distinct (map fst (filter (\<lambda>(k, v). fst k \<noteq> n) t))"
    using assms(1) by (simp add: wf_map_def keys_def distinct_map_filter)
  moreover have "distinct (map fst (rev (map (\<lambda>x. ((n, f x), g x)) xs)))"
    using assms(2) by (auto simp: rev_map[symmetric] comp_def distinct_map inj_on_def)
  ultimately show ?thesis by (auto simp: wf_map_def keys_def)
qed

lemma put_coll_wf: "db_wf db \<Longrightarrow> coll_storable x \<Longrightarrow> db_wf (put_coll_db now x db)"
  by (auto simp: db_wf_def put_coll_db_def coll_storable_def metric_rows_def intro!: wf_map_rows)

lemma put_scan_wf: "db_wf db \<Longrightarrow> scan_storable x \<Longrightarrow> db_wf (put_scan_db now x db)"
  by (auto simp: db_wf_def put_scan_db_def scan_storable_def pattern_rows_def intro!: wf_map_rows)

lemma conn_QueryRow_served:
  "conn_net c = [] \<Longrightarrow> conn_db c = Some db \<Longrightarrow> conn_QueryRow q c = (Inr (q db), c)"
  by (simp add: conn_QueryRow_def on_schema_def)

lemma conn_Query_served:
  "conn_net c = [] \<Longrightarrow> conn_db c = Some db \<Longrightarrow> conn_Query q c = (Inr (q db, None), c)"
  by (simp add: conn_Query_def on_schema_def)

lemma conn_Exec_served:
  "conn_net c = [] \<Longrightarrow> conn_db c = Some db \<Longrightarrow> st (conn_now c) db = Inr db' \<Longrightarrow>
    conn_Exec st c = (Inr (), c\<lparr>conn_db := Some db'\<rparr>)"
  by (simp add: conn_Exec_def on_schema_def)

lemmas served = conn_QueryRow_served conn_Query_served conn_Exec_served op_bind_def rows_loop_def CollectRows_def

lemma sql_coll_put:
  assumes "conn_db c = Some db"
  shows "sql_coll (c\<lparr>conn_db := Some (put_coll_db (conn_now c) x db)\<rparr>) = (sql_coll c)(coll_Name x \<mapsto> coll_shown c x)"
proof
  fix n
  show "sql_coll (c\<lparr>conn_db := Some (put_coll_db (conn_now c) x db)\<rparr>) n = ((sql_coll c)(coll_Name x \<mapsto> coll_shown c x)) n"
    by (simp add: sql_coll_def getMetrics_put coll_shown_def assms) (simp add: put_coll_db_def)
qed

lemma sql_scan_put:
  assumes "conn_db c = Some db"
  shows "sql_scan (c\<lparr>conn_db := Some (put_scan_db (conn_now c) x db)\<rparr>) = (sql_scan c)(scan_Name x \<mapsto> scan_shown c x)"
proof
  fix n
  show "sql_scan (c\<lparr>conn_db := Some (put_scan_db (conn_now c) x db)\<rparr>) n = ((sql_scan c)(scan_Name x \<mapsto> scan_shown c x)) n"
    by (simp add: sql_scan_def getPatterns_put scan_shown_def assms) (simp add: put_scan_db_def)
qed

lemma names_law:
  assumes "orders_ok c" "wf_map t"
  shows "distinct (conn_name_order c (keys t)) \<and> set (conn_name_order c (keys t)) = dom (map_of t)"
proof -
  have "mset (conn_name_order c (keys t)) = mset (keys t)" using assms(1) by (simp add: orders_ok_def)
  from mset_eq_imp_distinct_iff[OF this] mset_eq_setD[OF this] show ?thesis
    using assms(2) by (simp add: wf_map_def)
qed

interpretation sql_collections: named_store "\<lambda>x. as_update (sql_PutCollection x)" "\<lambda>c n. as_query (sql_GetCollection n) c"
  "\<lambda>n. as_update (sql_DeleteCollection n)" "as_query sql_GetCollectionNames" coll_Name sql_healthy coll_storable
  coll_shown sql_coll
proof (unfold_locales, goal_cases)
  case (1 c n)
  then show ?case
    by (elim sql_healthyE) (auto simp: as_query_def sql_GetCollection_def sql_GetMetrics_def served sql_coll_def split: option.splits)
next
  case (2 c x)
  then obtain db where db: "conn_net c = []" "orders_ok c" "conn_db c = Some db" "db_wf db" by (elim sql_healthyE)
  have "as_update (sql_PutCollection x) c = Inr (c\<lparr>conn_db := Some (put_coll_db (conn_now c) x db)\<rparr>)"
    using run_put_coll[OF 2(2), of "conn_now c" db] db
    by (simp add: as_update_def sql_PutCollection_def in_txn_served del: append.simps)
  then show ?case using sql_healthy_upd[OF 2(1) put_coll_wf[OF db(4) 2(2)]] sql_coll_put[OF db(3)] by blast
next
  case (3 c n)
  then obtain db where db: "conn_net c = []" "orders_ok c" "conn_db c = Some db" "db_wf db" by (elim sql_healthyE)
  let ?db = "db\<lparr>tbl_metric := filter (\<lambda>(k, v). fst k \<noteq> n) (tbl_metric db), tbl_collection := AList.delete n (tbl_collection db)\<rparr>"
  have "as_update (sql_DeleteCollection n) c = Inr (c\<lparr>conn_db := Some ?db\<rparr>)"
    using db by (simp add: as_update_def sql_DeleteCollection_def in_txn_served on_schema_def deleteMetricsStmt_def deleteCollectionStmt_def)
  moreover have "db_wf ?db" using db(4) by (auto simp: db_wf_def)
  moreover have "sql_coll (c\<lparr>conn_db := Some ?db\<rparr>) = (sql_coll c)(n := None)"
    by (auto simp: fun_eq_iff sql_coll_def db getMetricsStmt_def filter_owner_other simp del: filter_filter)
  ultimately show ?case using sql_healthy_upd[OF 3] by blast
next
  case (4 c)
  then obtain db where db: "conn_net c = []" "orders_ok c" "conn_db c = Some db" "db_wf db" by (elim sql_healthyE)
  then show ?case
    using names_law[OF db(2), of "tbl_collection db"]
    by (auto simp: as_query_def sql_GetCollectionNames_def served sql_coll_def db_wf_def dom_def)
qed

interpretation sql_scans: named_store "\<lambda>x. as_update (sql_PutScan x)" "\<lambda>c n. as_query (sql_GetScan n) c"
  "\<lambda>n. as_update (sql_DeleteScan n)" "as_query sql_GetScanNames" scan_Name sql_healthy scan_storable
  scan_shown sql_scan
proof (unfold_locales, goal_cases)
  case (1 c n)
  then show ?case
    by (elim sql_healthyE) (auto simp: as_query_def sql_GetScan_def sql_GetScanPatterns_def served sql_scan_def split: option.splits)
next
  case (2 c x)
  then obtain db where db: "conn_net c = []" "orders_ok c" "conn_db c = Some db" "db_wf db" by (elim sql_healthyE)
  have "as_update (sql_PutScan x) c = Inr (c\<lparr>conn_db := Some (put_scan_db (conn_now c) x db)\<rparr>)"
    using run_put_scan[OF 2(2), of "conn_now c" db] db
    by (simp add: as_update_def sql_PutScan_def in_txn_served del: append.simps)
  then show ?case using sql_healthy_upd[OF 2(1) put_scan_wf[OF db(4) 2(2)]] sql_scan_put[OF db(3)] by blast
next
  case (3 c n)
  then obtain db where db: "conn_net c = []" "orders_ok c" "conn_db c = Some db" "db_wf db" by (elim sql_healthyE)
  let ?db = "db\<lparr>tbl_pattern := filter (\<lambda>(k, v). fst k \<noteq> n) (tbl_pattern db), tbl_scan := AList.delete n (tbl_scan db)\<rparr>"
  have "as_update (sql_DeleteScan n) c = Inr (c\<lparr>conn_db := Some ?db\<rparr>)"
    using db by (simp add: as_update_def sql_DeleteScan_def in_txn_served on_schema_def deletePatternsStmt_def deleteScanStmt_def)
  moreover have "db_wf ?db" using db(4) by (auto simp: db_wf_def)
  moreover have "sql_scan (c\<lparr>conn_db := Some ?db\<rparr>) = (sql_scan c)(n := None)"
    by (auto simp: fun_eq_iff sql_scan_def db getPatternsStmt_def filter_owner_other simp del: filter_filter)
  ultimately show ?case using sql_healthy_upd[OF 3] by blast
next
  case (4 c)
  then obtain db where db: "conn_net c = []" "orders_ok c" "conn_db c = Some db" "db_wf db" by (elim sql_healthyE)
  then show ?case
    using names_law[OF db(2), of "tbl_scan db"]
    by (auto simp: as_query_def sql_GetScanNames_def served sql_scan_def db_wf_def dom_def)
qed

interpretation sql_histograms: named_store "\<lambda>x. as_update (sql_PutHistogram x)" "\<lambda>c n. as_query (sql_GetHistogram n) c"
  "\<lambda>n. as_update (sql_DeleteHistogram n)" "as_query sql_GetHistogramNames" hist_Name sql_healthy "\<lambda>_. True"
  hist_shown sql_hist
proof (unfold_locales, goal_cases)
  case (1 c n)
  then show ?case
    by (elim sql_healthyE) (auto simp: as_query_def sql_GetHistogram_def served sql_hist_def)
next
  case (2 c x)
  then obtain db where db: "conn_net c = []" "orders_ok c" "conn_db c = Some db" "db_wf db" by (elim sql_healthyE)
  obtain db' where db': "upsertHistogramStmt (hist_Name x) (hist_Regex x) (hist_Bins x) (hist_Start x) (hist_End x) (conn_now c) db = Inr db'"
    by (simp add: upsertHistogramStmt_def)
  have "db_wf db'" using db' db(4) by (auto simp: upsertHistogramStmt_def db_wf_def)
  moreover have "sql_hist (c\<lparr>conn_db := Some db'\<rparr>) = (sql_hist c)(hist_Name x \<mapsto> hist_shown c x)"
    using db' by (auto simp: fun_eq_iff sql_hist_def hist_shown_def upsertHistogramStmt_def db split: option.splits)
  moreover have "as_update (sql_PutHistogram x) c = Inr (c\<lparr>conn_db := Some db'\<rparr>)"
    using db db' by (simp add: as_update_def sql_PutHistogram_def conn_Exec_def on_schema_def)
  ultimately show ?case using sql_healthy_upd[OF 2(1)] by blast
next
  case (3 c n)
  then obtain db where db: "conn_net c = []" "orders_ok c" "conn_db c = Some db" "db_wf db" by (elim sql_healthyE)
  let ?db = "db\<lparr>tbl_histogram := AList.delete n (tbl_histogram db)\<rparr>"
  have "as_update (sql_DeleteHistogram n) c = Inr (c\<lparr>conn_db := Some ?db\<rparr>)"
    using db by (simp add: as_update_def sql_DeleteHistogram_def conn_Exec_def on_schema_def deleteHistogramStmt_def)
  moreover have "db_wf ?db" using db(4) by (auto simp: db_wf_def)
  moreover have "sql_hist (c\<lparr>conn_db := Some ?db\<rparr>) = (sql_hist c)(n := None)"
    by (auto simp: fun_eq_iff sql_hist_def db)
  ultimately show ?case using sql_healthy_upd[OF 3] by blast
next
  case (4 c)
  then obtain db where db: "conn_net c = []" "orders_ok c" "conn_db c = Some db" "db_wf db" by (elim sql_healthyE)
  then show ?case
    using names_law[OF db(2), of "tbl_histogram db"]
    by (auto simp: as_query_def sql_GetHistogramNames_def served sql_hist_def db_wf_def dom_def)
qed

section \<open>The node table\<close>

definition sql_node_reg :: "conn \<Rightarrow> int \<Rightarrow> NodeInfo option" where
  "sql_node_reg c = map_of (tbl_node (the (conn_db c)))"

text \<open>Rows carry their key, and \<^verbatim>\<open>unique_rowid()\<close> has not handed out a value it will hand out again.\<close>

definition sql_nodes_ok :: "conn \<Rightarrow> bool" where
  "sql_nodes_ok c = (sql_healthy c \<and> (\<forall>(i, n) \<in> set (tbl_node (the (conn_db c))). node_ID n = i)
     \<and> inj (conn_rowid c) \<and> (\<forall>k \<ge> conn_ticks c. sql_node_reg c (conn_rowid c k) = None))"

definition sql_visible :: "conn \<Rightarrow> NodeInfo \<Rightarrow> bool" where
  "sql_visible c n = (conn_now c - fresh_window < node_Updated n)"

lemma sql_nodes_okE:
  assumes "sql_nodes_ok c"
  obtains db where "conn_net c = []" "conn_db c = Some db" "db_wf db" "sql_healthy c"
    "\<And>i n. map_of (tbl_node db) i = Some n \<Longrightarrow> node_ID n = i"
    "inj (conn_rowid c)" "\<And>k. conn_ticks c \<le> k \<Longrightarrow> map_of (tbl_node db) (conn_rowid c k) = None"
  using assms map_of_SomeD by (fastforce simp: sql_nodes_ok_def sql_node_reg_def elim: sql_healthyE)

lemma sql_nodes_okI:
  assumes "sql_healthy c" "conn_db c = Some db" "\<And>i n. map_of (tbl_node db) i = Some n \<Longrightarrow> node_ID n = i"
    "inj (conn_rowid c)" "\<And>k. conn_ticks c \<le> k \<Longrightarrow> map_of (tbl_node db) (conn_rowid c k) = None"
  shows "sql_nodes_ok c"
proof -
  have "wf_map (tbl_node db)" using assms(1,2) by (auto simp: sql_healthy_def db_wf_def)
  then show ?thesis using assms by (auto simp: sql_nodes_ok_def sql_node_reg_def simp flip: wf_map_in_set)
qed

lemma map_of_map_beat:
  "map_of (map (\<lambda>(k, n). (k, if k = i then beat t n else n)) m) = (map_of m)(i := map_option (beat t) (map_of m i))"
  by (induction m) (auto simp: fun_eq_iff)

lemma wf_map_map_beat: "wf_map (map (\<lambda>(k, n). (k, if k = i then beat t n else n)) m) = wf_map m"
  by (simp add: wf_map_def keys_def comp_def case_prod_unfold)

lemma sql_register_law:
  assumes "sql_nodes_ok c"
  shows "\<exists>i c'. as_insert (sql_RegisterNode h p v) c = Inr (i, c') \<and> sql_nodes_ok c' \<and> conn_now c' = conn_now c
    \<and> sql_node_reg c i = None
    \<and> sql_node_reg c' = (sql_node_reg c)(i \<mapsto>
        \<lparr>node_ID = i, node_Hostname = h, node_PID = p, node_Version = v, node_Updated = conn_now c\<rparr>)"
proof -
  obtain db where db: "conn_net c = []" "conn_db c = Some db" "db_wf db" "sql_healthy c"
    "\<And>i n. map_of (tbl_node db) i = Some n \<Longrightarrow> node_ID n = i"
    "inj (conn_rowid c)" "\<And>k. conn_ticks c \<le> k \<Longrightarrow> map_of (tbl_node db) (conn_rowid c k) = None"
    using sql_nodes_okE[OF assms] by blast
  let ?i = "conn_rowid c (conn_ticks c)"
  let ?n = "\<lparr>node_ID = ?i, node_Hostname = h, node_PID = p, node_Version = v, node_Updated = conn_now c\<rparr>"
  let ?db = "db\<lparr>tbl_node := (?i, ?n) # tbl_node db\<rparr>"
  let ?c = "c\<lparr>conn_ticks := Suc (conn_ticks c), conn_db := Some ?db\<rparr>"
  have free: "map_of (tbl_node db) ?i = None" by (rule db(7)) simp
  have "sql_healthy ?c" using db(3,4) free by (auto simp: sql_healthy_def orders_ok_def db_wf_def)
  then have "sql_nodes_ok ?c"
    by (rule sql_nodes_okI) (use db in \<open>auto simp: inj_eq split: if_splits\<close>)
  moreover have "as_insert (sql_RegisterNode h p v) c = Inr (?i, ?c)"
    using db free
    by (simp add: as_insert_def sql_RegisterNode_def Let_def conn_Exec_def on_schema_def registerNodeStmt_def op_bind_def)
  ultimately show ?thesis using free db(2) by (auto simp: sql_node_reg_def)
qed

lemma sql_heartbeat_law:
  assumes "sql_nodes_ok c"
  shows "\<exists>c'. as_update (sql_Heartbeat i) c = Inr c' \<and> sql_nodes_ok c' \<and> conn_now c' = conn_now c
    \<and> sql_node_reg c' = (sql_node_reg c)(i := map_option (beat (conn_now c)) (sql_node_reg c i))"
proof -
  obtain db where db: "conn_net c = []" "conn_db c = Some db" "db_wf db" "sql_healthy c"
    "\<And>i n. map_of (tbl_node db) i = Some n \<Longrightarrow> node_ID n = i"
    "inj (conn_rowid c)" "\<And>k. conn_ticks c \<le> k \<Longrightarrow> map_of (tbl_node db) (conn_rowid c k) = None"
    using sql_nodes_okE[OF assms] by blast
  let ?db = "db\<lparr>tbl_node := map (\<lambda>(k, n). (k, if k = i then beat (conn_now c) n else n)) (tbl_node db)\<rparr>"
  have "db_wf ?db" using db(3) by (simp add: db_wf_def wf_map_map_beat)
  then have "sql_nodes_ok (c\<lparr>conn_db := Some ?db\<rparr>)"
    by (intro sql_nodes_okI[where db = ?db] sql_healthy_upd)
       (use db in \<open>auto simp: map_of_map_beat beat_def split: if_splits\<close>)
  moreover have "as_update (sql_Heartbeat i) c = Inr (c\<lparr>conn_db := Some ?db\<rparr>)"
    using db by (simp add: as_update_def sql_Heartbeat_def conn_Exec_def on_schema_def heartbeatNodeStmt_def)
  ultimately show ?thesis using db(2) by (simp add: sql_node_reg_def map_of_map_beat)
qed

lemma sql_delete_node_law:
  assumes "sql_nodes_ok c"
  shows "\<exists>c'. as_update (sql_DeleteNode i) c = Inr c' \<and> sql_nodes_ok c' \<and> conn_now c' = conn_now c
    \<and> sql_node_reg c' = (sql_node_reg c)(i := None)"
proof -
  obtain db where db: "conn_net c = []" "conn_db c = Some db" "db_wf db" "sql_healthy c"
    "\<And>i n. map_of (tbl_node db) i = Some n \<Longrightarrow> node_ID n = i"
    "inj (conn_rowid c)" "\<And>k. conn_ticks c \<le> k \<Longrightarrow> map_of (tbl_node db) (conn_rowid c k) = None"
    using sql_nodes_okE[OF assms] by blast
  let ?db = "db\<lparr>tbl_node := AList.delete i (tbl_node db)\<rparr>"
  have "db_wf ?db" using db(3) by (auto simp: db_wf_def)
  then have "sql_nodes_ok (c\<lparr>conn_db := Some ?db\<rparr>)"
    by (intro sql_nodes_okI[where db = ?db] sql_healthy_upd) (use db in \<open>auto split: if_splits\<close>)
  moreover have "as_update (sql_DeleteNode i) c = Inr (c\<lparr>conn_db := Some ?db\<rparr>)"
    using db by (simp add: as_update_def sql_DeleteNode_def conn_Exec_def on_schema_def deleteNodeStmt_def)
  ultimately show ?thesis using db(2) by (simp add: sql_node_reg_def)
qed

lemma sql_nodes_law:
  assumes "sql_nodes_ok c"
  shows "\<exists>ns. as_query sql_GetNodes c = Inr ns \<and> distinct (map node_ID ns)
    \<and> sorted_wrt (\<lambda>a b. node_Updated b \<le> node_Updated a) ns
    \<and> set ns = {n. sql_visible c n \<and> (\<exists>i. sql_node_reg c i = Some n)}"
proof -
  obtain db where db: "conn_net c = []" "conn_db c = Some db" "db_wf db" "sql_healthy c"
    "\<And>i n. map_of (tbl_node db) i = Some n \<Longrightarrow> node_ID n = i"
    "inj (conn_rowid c)" "\<And>k. conn_ticks c \<le> k \<Longrightarrow> map_of (tbl_node db) (conn_rowid c k) = None"
    using sql_nodes_okE[OF assms] by blast
  have wf: "wf_map (tbl_node db)" using db(3) by (simp add: db_wf_def)
  have "map node_ID (map snd (tbl_node db)) = keys (tbl_node db)"
    using wf db(5) by (auto simp: keys_def simp flip: wf_map_in_set)
  then have "distinct (map node_ID (map snd (tbl_node db)))" using wf by (simp add: wf_map_def)
  then have "distinct (map node_ID (listNodesStmt (conn_now c) db))"
    unfolding listNodesStmt_def distinct_map_sort_key by (rule distinct_map_filter)
  moreover have "set (listNodesStmt (conn_now c) db) = {n. sql_visible c n \<and> (\<exists>i. map_of (tbl_node db) i = Some n)}"
    using wf by (force simp: listNodesStmt_def sql_visible_def wf_map_in_set[symmetric])
  ultimately show ?thesis
    by (simp add: as_query_def sql_GetNodes_def served db sql_node_reg_def) (simp add: listNodesStmt_def sort_key_desc)
qed

interpretation sql_nodes: node_registry "\<lambda>h p v. as_insert (sql_RegisterNode h p v)" "\<lambda>i. as_update (sql_Heartbeat i)"
  "\<lambda>i. as_update (sql_DeleteNode i)" "as_query sql_GetNodes" sql_nodes_ok "\<lambda>_. True" conn_now sql_visible sql_node_reg
proof unfold_locales
  fix c i n assume "sql_nodes_ok c" "sql_node_reg c i = Some n"
  then show "node_ID n = i" by (auto elim!: sql_nodes_okE simp: sql_node_reg_def)
qed (use sql_register_law sql_heartbeat_law sql_delete_node_law sql_nodes_law in
      \<open>simp_all add: sql_visible_def fresh_window_def\<close>)

section \<open>Properties\<close>

lemma run_insertMetrics_inv:
  "run_stmts now (map (insertMetricStmt n) ms) (Some db) = Inr d \<Longrightarrow>
    (\<forall>m \<in> set ms. metric_Kind m \<in> {Counter, Gauge} \<and> map_of (tbl_metric db) (n, metric_Name m) = None)
    \<and> distinct (map metric_Name ms)"
proof (induction ms arbitrary: db)
  case (Cons m ms)
  let ?db = "db\<lparr>tbl_metric := ((n, metric_Name m), (metric_Kind m, metric_Help m)) # tbl_metric db\<rparr>"
  have ins: "insertMetricStmt n m now db = Inr ?db" "metric_Kind m \<in> {Counter, Gauge}"
      "map_of (tbl_metric db) (n, metric_Name m) = None"
    using Cons.prems by (cases "map_of (tbl_metric db) (n, metric_Name m)";
      auto simp: on_schema_def insertMetricStmt_def split: if_splits)+
  then have "run_stmts now (map (insertMetricStmt n) ms) (Some ?db) = Inr d"
    using Cons.prems by (simp add: on_schema_def)
  from Cons.IH[OF this] ins(2,3) show ?case by (auto split: if_splits simp del: not_None_eq split_paired_All)
qed simp

lemma run_put_coll_inv:
  assumes "run_stmts now ([deleteMetricsStmt (coll_Name x), upsertCollectionStmt x]
      @ map (insertMetricStmt (coll_Name x)) (coll_Metrics x)) (Some db) = Inr d"
  shows "coll_storable x"
proof -
  have "coll_Scope x \<in> {Cluster, Node}"
    using assms by (auto simp: on_schema_def deleteMetricsStmt_def upsertCollectionStmt_def split: if_splits)
  with assms obtain db' where "run_stmts now (map (insertMetricStmt (coll_Name x)) (coll_Metrics x)) (Some db') = Inr d"
    by (auto simp: on_schema_def deleteMetricsStmt_def upsertCollectionStmt_def split: if_splits)
  from run_insertMetrics_inv[OF this] \<open>coll_Scope x \<in> {Cluster, Node}\<close>
  show ?thesis by (auto simp: coll_storable_def)
qed

lemma put_coll_db_other:
  "tbl_histogram (put_coll_db now x db) = tbl_histogram db" "tbl_scan (put_coll_db now x db) = tbl_scan db"
  "tbl_pattern (put_coll_db now x db) = tbl_pattern db" "tbl_node (put_coll_db now x db) = tbl_node db"
  by (simp_all add: put_coll_db_def)

text \<open>
  C4: \<^verbatim>\<open>PutCollection\<close> is atomic under every pattern of network failures: afterwards the
  database is either exactly what it was, and then the call has returned an error, or it holds
  the whole new configuration under its name and everything else as before; a collection the
  schema does not accept (an unknown scope or kind, a metric name used twice) is never stored,
  not even in part.
\<close>

theorem sql_PutCollection_atomic:
  assumes "conn_db c = Some db" "sql_PutCollection x c = (r, c')"
  shows "(conn_db c' = conn_db c \<and> r \<noteq> Inr ())
    \<or> (coll_storable x \<and> sql_coll c' = (sql_coll c)(coll_Name x \<mapsto> coll_shown c x)
       \<and> sql_hist c' = sql_hist c \<and> sql_scan c' = sql_scan c \<and> sql_node_reg c' = sql_node_reg c)"
proof -
  let ?sts = "[deleteMetricsStmt (coll_Name x), upsertCollectionStmt x] @ map (insertMetricStmt (coll_Name x)) (coll_Metrics x)"
  obtain d os where fr: "c' = c\<lparr>conn_db := d, conn_net := os\<rparr>"
      "d = conn_db c \<or> run_stmts (conn_now c) ?sts (Some db) = Inr d"
      "r = Inr () \<longrightarrow> run_stmts (conn_now c) ?sts (Some db) = Inr d"
    using in_txn_frame[OF assms(2)[unfolded sql_PutCollection_def]] assms(1) by metis
  show ?thesis
  proof (cases "run_stmts (conn_now c) ?sts (Some db) = Inr d")
    case False
    then show ?thesis using fr by auto
  next
    case True
    then have st: "coll_storable x" by (rule run_put_coll_inv)
    then have d: "d = Some (put_coll_db (conn_now c) x db)" using run_put_coll[OF st] True by simp
    have "sql_coll c' = sql_coll (c\<lparr>conn_db := d\<rparr>)" by (auto simp: fr(1) sql_coll_def)
    then have "sql_coll c' = (sql_coll c)(coll_Name x \<mapsto> coll_shown c x)"
      using sql_coll_put[OF assms(1)] by (simp add: d)
    moreover have "sql_hist c' = sql_hist c" "sql_scan c' = sql_scan c" "sql_node_reg c' = sql_node_reg c"
      by (auto simp: fun_eq_iff fr(1) d sql_hist_def sql_scan_def sql_node_reg_def assms(1) put_coll_db_other
          getPatternsStmt_def)
    ultimately show ?thesis using st by blast
  qed
qed

definition ex_conn :: conn where
  "ex_conn = \<lparr>conn_db = Some empty_db, conn_net = [], conn_now = 100, conn_rowid = int, conn_ticks = 0,
     conn_name_order = (\<lambda>xs. xs), conn_metric_order = rev, conn_pattern_order = rev\<rparr>"

definition ex_gauges :: Collection where
  "ex_gauges = \<lparr>coll_Databases = [], coll_Enabled = True, coll_Frequency = \<lparr>Microseconds = 10000000, Days = 0, Months = 0\<rparr>,
     coll_Labels = [''db''], coll_LastModified = 0, coll_MaxResult = 10,
     coll_Metrics = [\<lparr>metric_Name = ''qps'', metric_Kind = Gauge, metric_Help = ''h''\<rparr>,
                     \<lparr>metric_Name = ''cpu'', metric_Kind = Counter, metric_Help = ''h''\<rparr>],
     coll_Name = ''c1'', coll_Query = ''q'', coll_Scope = Cluster\<rparr>"

lemma ex_conn_ok: "sql_nodes_ok ex_conn" "sql_healthy ex_conn"
  by (simp_all add: ex_conn_def sql_nodes_ok_def sql_healthy_def orders_ok_def empty_db_def db_wf_def sql_node_reg_def)

lemma ex_gauges_ok: "coll_storable ex_gauges" "coll_Name ex_gauges = ''c1''"
  by (simp_all add: ex_gauges_def coll_storable_def Gauge_def Counter_def Cluster_def Node_def)

text \<open>The connection is lost in the acknowledgement of the commit: an error, with the effect.\<close>

theorem sql_PutCollection_atomic_witness:
  "fst (sql_PutCollection ex_gauges (ex_conn\<lparr>conn_net := [Served, Served, Served, Served, Served, Lost ''eof'' 0]\<rparr>)) = Inl (Err ''eof'')
   \<and> sql_coll (snd (sql_PutCollection ex_gauges (ex_conn\<lparr>conn_net := [Served, Served, Served, Served, Served, Lost ''eof'' 0]\<rparr>))) ''c1'' \<noteq> None"
proof -
  let ?c = "ex_conn\<lparr>conn_net := [Served, Served, Served, Served, Served, Lost ''eof'' 0]\<rparr>"
  let ?p = "sql_PutCollection ex_gauges ?c"
  have e: "fst ?p = Inl (Err ''eof'')" "conn_db (snd ?p) \<noteq> conn_db ?c"
    by (simp_all add: ex_conn_def ex_gauges_def empty_db_def sql_PutCollection_def in_txn_def take_net_def
        on_schema_def deleteMetricsStmt_def upsertCollectionStmt_def insertMetricStmt_def txn_Commit_def
        Cluster_def Node_def Counter_def Gauge_def)
  have "conn_db ?c = Some empty_db" by (simp add: ex_conn_def)
  from sql_PutCollection_atomic[OF this, of ex_gauges "fst ?p" "snd ?p"] e(2)
  have "sql_coll (snd ?p) = (sql_coll ?c)(coll_Name ex_gauges \<mapsto> coll_shown ?c ex_gauges)" by auto
  then show ?thesis using e(1) by (simp add: ex_gauges_ok)
qed

text \<open>
  C8: on a healthy database, a collection the schema accepts is stored by \<^verbatim>\<open>PutCollection\<close>, and
  \<^verbatim>\<open>GetCollection\<close> returns it with every field as given, the same metrics in some order, and the
  time of the update; every other collection is returned as before.
\<close>

theorem sql_collection_roundtrip:
  assumes "sql_healthy c" "coll_storable x"
  shows "\<exists>c' ms. sql_PutCollection x c = (Inr (), c') \<and> mset ms = mset (coll_Metrics x)
    \<and> fst (sql_GetCollection (coll_Name x) c') = Inr (Some (x\<lparr>coll_LastModified := conn_now c, coll_Metrics := ms\<rparr>))
    \<and> (\<forall>n. n \<noteq> coll_Name x \<longrightarrow> fst (sql_GetCollection n c') = fst (sql_GetCollection n c))"
proof -
  obtain c' where c': "as_update (sql_PutCollection x) c = Inr c'" "sql_healthy c'"
      "sql_coll c' = (sql_coll c)(coll_Name x \<mapsto> coll_shown c x)"
    using sql_collections.put_content[OF assms] by blast
  then have "sql_PutCollection x c = (Inr (), c')"
    by (auto simp: as_update_def split: prod.splits sum.splits)
  moreover have "fst (sql_GetCollection n c') = Inr (sql_coll c' n)" "fst (sql_GetCollection n c) = Inr (sql_coll c n)" for n
    using sql_collections.get_content[OF c'(2)] sql_collections.get_content[OF assms(1)] by (simp_all add: as_query_def)
  moreover have "mset (conn_metric_order c (rev (coll_Metrics x))) = mset (coll_Metrics x)"
    using assms(1) by (simp add: sql_healthy_def orders_ok_def)
  ultimately show ?thesis
    by (intro exI[of _ c'] exI[of _ "conn_metric_order c (rev (coll_Metrics x))"]) (simp add: c'(3) coll_shown_def)
qed

theorem sql_collection_roundtrip_witness:
  "\<exists>c' ms. sql_PutCollection ex_gauges ex_conn = (Inr (), c') \<and> mset ms = mset (coll_Metrics ex_gauges)
    \<and> fst (sql_GetCollection ''c1'' c') = Inr (Some (ex_gauges\<lparr>coll_LastModified := 100, coll_Metrics := ms\<rparr>))"
  using sql_collection_roundtrip[OF ex_conn_ok(2) ex_gauges_ok(1)] by (auto simp: ex_gauges_ok(2) ex_conn_def)

text \<open>
  C25: \<^verbatim>\<open>PutHistogram\<close> does not store the \<^verbatim>\<open>Enabled\<close> flag: whatever flag a new definition
  carries, it is read back as enabled, and a definition that replaces another one keeps the old
  flag and the old modification time.
\<close>

theorem sql_PutHistogram_ignores_enabled:
  assumes "sql_healthy c"
  shows "\<exists>c'. sql_PutHistogram h c = (Inr (), c')
    \<and> fst (sql_GetHistogram (hist_Name h) c') = Inr (Some (case sql_hist c (hist_Name h) of
          None \<Rightarrow> h\<lparr>hist_Enabled := True, hist_LastModified := conn_now c\<rparr>
        | Some old \<Rightarrow> h\<lparr>hist_Enabled := hist_Enabled old, hist_LastModified := hist_LastModified old\<rparr>))"
proof -
  obtain c' where c': "as_update (sql_PutHistogram h) c = Inr c'" "sql_healthy c'"
      "sql_hist c' = (sql_hist c)(hist_Name h \<mapsto> hist_shown c h)"
    using sql_histograms.put_content[OF assms] by blast
  then have "sql_PutHistogram h c = (Inr (), c')"
    by (auto simp: as_update_def split: prod.splits sum.splits)
  moreover have "fst (sql_GetHistogram n c') = Inr (sql_hist c' n)" for n
    using sql_histograms.get_content[OF c'(2)] by (simp add: as_query_def)
  ultimately show ?thesis by (auto simp: c'(3) hist_shown_def)
qed

definition ex_off :: Histogram where
  "ex_off = \<lparr>hist_Enabled = False, hist_Name = ''h1'', hist_Bins = 10, hist_Start = 1, hist_End = 100,
     hist_Regex = ''.*'', hist_LastModified = 0\<rparr>"

theorem sql_PutHistogram_ignores_enabled_witness:
  "\<exists>c' h. sql_PutHistogram ex_off ex_conn = (Inr (), c') \<and> \<not> hist_Enabled ex_off
    \<and> fst (sql_GetHistogram ''h1'' c') = Inr (Some h) \<and> hist_Enabled h"
proof -
  have "sql_hist ex_conn ''h1'' = None" by (simp add: sql_hist_def ex_conn_def empty_db_def)
  then show ?thesis
    using sql_PutHistogram_ignores_enabled[OF ex_conn_ok(2), of ex_off] by (auto simp: ex_off_def)
qed

text \<open>
  C23: when the connection breaks while the rows of a listing are delivered,
  \<^verbatim>\<open>GetCollectionNames\<close>, \<^verbatim>\<open>GetHistogramNames\<close> and \<^verbatim>\<open>GetScanNames\<close> report success with the rows
  delivered so far, because they do not ask for \<^verbatim>\<open>rows.Err()\<close>; \<^verbatim>\<open>GetNodes\<close> reports the error.
\<close>

theorem sql_listing_truncated:
  assumes "conn_db c = Some db" "conn_net c = Lost e k # os"
  shows "fst (sql_GetCollectionNames c) = Inr (take k (conn_name_order c (keys (tbl_collection db))))
    \<and> fst (sql_GetHistogramNames c) = Inr (take k (conn_name_order c (keys (tbl_histogram db))))
    \<and> fst (sql_GetScanNames c) = Inr (take k (conn_name_order c (keys (tbl_scan db))))
    \<and> fst (sql_GetNodes c) = Inl (Err e)"
  using assms
  by (simp add: sql_GetCollectionNames_def sql_GetHistogramNames_def sql_GetScanNames_def sql_GetNodes_def
      op_bind_def conn_Query_def take_net_def on_schema_def rows_loop_def CollectRows_def)

theorem sql_listing_truncated_witness:
  "fst (sql_GetCollectionNames (ex_conn\<lparr>conn_net := [Lost ''eof'' 0],
      conn_db := Some (put_coll_db 0 ex_gauges empty_db)\<rparr>)) = Inr []"
  using sql_listing_truncated[of "ex_conn\<lparr>conn_net := [Lost ''eof'' 0], conn_db := Some (put_coll_db 0 ex_gauges empty_db)\<rparr>"
      "put_coll_db 0 ex_gauges empty_db" "''eof''" 0 "[]"] by simp

text \<open>
  A registered node is listed under an identifier no other row has, a node that sends a
  heartbeat is listed with the time of the heartbeat, and a deleted node is not listed.
\<close>

theorem sql_node_lifecycle:
  assumes "sql_nodes_ok c"
  shows "(\<exists>i c' ns. as_insert (sql_RegisterNode h p v) c = Inr (i, c') \<and> fst (sql_GetNodes c') = Inr ns
        \<and> sql_node_reg c i = None
        \<and> \<lparr>node_ID = i, node_Hostname = h, node_PID = p, node_Version = v, node_Updated = conn_now c\<rparr> \<in> set ns)
    \<and> (\<forall>i n. sql_node_reg c i = Some n \<longrightarrow> (\<exists>c' ns. as_update (sql_Heartbeat i) c = Inr c'
        \<and> fst (sql_GetNodes c') = Inr ns \<and> n\<lparr>node_Updated := conn_now c\<rparr> \<in> set ns))
    \<and> (\<forall>i. \<exists>c' ns. as_update (sql_DeleteNode i) c = Inr c' \<and> fst (sql_GetNodes c') = Inr ns \<and> i \<notin> node_ID ` set ns)"
proof (intro conjI allI impI)
  show "\<exists>i c' ns. as_insert (sql_RegisterNode h p v) c = Inr (i, c') \<and> fst (sql_GetNodes c') = Inr ns
      \<and> sql_node_reg c i = None
      \<and> \<lparr>node_ID = i, node_Hostname = h, node_PID = p, node_Version = v, node_Updated = conn_now c\<rparr> \<in> set ns"
    using sql_nodes.register_listed[OF assms TrueI] by (simp add: as_query_def domIff)
next
  fix i n assume "sql_node_reg c i = Some n"
  from sql_nodes.heartbeat_listed[OF assms this]
  show "\<exists>c' ns. as_update (sql_Heartbeat i) c = Inr c' \<and> fst (sql_GetNodes c') = Inr ns \<and> n\<lparr>node_Updated := conn_now c\<rparr> \<in> set ns"
    by (simp add: as_query_def beat_def)
next
  fix i
  show "\<exists>c' ns. as_update (sql_DeleteNode i) c = Inr c' \<and> fst (sql_GetNodes c') = Inr ns \<and> i \<notin> node_ID ` set ns"
    using sql_nodes.delete_not_listed[OF assms] by (simp add: as_query_def)
qed

theorem sql_node_lifecycle_witness:
  "\<exists>i c' ns. as_insert (sql_RegisterNode ''a'' 1 ''v'') ex_conn = Inr (i, c') \<and> fst (sql_GetNodes c') = Inr ns \<and> ns \<noteq> []"
  using sql_node_lifecycle[OF ex_conn_ok(1), of "''a''" 1 "''v''"] by fastforce

text \<open>
  The expiry job of the node table never changes what \<^verbatim>\<open>GetNodes\<close> lists, as the comment in
  \<^verbatim>\<open>ddl.sql\<close> intends.
\<close>

theorem ttl_job_invisible:
  "\<exists>db'. ttl_job now db = Inr db' \<and> listNodesStmt now db' = listNodesStmt now db"
proof -
  have "filter (\<lambda>n. now - fresh_window < node_Updated n) (map snd (filter (\<lambda>(k, n). now < node_Updated n + ttl_window) t))
      = filter (\<lambda>n. now - fresh_window < node_Updated n) (map snd t)" for t :: "(int, NodeInfo) gomap"
    by (induction t) (auto simp: fresh_window_def ttl_window_def)
  then show ?thesis by (simp add: ttl_job_def listNodesStmt_def)
qed

end
