(* ===== verification/Collector_Server.thy ===== *)
theory Collector_Server
  imports Server_Model Collector_Registration Store_Memory Store_Sql
begin

text \<open>
  The collector server, \<^verbatim>\<open>internal/collector/server.go\<close>: it keeps one scheduled job for every
  collection that is enabled and that this node has to run, and follows the lease for the
  collections that run on one node only.  Collectors are objects shared by the table of jobs and
  by the tasks of the scheduler, so both refer to them by their position in \<open>s_collectors\<close>.
\<close>

section \<open>State\<close>

record scheduledJob =
  sj_collector :: nat
  sj_job :: nat

text \<open>The vectors \<^verbatim>\<open>collectorCounts\<close>, \<^verbatim>\<open>collectorErrors\<close>, \<^verbatim>\<open>collectorLatency\<close>, \<^verbatim>\<open>collectorLastSuccess\<close>.\<close>

record collector_metrics =
  collectorCounts :: tally
  collectorErrors :: tally
  collectorLatency :: "(string, int list) gomap"
  collectorLastSuccess :: "(string, time) gomap"

record ('v, 'r, 'c, 'q) serverImpl =
  s_config :: Config
  s_world :: "('v, 'r) world"
  s_collectors :: "'c collector list"
  s_scheduler :: "'q option"
  s_leaseHolder :: bool
  s_scheduledJobs :: "(string, scheduledJob) gomap"
  s_stopped :: bool
  s_metrics :: collector_metrics
  s_refresh :: refresh_metrics

text \<open>The libraries, the scheduler and the store the server is built with.\<close>

record ('v, 'r, 'c, 'q, 'st) deps =
  d_libs :: "('v, 'r, 'c) libs"
  d_sched :: "'q sched_api"
  d_store :: "('st, Collection) conf_store"

section \<open>Construction\<close>

definition collectorMetrics :: "own_collector list" where
  "collectorMetrics = [OwnCollectorCounts, OwnCollectorErrors, OwnCollectorLatency, OwnCollectorLastSuccess]"

definition coll_New :: "'r register \<Rightarrow> Config \<Rightarrow> 'q option \<Rightarrow> ('v, 'r) world \<Rightarrow> ('v, 'r, 'c, 'q) serverImpl result" where
  "coll_New reg cfg sched w =
    (case (if cfg_VisusMetrics cfg then register_each reg (collectorMetrics @ [GoCollector]) (w_reg w) else (Inr (), w_reg w)) of
       (Inl e, _) \<Rightarrow> Inl e
     | (Inr _, r) \<Rightarrow>
        (let r' = (if cfg_ProcMetrics cfg then (case reg ProcessCollector r of Inl _ \<Rightarrow> r | Inr r' \<Rightarrow> r') else r)
         in Inr \<lparr>s_config = cfg, s_world = w\<lparr>w_reg := r'\<rparr>, s_collectors = [], s_scheduler = sched,
                s_leaseHolder = False, s_scheduledJobs = [], s_stopped = True,
                s_metrics = \<lparr>collectorCounts = [], collectorErrors = [], collectorLatency = [], collectorLastSuccess = []\<rparr>,
                s_refresh = \<lparr>RefreshCounts = [], RefreshErrors = []\<rparr>\<rparr>))"

section \<open>Jobs\<close>

definition isLeaseHolder :: "('v, 'r, 'c, 'q) serverImpl \<Rightarrow> bool" where
  "isLeaseHolder s = s_leaseHolder s"

definition setLeaseHolder :: "bool \<Rightarrow> ('v, 'r, 'c, 'q) serverImpl \<Rightarrow> ('v, 'r, 'c, 'q) serverImpl" where
  "setLeaseHolder b s = s\<lparr>s_leaseHolder := b\<rparr>"

definition lockedAddJob :: "string \<Rightarrow> nat \<Rightarrow> nat \<Rightarrow> ('v, 'r, 'c, 'q) serverImpl \<Rightarrow> ('v, 'r, 'c, 'q) serverImpl" where
  "lockedAddJob name i j s =
     s\<lparr>s_scheduledJobs := AList.update name \<lparr>sj_collector = i, sj_job = j\<rparr> (s_scheduledJobs s)\<rparr>"

definition lockedGetJob :: "string \<Rightarrow> ('v, 'r, 'c, 'q) serverImpl \<Rightarrow> scheduledJob option" where
  "lockedGetJob name s = map_of (s_scheduledJobs s) name"

definition removeJob :: "('v, 'r, 'c, 'q, 'st) deps \<Rightarrow> nat \<Rightarrow> (('v, 'r, 'c, 'q) serverImpl, unit) op" where
  "removeJob D j s = (case s_scheduler s of
      None \<Rightarrow> (Inl (Panic NilDereference), s)
    | Some q \<Rightarrow> (Inr (), s\<lparr>s_scheduler := Some (sch_Remove (d_sched D) j q)\<rparr>))"

definition cleanup_job :: "('v, 'r, 'c, 'q, 'st) deps \<Rightarrow> string set \<Rightarrow> string \<times> scheduledJob
    \<Rightarrow> (('v, 'r, 'c, 'q) serverImpl, unit) op" where
  "cleanup_job D keep = (\<lambda>(key, sj) s.
     if key \<in> keep then (Inr (), s)
     else op_bind (removeJob D (sj_job sj))
       (\<lambda>_ s. (Inr (), s\<lparr>s_world := Unregister (d_libs D) (s_collectors s ! sj_collector sj) (s_world s),
                        s_scheduledJobs := AList.delete key (s_scheduledJobs s)\<rparr>)) s)"

definition lockedCleanupJobs :: "('v, 'r, 'c, 'q, 'st) deps \<Rightarrow> string set \<Rightarrow> (('v, 'r, 'c, 'q) serverImpl, unit) op" where
  "lockedCleanupJobs D keep s = for_each (cleanup_job D keep) (s_scheduledJobs s) s"

section \<open>Refresh\<close>

text \<open>
  The end of the loop body: the collector is built and its job is added.  Errors are logged, and
  the loop goes on.
\<close>

definition schedule :: "('v, 'r, 'c, 'q, 'st) deps \<Rightarrow> Collection \<Rightarrow> (('v, 'r, 'c, 'q) serverImpl, unit) op" where
  "schedule D coll s =
    (case FromCollection (d_libs D) coll (s_world s) of
       (Inl (Panic p), w) \<Rightarrow> (Inl (Panic p), s\<lparr>s_world := w\<rparr>)
     | (Inl (Err e), w) \<Rightarrow> (Inr (), s\<lparr>s_world := w\<rparr>)
     | (Inr c, w) \<Rightarrow>
        (let i = length (s_collectors s); s1 = s\<lparr>s_world := w, s_collectors := s_collectors s @ [c]\<rparr>
         in (case s_scheduler s1 of
               None \<Rightarrow> (Inl (Panic NilDereference), s1)
             | Some q \<Rightarrow>
                (case sch_Do (d_sched D) (Seconds (GetFrequency c)) (CollectTask i) q of
                   (Inl e, q') \<Rightarrow> (Inr (), s1\<lparr>s_scheduler := Some q'\<rparr>)
                 | (Inr j, q') \<Rightarrow> (Inr (), lockedAddJob (coll_Name coll) i j (s1\<lparr>s_scheduler := Some q'\<rparr>))))))"

text \<open>A collection this node has to run.\<close>

definition eligible :: "bool \<Rightarrow> Collection \<Rightarrow> bool" where
  "eligible holder coll = (\<not> (\<not> coll_Enabled coll \<or> (coll_Scope coll = Cluster \<and> \<not> holder)))"

definition reschedule :: "('v, 'r, 'c, 'q, 'st) deps \<Rightarrow> Collection \<Rightarrow> (('v, 'r, 'c, 'q) serverImpl, unit) op" where
  "reschedule D coll s = (case lockedGetJob (coll_Name coll) s of
      None \<Rightarrow> schedule D coll s
    | Some existing \<Rightarrow>
        if \<not> GetLastModified (s_collectors s ! sj_collector existing) < coll_LastModified coll then (Inr (), s)
        else op_bind (removeJob D (sj_job existing)) (\<lambda>_. schedule D coll) s)"

type_synonym ('v, 'r, 'c, 'q, 'st) rstate = "('v, 'r, 'c, 'q) serverImpl \<times> 'st \<times> string set"

definition refresh_one :: "('v, 'r, 'c, 'q, 'st) deps \<Rightarrow> string \<Rightarrow> (('v, 'r, 'c, 'q, 'st) rstate, unit) op" where
  "refresh_one D name = (\<lambda>(s, st, keep).
    (case cs_get (d_store D) name st of
       (Inl (Panic p), st') \<Rightarrow> (Inl (Panic p), (s, st', keep))
     | (Inl (Err e), st') \<Rightarrow> (Inr (), (s, st', keep))
     | (Inr None, st') \<Rightarrow> (Inl (Panic NilDereference), (s, st', keep))
     | (Inr (Some coll), st') \<Rightarrow>
         if \<not> eligible (s_leaseHolder s) coll then (Inr (), (s, st', keep))
         else (case reschedule D coll s of (r, s') \<Rightarrow> (r, (s', st', insert name keep)))))"

definition lockedRefresh :: "('v, 'r, 'c, 'q, 'st) deps \<Rightarrow> (('v, 'r, 'c, 'q) serverImpl \<times> 'st, unit) op" where
  "lockedRefresh D = (\<lambda>(s, st).
    (case cs_names (d_store D) st of
       (Inl e, st1) \<Rightarrow> (Inl e, (s\<lparr>s_refresh := (s_refresh s)\<lparr>RefreshErrors := inc ''metric_collector'' (RefreshErrors (s_refresh s))\<rparr>\<rparr>, st1))
     | (Inr names, st1) \<Rightarrow>
        (case for_each (refresh_one D) names (s, st1, {}) of
           (Inl e, (s2, st2, keep)) \<Rightarrow> (Inl e, (s2, st2))
         | (Inr _, (s2, st2, keep)) \<Rightarrow>
            (case lockedCleanupJobs D keep s2 of
               (Inl e, s3) \<Rightarrow> (Inl e, (s3, st2))
             | (Inr _, s3) \<Rightarrow> (Inr (),
                 (s3\<lparr>s_refresh := (s_refresh s3)\<lparr>RefreshCounts := inc ''metric_collector'' (RefreshCounts (s_refresh s3))\<rparr>\<rparr>, st2))))))"

definition coll_Refresh :: "('v, 'r, 'c, 'q, 'st) deps \<Rightarrow> (('v, 'r, 'c, 'q) serverImpl \<times> 'st, unit) op" where
  "coll_Refresh D = lockedRefresh D"

text \<open>\<^verbatim>\<open>TryLock\<close> fails when another call holds the lock.\<close>

definition maybeRefresh :: "('v, 'r, 'c, 'q, 'st) deps \<Rightarrow> bool \<Rightarrow> (('v, 'r, 'c, 'q) serverImpl \<times> 'st, unit) op" where
  "maybeRefresh D busy s = (if busy then (Inr (), s) else lockedRefresh D s)"

section \<open>What the scheduler runs\<close>

definition entry :: "('v, 'r, 'c, 'q) serverImpl \<Rightarrow> string \<Rightarrow> scheduledJob option" where
  "entry s = map_of (s_scheduledJobs s)"

definition live :: "('v, 'r, 'c, 'q, 'st) deps \<Rightarrow> ('v, 'r, 'c, 'q) serverImpl \<Rightarrow> nat \<Rightarrow> task option" where
  "live D s j = (case s_scheduler s of None \<Rightarrow> None | Some q \<Rightarrow> sch_live (d_sched D) q j)"

definition used :: "('v, 'r, 'c, 'q, 'st) deps \<Rightarrow> ('v, 'r, 'c, 'q) serverImpl \<Rightarrow> nat set" where
  "used D s = (case s_scheduler s of None \<Rightarrow> {} | Some q \<Rightarrow> sch_used (d_sched D) q)"

section \<open>Running\<close>

text \<open>The task of a job: one run of the collector, with the metrics about it.\<close>

definition run_job :: "('v, 'r, 'c, 'q, 'st) deps \<Rightarrow> db_answer \<Rightarrow> (nat \<Rightarrow> answer) \<Rightarrow> time \<Rightarrow> int \<Rightarrow> nat
    \<Rightarrow> (('v, 'r, 'c, 'q) serverImpl, unit) op" where
  "run_job D q as now elapsed i s =
    (let c = s_collectors s ! i; name = c_name c in
     (case Collect (d_libs D) q as (c, s_world s) of
        (Inl (Panic p), _) \<Rightarrow> (Inl (Panic p), s)
      | (r, (c', w')) \<Rightarrow>
         (let s1 = s\<lparr>s_collectors := (s_collectors s)[i := c'], s_world := w'\<rparr>; m = s_metrics s in
          if \<not> cfg_VisusMetrics (s_config s) then (Inr (), s1)
          else (let m1 = (case r of Inl _ \<Rightarrow> m\<lparr>collectorErrors := inc name (collectorErrors m)\<rparr>
                           | Inr _ \<Rightarrow> m\<lparr>collectorLastSuccess := AList.update name now (collectorLastSuccess m)\<rparr>);
                    old = (case map_of (collectorLatency m1) name of None \<Rightarrow> [] | Some l \<Rightarrow> l)
                in (Inr (), s1\<lparr>s_metrics := m1\<lparr>collectorLatency := AList.update name (old @ [elapsed]) (collectorLatency m1),
                                              collectorCounts := inc name (collectorCounts m1)\<rparr>\<rparr>)))))"

text \<open>
  The state of the routine that competes for the lease: not started, waiting for the lease (or for
  the delay after a failed attempt), inside the callback while the lease is held, ended by
  \<^verbatim>\<open>ErrCancelSingleton\<close>.
\<close>

datatype phase = NotStarted | Competing | Holding | Cancelled

type_synonym ('v, 'r, 'c, 'q, 'st) node = "('v, 'r, 'c, 'q) serverImpl \<times> 'st \<times> phase"

text \<open>
  \<^verbatim>\<open>start\<close> without a scheduler refreshes once; with one it starts the lease routine, which may fail
  to be set up, and schedules the refresh.
\<close>

definition start :: "('v, 'r, 'c, 'q, 'st) deps \<Rightarrow> go_error option \<Rightarrow> (('v, 'r, 'c, 'q, 'st) node, unit) op" where
  "start D lease_New = (\<lambda>(s, st, p).
    (case s_scheduler s of
       None \<Rightarrow> (case coll_Refresh D (s, st) of (r, (s', st')) \<Rightarrow> (r, (s', st', p)))
     | Some q \<Rightarrow>
       (case lease_New of
          Some e \<Rightarrow> (Inl (Err (''failed to initialize lease'' @ [chr 10] @ e)), (s, st, p))
        | None \<Rightarrow>
           (case sch_Do (d_sched D) (Duration (cfg_Refresh (s_config s))) (RefreshTask ''metric_collector'') q of
              (Inl e, q') \<Rightarrow> (Inl (Err e), (s\<lparr>s_scheduler := Some q'\<rparr>, st, Competing))
            | (Inr j, q') \<Rightarrow> (Inr (), (s\<lparr>s_scheduler := Some q'\<rparr>, st, Competing))))))"

text \<open>
  The callback of the lease.  Its first part runs when the lease is acquired: an error of the
  refresh ends the callback, and the routine goes back to competing.  Its second part runs when
  the lease is released.
\<close>

definition lease_acquired :: "('v, 'r, 'c, 'q, 'st) deps \<Rightarrow> bool \<Rightarrow> ('v, 'r, 'c, 'q) serverImpl \<times> 'st \<Rightarrow> ('v, 'r, 'c, 'q, 'st) node result" where
  "lease_acquired D busy = (\<lambda>(s, st). case maybeRefresh D busy (setLeaseHolder True s, st) of
      (Inl (Panic p), _) \<Rightarrow> Inl (Panic p)
    | (Inl (Err e), (s', st')) \<Rightarrow> Inr (s', st', Competing)
    | (Inr _, (s', st')) \<Rightarrow> Inr (s', st', Holding))"

definition lease_done :: "('v, 'r, 'c, 'q, 'st) deps \<Rightarrow> bool \<Rightarrow> bool \<Rightarrow> ('v, 'r, 'c, 'q) serverImpl \<times> 'st \<Rightarrow> ('v, 'r, 'c, 'q, 'st) node result" where
  "lease_done D busy stopping = (\<lambda>(s, st).
     if stopping then Inr (setLeaseHolder False s, st, Cancelled)
     else (case maybeRefresh D busy (setLeaseHolder False s, st) of
        (Inl (Panic p), _) \<Rightarrow> Inl (Panic p)
      | (_, (s', st')) \<Rightarrow> Inr (s', st', Competing)))"

definition lease_released :: "('v, 'r, 'c, 'q, 'st) deps \<Rightarrow> bool \<Rightarrow> ('v, 'r, 'c, 'q) serverImpl \<times> 'st \<Rightarrow> ('v, 'r, 'c, 'q, 'st) node result" where
  "lease_released D busy = (\<lambda>(s, st). case maybeRefresh D busy (setLeaseHolder False s, st) of
      (Inl (Panic p), _) \<Rightarrow> Inl (Panic p)
    | (_, (s', st')) \<Rightarrow> Inr (s', st', Cancelled))"

text \<open>
  The steps of a running server, those of the lease routine and those of a job of the scheduler; a
  panic ends the process, so it has no successor.
\<close>

inductive lease_step :: "('v, 'r, 'c, 'q, 'st) deps \<Rightarrow> bool \<Rightarrow> ('v, 'r, 'c, 'q, 'st) node \<Rightarrow> ('v, 'r, 'c, 'q, 'st) node \<Rightarrow> bool" for D stopping where
  acquire: "lease_acquired D busy (s, st) = Inr y \<Longrightarrow> lease_step D stopping (s, st, Competing) y"
| released: "lease_done D busy stopping (s, st) = Inr y \<Longrightarrow> lease_step D stopping (s, st, Holding) y"
| cancel: "lease_released D busy (s, st) = Inr y \<Longrightarrow> lease_step D stopping (s, st, Holding) y"

inductive job_step :: "('v, 'r, 'c, 'q, 'st) deps \<Rightarrow> task \<Rightarrow> ('v, 'r, 'c, 'q, 'st) node \<Rightarrow> ('v, 'r, 'c, 'q, 'st) node \<Rightarrow> bool" for D where
  tick: "maybeRefresh D busy (s, st) = (r, (s', st')) \<Longrightarrow> (\<And>p. r \<noteq> Inl (Panic p)) \<Longrightarrow> job_step D (RefreshTask ''metric_collector'') (s, st, p) (s', st', p)"
| run: "run_job D q as now elapsed i s = (Inr (), s') \<Longrightarrow> job_step D (CollectTask i) (s, st, p) (s', st, p)"

inductive node_step :: "('v, 'r, 'c, 'q, 'st) deps \<Rightarrow> ('v, 'r, 'c, 'q, 'st) node \<Rightarrow> ('v, 'r, 'c, 'q, 'st) node \<Rightarrow> bool" for D where
  lease: "lease_step D stopping x y \<Longrightarrow> node_step D x y"
| job: "live D s j = Some t \<Longrightarrow> job_step D t (s, st, p) y \<Longrightarrow> node_step D (s, st, p) y"
| refresh: "coll_Refresh D (s, st) = (r, (s', st')) \<Longrightarrow> (\<And>p. r \<noteq> Inl (Panic p)) \<Longrightarrow> node_step D (s, st, p) (s', st', p)"
| other: "node_step D (s, st, p) (s, st', p)"

section \<open>The table of jobs and the scheduler\<close>

text \<open>
  Every job that runs a collector is the job of one entry of the table, different entries have
  different jobs, and the job of an entry runs the collector of that entry, if it runs at all.
\<close>

definition jobs_inv :: "('v, 'r, 'c, 'q, 'st) deps \<Rightarrow> ('v, 'r, 'c, 'q) serverImpl \<Rightarrow> bool" where
  "jobs_inv D s = (s_scheduler s \<noteq> None \<and> wf_map (s_scheduledJobs s)
    \<and> (\<forall>n sj. entry s n = Some sj \<longrightarrow> sj_collector sj < length (s_collectors s) \<and> sj_job sj \<in> used D s
         \<and> live D s (sj_job sj) \<in> {None, Some (CollectTask (sj_collector sj))})
    \<and> (\<forall>n m sj sj'. entry s n = Some sj \<longrightarrow> entry s m = Some sj' \<longrightarrow> n \<noteq> m \<longrightarrow> sj_job sj \<noteq> sj_job sj')
    \<and> (\<forall>j i. live D s j = Some (CollectTask i) \<longrightarrow> (\<exists>n. entry s n = Some \<lparr>sj_collector = i, sj_job = j\<rparr>)))"

lemma jobs_invD:
  assumes "jobs_inv D s"
  shows "s_scheduler s \<noteq> None" "wf_map (s_scheduledJobs s)"
    "\<And>n sj. entry s n = Some sj \<Longrightarrow> sj_collector sj < length (s_collectors s)"
    "\<And>n sj. entry s n = Some sj \<Longrightarrow> sj_job sj \<in> used D s"
    "\<And>n sj. entry s n = Some sj \<Longrightarrow> live D s (sj_job sj) = None \<or> live D s (sj_job sj) = Some (CollectTask (sj_collector sj))"
    "\<And>n m sj sj'. entry s n = Some sj \<Longrightarrow> entry s m = Some sj' \<Longrightarrow> n \<noteq> m \<Longrightarrow> sj_job sj \<noteq> sj_job sj'"
    "\<And>j i. live D s j = Some (CollectTask i) \<Longrightarrow> \<exists>n. entry s n = Some \<lparr>sj_collector = i, sj_job = j\<rparr>"
  using assms by (simp_all add: jobs_inv_def)

text \<open>What the operations may change.\<close>

definition srv_frame :: "('v, 'r, 'c, 'q) serverImpl \<Rightarrow> ('v, 'r, 'c, 'q) serverImpl \<Rightarrow> bool" where
  "srv_frame s s' = (s_config s' = s_config s \<and> s_leaseHolder s' = s_leaseHolder s \<and> s_stopped s' = s_stopped s
     \<and> s_metrics s' = s_metrics s \<and> s_refresh s' = s_refresh s
     \<and> (\<exists>cs. s_collectors s' = s_collectors s @ cs))"

lemma srv_frame_refl [simp]: "srv_frame s s"
  by (simp add: srv_frame_def)

lemma srv_frame_trans: "srv_frame s s' \<Longrightarrow> srv_frame s' s'' \<Longrightarrow> srv_frame s s''"
  unfolding srv_frame_def by auto

lemma jobs_inv_sub:
  assumes inv: "jobs_inv D s" and fr: "s_scheduler s' \<noteq> None" "wf_map (s_scheduledJobs s')"
      "length (s_collectors s) \<le> length (s_collectors s')" "live D s' = live D s" "used D s' = used D s"
    and sub: "\<And>n sj. entry s' n = Some sj \<Longrightarrow> entry s n = Some sj"
    and cov: "\<And>j i. live D s j = Some (CollectTask i) \<Longrightarrow> \<exists>n. entry s' n = Some \<lparr>sj_collector = i, sj_job = j\<rparr>"
  shows "jobs_inv D s'"
  unfolding jobs_inv_def fr(4,5)
proof (intro conjI allI impI)
  fix n sj assume "entry s' n = Some sj"
  note n = sub[OF this]
  show "sj_collector sj < length (s_collectors s')" using jobs_invD(3)[OF inv n] fr(3) by simp
  show "sj_job sj \<in> used D s" by (rule jobs_invD(4)[OF inv n])
  show "live D s (sj_job sj) \<in> {None, Some (CollectTask (sj_collector sj))}" using jobs_invD(5)[OF inv n] by blast
next
  fix n m sj sj' assume "entry s' n = Some sj" "entry s' m = Some sj'" "n \<noteq> m"
  then show "sj_job sj \<noteq> sj_job sj'" by (metis sub jobs_invD(6)[OF inv])
qed (use fr cov in blast)+

lemma removeJob_effect:
  assumes "sched_laws (d_sched D)" "jobs_inv D s"
  obtains s' where "removeJob D j s = (Inr (), s')" "jobs_inv D s'" "srv_frame s s'" "entry s' = entry s"
    "live D s' = (live D s)(j := None)" "used D s' = used D s" "s_world s' = s_world s" "s_collectors s' = s_collectors s"
    "s_scheduledJobs s' = s_scheduledJobs s"
proof -
  obtain q where q: "s_scheduler s = Some q" using jobs_invD(1)[OF assms(2)] by blast
  let ?s = "s\<lparr>s_scheduler := Some (sch_Remove (d_sched D) j q)\<rparr>"
  have l: "live D ?s = (live D s)(j := None)" and u: "used D ?s = used D s" and e: "entry ?s = entry s"
    by (simp_all add: fun_eq_iff live_def used_def entry_def q sch_Remove_laws[OF assms(1)])
  have "jobs_inv D ?s"
    unfolding jobs_inv_def l u e using jobs_invD[OF assms(2)] by auto
  then show ?thesis using that[of ?s] l u e q by (simp add: removeJob_def srv_frame_def)
qed

text \<open>The invariant does not depend on the world, nor on more collectors.\<close>

lemma jobs_inv_same:
  assumes inv: "jobs_inv D s" and q: "s_scheduler s = Some q"
    and s': "s' = s\<lparr>s_world := w, s_collectors := s_collectors s @ cs, s_scheduler := Some q'\<rparr>"
      "sch_used (d_sched D) q' = sch_used (d_sched D) q" "sch_live (d_sched D) q' = sch_live (d_sched D) q"
  shows "jobs_inv D s'" "srv_frame s s'" "entry s' = entry s" "live D s' = live D s"
proof -
  show e: "entry s' = entry s" by (simp add: s' entry_def)
  show l: "live D s' = live D s" by (simp add: fun_eq_iff live_def s' q)
  have u: "used D s' = used D s" by (simp add: used_def s' q)
  show "srv_frame s s'" by (simp add: srv_frame_def s')
  show "jobs_inv D s'" unfolding jobs_inv_def e l u using jobs_invD[OF inv] by (fastforce simp: s')
qed

text \<open>A new job for an entry whose old job is dead.\<close>

lemma jobs_inv_add:
  assumes inv: "jobs_inv D s" and nj: "j \<notin> used D s"
    and dead: "\<And>sj. entry s name = Some sj \<Longrightarrow> live D s (sj_job sj) = None"
    and e: "entry s' = (entry s)(name \<mapsto> \<lparr>sj_collector = length (s_collectors s), sj_job = j\<rparr>)"
    and l: "live D s' = (live D s)(j \<mapsto> CollectTask (length (s_collectors s)))" and u: "used D s' = insert j (used D s)"
    and cs: "s_collectors s' = s_collectors s @ [c]" "s_scheduler s' \<noteq> None" "wf_map (s_scheduledJobs s')"
  shows "jobs_inv D s'"
  unfolding jobs_inv_def
proof (intro conjI allI impI)
  note I = jobs_invD[OF inv]
  {
    fix n sj assume n: "entry s' n = Some sj"
    show "sj_collector sj < length (s_collectors s')" using n I(3)[of n sj] by (auto simp: e cs split: if_splits)
    show "sj_job sj \<in> used D s'" using n I(4)[of n sj] by (auto simp: e u split: if_splits)
    show "live D s' (sj_job sj) \<in> {None, Some (CollectTask (sj_collector sj))}"
      using n I(4)[of n sj] I(5)[of n sj] nj by (auto simp: e l split: if_splits)
  next
    fix n m sj sj' assume n: "entry s' n = Some sj" and m: "entry s' m = Some sj'" and eq: "n \<noteq> m"
    show "sj_job sj \<noteq> sj_job sj'"
      using n m eq I(4)[of n sj] I(4)[of m sj'] I(6)[of n sj m sj'] nj by (auto simp: e split: if_splits)
  next
    fix k i assume k: "live D s' k = Some (CollectTask i)"
    show "\<exists>n. entry s' n = Some \<lparr>sj_collector = i, sj_job = k\<rparr>"
    proof (cases "k = j")
      case True
      then show ?thesis using k by (intro exI[of _ name]) (simp add: e l)
    next
      case False
      then obtain n where "entry s n = Some \<lparr>sj_collector = i, sj_job = k\<rparr>" using k I(7) by (auto simp: l)
      moreover have "n \<noteq> name" using calculation dead k False by (auto simp: l)
      ultimately show ?thesis by (intro exI[of _ n]) (simp add: e)
    qed
  }
qed (use cs in simp_all)

lemma schedule_inv:
  assumes laws: "sched_laws (d_sched D)" and inv: "jobs_inv D s"
    and dead: "\<And>sj. entry s (coll_Name coll) = Some sj \<Longrightarrow> live D s (sj_job sj) = None"
    and r: "schedule D coll s = (r, s')"
  shows "jobs_inv D s' \<and> srv_frame s s' \<and> (\<forall>n. n \<noteq> coll_Name coll \<longrightarrow> entry s' n = entry s n)
    \<and> (\<forall>j \<in> used D s. live D s' j = live D s j)"
proof -
  obtain q where q: "s_scheduler s = Some q" using jobs_invD(1)[OF inv] by blast
  obtain x w where fc: "FromCollection (d_libs D) coll (s_world s) = (x, w)" by fastforce
  show ?thesis
  proof (cases x)
    case (Inl a)
    then have "s' = s\<lparr>s_world := w\<rparr>" using r fc by (cases a) (auto simp: schedule_def)
    then have "s' = s\<lparr>s_world := w, s_collectors := s_collectors s @ [], s_scheduler := Some q\<rparr>" by (simp add: q[symmetric])
    from jobs_inv_same[OF inv q this] show ?thesis by simp
  next
    case (Inr c)
    let ?i = "length (s_collectors s)"
    obtain y q' where do: "sch_Do (d_sched D) (Seconds (GetFrequency c)) (CollectTask ?i) q = (y, q')" by fastforce
    show ?thesis
    proof (cases y)
      case (Inl e)
      then have s': "s' = s\<lparr>s_world := w, s_collectors := s_collectors s @ [c], s_scheduler := Some q'\<rparr>"
        using r fc \<open>x = Inr c\<close> do q by (auto simp: schedule_def Let_def)
      from jobs_inv_same[OF inv q s'] sch_Do_Inl[OF laws do[unfolded Inl]] show ?thesis by simp
    next
      case (Inr j)
      note L = sch_Do_Inr[OF laws do[unfolded Inr]]
      have s': "s' = lockedAddJob (coll_Name coll) ?i j (s\<lparr>s_world := w, s_collectors := s_collectors s @ [c], s_scheduler := Some q'\<rparr>)"
        using r fc \<open>x = Inr c\<close> do q Inr by (auto simp: schedule_def Let_def)
      have e: "entry s' = (entry s)(coll_Name coll \<mapsto> \<lparr>sj_collector = ?i, sj_job = j\<rparr>)" by (simp add: s' entry_def lockedAddJob_def)
      have l: "live D s' = (live D s)(j \<mapsto> CollectTask ?i)" by (simp add: fun_eq_iff live_def s' lockedAddJob_def q L)
      have u: "used D s' = insert j (used D s)" by (simp add: used_def s' lockedAddJob_def q L)
      have nj: "j \<notin> used D s" using L(2) by (simp add: used_def q)
      have cs: "s_collectors s' = s_collectors s @ [c]" "s_scheduler s' \<noteq> None" "wf_map (s_scheduledJobs s')"
        using jobs_invD(2)[OF inv] by (auto simp: s' lockedAddJob_def)
      have "srv_frame s s'" by (simp add: srv_frame_def s' lockedAddJob_def)
      then show ?thesis using jobs_inv_add[OF inv nj dead e l u cs] nj by (auto simp: e l)
    qed
  qed
qed

lemma reschedule_inv:
  assumes laws: "sched_laws (d_sched D)" and inv: "jobs_inv D s" and r: "reschedule D coll s = (r, s')"
  shows "jobs_inv D s' \<and> srv_frame s s' \<and> (\<forall>n. n \<noteq> coll_Name coll \<longrightarrow> entry s' n = entry s n)
    \<and> (\<forall>n sj. n \<noteq> coll_Name coll \<longrightarrow> entry s n = Some sj \<longrightarrow> live D s' (sj_job sj) = live D s (sj_job sj))"
proof (cases "entry s (coll_Name coll)")
  case None
  then have "schedule D coll s = (r, s')" using r by (simp add: reschedule_def lockedGetJob_def entry_def)
  from schedule_inv[OF laws inv _ this] None show ?thesis using jobs_invD(4)[OF inv] by auto
next
  case (Some ex)
  show ?thesis
  proof (cases "GetLastModified (s_collectors s ! sj_collector ex) < coll_LastModified coll")
    case False
    then show ?thesis using r Some inv by (simp add: reschedule_def lockedGetJob_def entry_def)
  next
    case True
    obtain s1 where s1: "removeJob D (sj_job ex) s = (Inr (), s1)" "jobs_inv D s1" "srv_frame s s1" "entry s1 = entry s"
        "live D s1 = (live D s)(sj_job ex := None)" "used D s1 = used D s"
      using removeJob_effect[OF laws inv, of "sj_job ex"] by metis
    have sc: "schedule D coll s1 = (r, s')"
      using r Some True s1(1) by (simp add: reschedule_def lockedGetJob_def entry_def op_bind_def)
    have dead: "live D s1 (sj_job sj) = None" if "entry s1 (coll_Name coll) = Some sj" for sj
      using that Some by (simp add: s1)
    note S = schedule_inv[OF laws s1(2) dead sc]
    have "live D s' (sj_job sj) = live D s (sj_job sj)" if n: "n \<noteq> coll_Name coll" "entry s n = Some sj" for n sj
      using S jobs_invD(4)[OF inv n(2)] jobs_invD(6)[OF inv n(2) Some n(1)] by (auto simp: s1)
    then show ?thesis using S srv_frame_trans[OF s1(3)] s1(4) by simp
  qed
qed

lemma cleanup_job_effect:
  assumes laws: "sched_laws (d_sched D)" and inv: "jobs_inv D s" and e: "entry s k = Some sj"
  shows "\<exists>s'. cleanup_job D keep (k, sj) s = (Inr (), s') \<and> jobs_inv D s' \<and> srv_frame s s' \<and> s_collectors s' = s_collectors s
    \<and> entry s' = (if k \<in> keep then entry s else (entry s)(k := None))
    \<and> (\<forall>n sj'. n \<noteq> k \<or> k \<in> keep \<longrightarrow> entry s n = Some sj' \<longrightarrow> live D s' (sj_job sj') = live D s (sj_job sj'))
    \<and> s_world s' = (if k \<in> keep then s_world s else Unregister (d_libs D) (s_collectors s ! sj_collector sj) (s_world s))"
proof (cases "k \<in> keep")
  case True
  then show ?thesis using inv by (simp add: cleanup_job_def)
next
  case False
  obtain s1 where s1: "removeJob D (sj_job sj) s = (Inr (), s1)" "jobs_inv D s1" "srv_frame s s1" "entry s1 = entry s"
      "live D s1 = (live D s)(sj_job sj := None)" "used D s1 = used D s" "s_world s1 = s_world s" "s_collectors s1 = s_collectors s"
    using removeJob_effect[OF laws inv, of "sj_job sj"] by metis
  let ?s = "s1\<lparr>s_world := Unregister (d_libs D) (s_collectors s ! sj_collector sj) (s_world s),
               s_scheduledJobs := AList.delete k (s_scheduledJobs s1)\<rparr>"
  have en: "entry ?s = (entry s)(k := None)" using s1(4) by (simp add: entry_def)
  have l: "live D ?s = live D s1" and u: "used D ?s = used D s1" by (simp_all add: fun_eq_iff live_def used_def)
  have other: "live D s1 (sj_job sj') = live D s (sj_job sj')" if "n \<noteq> k" "entry s n = Some sj'" for n sj'
    using jobs_invD(6)[OF inv that(2) e that(1)] by (simp add: s1)
  note I = jobs_invD[OF s1(2)]
  have "\<exists>n. entry ?s n = Some \<lparr>sj_collector = i, sj_job = j\<rparr>" if j: "live D ?s j = Some (CollectTask i)" for j i
  proof -
    obtain n where n: "entry s n = Some \<lparr>sj_collector = i, sj_job = j\<rparr>" using I(7)[of j i] j by (auto simp: l s1(4))
    moreover have "n \<noteq> k" using n e j by (auto simp: l s1(5))
    ultimately show ?thesis by (intro exI[of _ n]) (simp add: en)
  qed
  moreover have "wf_map (s_scheduledJobs ?s)" using I(2) by auto
  moreover have "entry s1 n = Some sj'" if "entry ?s n = Some sj'" for n sj'
    using that by (simp add: en s1(4) split: if_splits)
  ultimately have "jobs_inv D ?s"
    using I(1) by (intro jobs_inv_sub[OF s1(2)]) (simp_all add: l u)
  moreover have "srv_frame s ?s" using s1(3) by (simp add: srv_frame_def)
  ultimately show ?thesis using False s1(1,7,8) other
    by (intro exI[of _ ?s]) (simp add: cleanup_job_def op_bind_def en l)
qed

text \<open>The cleanup walks over the entries the table has at its start.\<close>

lemma cleanup_effect:
  assumes laws: "sched_laws (d_sched D)"
  shows "jobs_inv D s \<Longrightarrow> distinct (map fst l) \<Longrightarrow> \<forall>(k, sj) \<in> set l. entry s k = Some sj
    \<Longrightarrow> \<exists>s'. for_each (cleanup_job D keep) l s = (Inr (), s') \<and> jobs_inv D s' \<and> srv_frame s s' \<and> s_collectors s' = s_collectors s
      \<and> entry s' = (\<lambda>n. if n \<in> fst ` set l \<and> n \<notin> keep then None else entry s n)
      \<and> (\<forall>n sj. n \<notin> fst ` set l \<or> n \<in> keep \<longrightarrow> entry s n = Some sj \<longrightarrow> live D s' (sj_job sj) = live D s (sj_job sj))"
proof (induction l arbitrary: s)
  case (Cons x l)
  obtain k sj where x: "x = (k, sj)" by fastforce
  have e: "entry s k = Some sj" using Cons.prems(3) x by simp
  obtain s1 where s1: "cleanup_job D keep (k, sj) s = (Inr (), s1)" "jobs_inv D s1" "srv_frame s s1" "s_collectors s1 = s_collectors s"
      "entry s1 = (if k \<in> keep then entry s else (entry s)(k := None))"
      "\<forall>n sj'. n \<noteq> k \<or> k \<in> keep \<longrightarrow> entry s n = Some sj' \<longrightarrow> live D s1 (sj_job sj') = live D s (sj_job sj')"
    using cleanup_job_effect[OF laws Cons.prems(1) e, of keep] by blast
  have k: "k \<notin> fst ` set l" using Cons.prems(2) x by (auto simp: image_iff)
  have rest: "\<forall>(k', sj') \<in> set l. entry s1 k' = Some sj'"
  proof
    fix p assume p: "p \<in> set l"
    then have "fst p \<noteq> k" "case p of (k', sj') \<Rightarrow> entry s k' = Some sj'" using Cons.prems(3) k by auto
    then show "case p of (k', sj') \<Rightarrow> entry s1 k' = Some sj'" by (auto simp: s1(5))
  qed
  have "distinct (map fst l)" using Cons.prems(2) by simp
  from Cons.IH[OF s1(2) this rest] obtain s2 where s2: "for_each (cleanup_job D keep) l s1 = (Inr (), s2)" "jobs_inv D s2"
      "srv_frame s1 s2" "s_collectors s2 = s_collectors s1"
      "entry s2 = (\<lambda>n. if n \<in> fst ` set l \<and> n \<notin> keep then None else entry s1 n)"
      "\<forall>n sj. n \<notin> fst ` set l \<or> n \<in> keep \<longrightarrow> entry s1 n = Some sj \<longrightarrow> live D s2 (sj_job sj) = live D s1 (sj_job sj)"
    by blast
  have "live D s2 (sj_job sj') = live D s (sj_job sj')" if n: "n \<notin> fst ` set (x # l) \<or> n \<in> keep" "entry s n = Some sj'" for n sj'
  proof -
    have "n \<noteq> k \<or> k \<in> keep" "n \<notin> fst ` set l \<or> n \<in> keep" "entry s1 n = Some sj'" using n x by (auto simp: s1(5))
    then show ?thesis using s2(6) s1(6) n(2) by simp
  qed
  moreover have "entry s2 = (\<lambda>n. if n \<in> fst ` set (x # l) \<and> n \<notin> keep then None else entry s n)"
    using k by (auto simp: s2(5) s1(5) x fun_eq_iff)
  ultimately show ?case using s1(1,4) s2(1,2,4) srv_frame_trans[OF s1(3) s2(3)] by (intro exI[of _ s2]) (simp add: op_bind_def x)
qed simp

lemma lockedCleanupJobs_effect:
  assumes laws: "sched_laws (d_sched D)" and inv: "jobs_inv D s"
  shows "\<exists>s'. lockedCleanupJobs D keep s = (Inr (), s') \<and> jobs_inv D s' \<and> srv_frame s s' \<and> s_collectors s' = s_collectors s
    \<and> entry s' = (entry s) |` keep
    \<and> (\<forall>n \<in> keep. \<forall>sj. entry s n = Some sj \<longrightarrow> live D s' (sj_job sj) = live D s (sj_job sj))"
proof -
  have wf: "wf_map (s_scheduledJobs s)" by (rule jobs_invD(2)[OF inv])
  have d: "distinct (map fst (s_scheduledJobs s))" using wf by (simp add: wf_map_def keys_def)
  have a: "\<forall>(k, sj) \<in> set (s_scheduledJobs s). entry s k = Some sj"
    using wf_map_in_set[OF wf] by (auto simp: entry_def)
  have f: "fst ` set (s_scheduledJobs s) = dom (entry s)" by (simp add: entry_def dom_map_of_conv_image_fst)
  have "(\<lambda>n. if n \<in> dom (entry s) \<and> n \<notin> keep then None else entry s n) = entry s |` keep"
    by (auto simp: fun_eq_iff restrict_map_def)
  then show ?thesis using cleanup_effect[OF laws inv d a, of keep] unfolding lockedCleanupJobs_def f by auto
qed

lemma refresh_one_inv:
  assumes laws: "sched_laws (d_sched D)" and inv: "jobs_inv D s" and r: "refresh_one D n (s, st, keep) = (r, (s', st', keep'))"
  shows "jobs_inv D s' \<and> srv_frame s s'"
proof (cases "\<exists>coll. fst (cs_get (d_store D) n st) = Inr (Some coll) \<and> eligible (s_leaseHolder s) coll")
  case True
  then obtain coll st1 where g: "cs_get (d_store D) n st = (Inr (Some coll), st1)" "eligible (s_leaseHolder s) coll"
    by (metis fst_conv old.prod.exhaust)
  then have "reschedule D coll s = (r, s')" using r by (auto simp: refresh_one_def split: prod.splits)
  then show ?thesis using reschedule_inv[OF laws inv] by blast
next
  case False
  then have "s' = s" using r
    by (auto simp: refresh_one_def split: prod.splits sum.splits fault.splits option.splits if_splits)
  then show ?thesis using inv by simp
qed

lemma refresh_loop_inv:
  assumes laws: "sched_laws (d_sched D)" and inv: "jobs_inv D s"
    and r: "for_each (refresh_one D) ns (s, st, keep) = (r, (s', st', keep'))"
  shows "jobs_inv D s' \<and> srv_frame s s'"
proof -
  let ?P = "\<lambda>(s1, st1 :: 'e, keep1 :: string set). jobs_inv D s1 \<and> srv_frame s s1"
  have "?P (s', st', keep')"
  proof (rule for_each_inv[OF _ _ r, where P = ?P])
    fix x y r1 y' assume y: "?P y" and o: "refresh_one D x y = (r1, y')"
    obtain a b c where yy: "y = (a, b, c)" by (cases y) blast
    obtain a' b' c' where yy': "y' = (a', b', c')" by (cases y') blast
    have "jobs_inv D a" "srv_frame s a" using y yy by auto
    with refresh_one_inv[OF laws this(1) o[unfolded yy yy']] srv_frame_trans show "?P y'" unfolding yy' by auto
  qed (use inv in simp)
  then show ?thesis by simp
qed

lemma lockedRefresh_inv:
  assumes "sched_laws (d_sched D)" "jobs_inv D s" "lockedRefresh D (s, st) = (r, (s', st'))"
  shows "jobs_inv D s' \<and> s_config s' = s_config s \<and> s_leaseHolder s' = s_leaseHolder s"
proof -
  obtain x st1 where n: "cs_names (d_store D) st = (x, st1)" by fastforce
  show ?thesis
  proof (cases x)
    case (Inl e)
    then have "s' = s\<lparr>s_refresh := (s_refresh s)\<lparr>RefreshErrors := inc ''metric_collector'' (RefreshErrors (s_refresh s))\<rparr>\<rparr>"
      using assms(3) n by (simp add: lockedRefresh_def)
    then show ?thesis using assms(2) by (simp add: jobs_inv_def entry_def live_def used_def)
  next
    case (Inr names)
    obtain y s2 st2 keep where l: "for_each (refresh_one D) names (s, st1, {}) = (y, (s2, st2, keep))" by (metis surj_pair)
    have i2: "jobs_inv D s2" "srv_frame s s2" using refresh_loop_inv[OF assms(1,2) l] by simp_all
    obtain s3 where s3: "lockedCleanupJobs D keep s2 = (Inr (), s3)" "jobs_inv D s3" "srv_frame s2 s3"
      using lockedCleanupJobs_effect[OF assms(1) i2(1)] by blast
    have "s' = s2 \<or> (\<exists>f. s' = s3\<lparr>s_refresh := f\<rparr>)"
      using assms(3) n Inr l s3(1) by (cases y) (auto simp: lockedRefresh_def)
    moreover have "jobs_inv D (s3\<lparr>s_refresh := f\<rparr>)" for f using s3(2) by (simp add: jobs_inv_def entry_def live_def used_def)
    ultimately show ?thesis using i2 s3(2,3) by (auto simp: srv_frame_def)
  qed
qed

section \<open>Synchronisation with the store\<close>

definition stored :: "('v, 'r, 'c, 'q, 'st) deps \<Rightarrow> 'st \<Rightarrow> string \<Rightarrow> Collection option" where
  "stored D st n = (case fst (cs_get (d_store D) n st) of Inr x \<Rightarrow> x | Inl _ \<Rightarrow> None)"

text \<open>A collection that can be built and scheduled.\<close>

definition coll_ok :: "desc set \<Rightarrow> string \<Rightarrow> Collection \<Rightarrow> bool" where
  "coll_ok F n coll = (coll_Name coll = n \<and> (coll_Enabled coll \<longrightarrow>
     coll_descs coll \<subseteq> F \<and> known_kinds coll \<and> 0 < quot (Microseconds (coll_Frequency coll)) 1000000))"

definition jobs_live :: "('v, 'r, 'c, 'q, 'st) deps \<Rightarrow> ('v, 'r, 'c, 'q) serverImpl \<Rightarrow> bool" where
  "jobs_live D s = (\<forall>n sj. entry s n = Some sj \<longrightarrow> live D s (sj_job sj) \<noteq> None)"

definition refresh_ok :: "('v, 'r, 'c, 'q, 'st) deps \<Rightarrow> desc set \<Rightarrow> ('v, 'r, 'c, 'q, 'st) rstate \<Rightarrow> bool" where
  "refresh_ok D F = (\<lambda>(s, st, keep). libs_ok (d_libs D) \<and> sched_laws (d_sched D) \<and> coherent (d_libs D) F
    \<and> compat (d_libs D) F (w_reg (s_world s)) \<and> jobs_inv D s \<and> jobs_live D s
    \<and> (\<forall>n. cs_get (d_store D) n st = (Inr (stored D st n), st))
    \<and> (\<forall>n coll. stored D st n = Some coll \<longrightarrow> coll_ok F n coll))"

definition wants :: "('v, 'r, 'c, 'q, 'st) deps \<Rightarrow> ('v, 'r, 'c, 'q, 'st) rstate \<Rightarrow> string \<Rightarrow> bool" where
  "wants D = (\<lambda>(s, st, keep) n. case stored D st n of None \<Rightarrow> False | Some coll \<Rightarrow> eligible (s_leaseHolder s) coll)"

definition runs :: "('v, 'r, 'c, 'q, 'st) deps \<Rightarrow> ('v, 'r, 'c, 'q, 'st) rstate \<Rightarrow> string \<Rightarrow> bool" where
  "runs D = (\<lambda>(s, st, keep) n. \<exists>coll sj. stored D st n = Some coll \<and> entry s n = Some sj
     \<and> live D s (sj_job sj) = Some (CollectTask (sj_collector sj))
     \<and> coll_LastModified coll \<le> c_lastModified (s_collectors s ! sj_collector sj))"

definition cleanup_step :: "('v, 'r, 'c, 'q, 'st) deps \<Rightarrow> (('v, 'r, 'c, 'q, 'st) rstate, unit) op" where
  "cleanup_step D = (\<lambda>(s, st, keep). case lockedCleanupJobs D keep s of (r, s') \<Rightarrow> (r, (s', st, keep)))"

lemma schedule_succeeds:
  assumes ok: "libs_ok (d_libs D)" "sched_laws (d_sched D)" "coherent (d_libs D) F" "compat (d_libs D) F (w_reg (s_world s))"
    and q: "s_scheduler s \<noteq> None" and c: "coll_descs coll \<subseteq> F" "known_kinds coll" "0 < quot (Microseconds (coll_Frequency coll)) 1000000"
  shows "\<exists>s' c j. schedule D coll s = (Inr (), s') \<and> s_collectors s' = s_collectors s @ [c] \<and> c_lastModified c = coll_LastModified coll
    \<and> entry s' = (entry s)(coll_Name coll \<mapsto> \<lparr>sj_collector = length (s_collectors s), sj_job = j\<rparr>)
    \<and> live D s' = (live D s)(j \<mapsto> CollectTask (length (s_collectors s))) \<and> compat (d_libs D) F (w_reg (s_world s'))"
proof -
  obtain q0 where q0: "s_scheduler s = Some q0" using q by blast
  let ?i = "length (s_collectors s)"
  obtain c w where fc: "FromCollection (d_libs D) coll (s_world s) = (Inr c, w)" "compat (d_libs D) F (w_reg w)"
      "c_lastModified c = coll_LastModified coll" "c_frequency c = quot (Microseconds (coll_Frequency coll)) 1000000"
    using FromCollection_succeeds[OF ok(1,3,4) c(1,2)] by blast
  have "positive (Seconds (GetFrequency c))" using c(3) fc(4) by (simp add: positive_def GetFrequency_def)
  then obtain j q' where j: "sch_Do (d_sched D) (Seconds (GetFrequency c)) (CollectTask ?i) q0 = (Inr j, q')"
    using ok(2) unfolding sched_laws_def by meson
  let ?s = "lockedAddJob (coll_Name coll) ?i j (s\<lparr>s_world := w, s_collectors := s_collectors s @ [c], s_scheduler := Some q'\<rparr>)"
  have "schedule D coll s = (Inr (), ?s)" by (simp add: schedule_def fc q0 j Let_def)
  moreover have "entry ?s = (entry s)(coll_Name coll \<mapsto> \<lparr>sj_collector = ?i, sj_job = j\<rparr>)" by (simp add: entry_def lockedAddJob_def)
  moreover have "live D ?s = (live D s)(j \<mapsto> CollectTask ?i)"
    by (simp add: fun_eq_iff live_def lockedAddJob_def q0 sch_Do_Inr(4)[OF ok(2) j])
  ultimately show ?thesis using fc by (intro exI[of _ ?s] exI[of _ c] exI[of _ j]) (simp add: lockedAddJob_def)
qed

lemma reschedule_succeeds:
  assumes ok: "libs_ok (d_libs D)" "sched_laws (d_sched D)" "coherent (d_libs D) F" "compat (d_libs D) F (w_reg (s_world s))"
    and inv: "jobs_inv D s" "jobs_live D s"
    and c: "coll_descs coll \<subseteq> F" "known_kinds coll" "0 < quot (Microseconds (coll_Frequency coll)) 1000000"
  shows "\<exists>s'. reschedule D coll s = (Inr (), s') \<and> compat (d_libs D) F (w_reg (s_world s')) \<and> (\<exists>sj. entry s' (coll_Name coll) = Some sj
    \<and> live D s' (sj_job sj) = Some (CollectTask (sj_collector sj)) \<and> coll_LastModified coll \<le> c_lastModified (s_collectors s' ! sj_collector sj))"
proof (cases "entry s (coll_Name coll)")
  case None
  then have "reschedule D coll s = schedule D coll s" by (simp add: reschedule_def lockedGetJob_def entry_def)
  then show ?thesis using schedule_succeeds[OF ok jobs_invD(1)[OF inv(1)] c] by fastforce
next
  case (Some ex)
  show ?thesis
  proof (cases "GetLastModified (s_collectors s ! sj_collector ex) < coll_LastModified coll")
    case False
    moreover have "live D s (sj_job ex) = Some (CollectTask (sj_collector ex))"
      using inv(2) jobs_invD(5)[OF inv(1) Some] Some unfolding jobs_live_def by blast
    ultimately show ?thesis using Some ok(4) by (simp add: reschedule_def lockedGetJob_def entry_def GetLastModified_def)
  next
    case True
    obtain s1 where s1: "removeJob D (sj_job ex) s = (Inr (), s1)" "jobs_inv D s1" "s_world s1 = s_world s"
      using removeJob_effect[OF ok(2) inv(1), of "sj_job ex"] by metis
    have "reschedule D coll s = schedule D coll s1"
      using True Some s1(1) by (simp add: reschedule_def lockedGetJob_def entry_def op_bind_def)
    moreover have "compat (d_libs D) F (w_reg (s_world s1))" using ok(4) s1(3) by simp
    ultimately show ?thesis using schedule_succeeds[OF ok(1-3) _ jobs_invD(1)[OF s1(2)] c] by fastforce
  qed
qed

lemma refresh_one_sync:
  assumes ok: "refresh_ok D F (s, st, keep)" and n: "stored D st n \<noteq> None"
  shows "\<exists>s'. refresh_one D n (s, st, keep) = (Inr (), (s', st, if wants D (s, st, keep) n then insert n keep else keep))
    \<and> refresh_ok D F (s', st, k') \<and> s_leaseHolder s' = s_leaseHolder s \<and> (\<forall>m. m \<noteq> n \<longrightarrow> runs D (s, st, k) m \<longrightarrow> runs D (s', st, k') m)
    \<and> (wants D (s, st, keep) n \<longrightarrow> runs D (s', st, k') n)"
proof -
  obtain coll where coll: "stored D st n = Some coll" using n by blast
  have g: "cs_get (d_store D) n st = (Inr (Some coll), st)" using ok coll by (simp add: refresh_ok_def)
  have cok: "coll_ok F n coll" using ok coll by (simp add: refresh_ok_def)
  show ?thesis
  proof (cases "eligible (s_leaseHolder s) coll")
    case False
    then show ?thesis using ok g coll by (simp add: refresh_one_def wants_def runs_def refresh_ok_def)
  next
    case True
    have nm: "coll_Name coll = n" "coll_descs coll \<subseteq> F" "known_kinds coll" "0 < quot (Microseconds (coll_Frequency coll)) 1000000"
      using cok True by (auto simp: coll_ok_def eligible_def)
    have L: "libs_ok (d_libs D)" "sched_laws (d_sched D)" "coherent (d_libs D) F" "compat (d_libs D) F (w_reg (s_world s))"
        "jobs_inv D s" "jobs_live D s"
      using ok by (simp_all add: refresh_ok_def)
    obtain s' sj where s': "reschedule D coll s = (Inr (), s')" "compat (d_libs D) F (w_reg (s_world s'))" "entry s' n = Some sj"
        "live D s' (sj_job sj) = Some (CollectTask (sj_collector sj))" "coll_LastModified coll \<le> c_lastModified (s_collectors s' ! sj_collector sj)"
      using reschedule_succeeds[OF L nm(2-)] nm(1) by blast
    note R = reschedule_inv[OF L(2,5) s'(1), unfolded nm(1)]
    obtain cs where cs: "s_collectors s' = s_collectors s @ cs" using R by (auto simp: srv_frame_def)
    have jl: "jobs_live D s'" unfolding jobs_live_def
    proof (intro allI impI)
      fix m sj' assume m: "entry s' m = Some sj'"
      show "live D s' (sj_job sj') \<noteq> None"
      proof (cases "m = n")
        case True
        then show ?thesis using m s'(3,4) by simp
      next
        case False
        then have "entry s m = Some sj'" "live D s' (sj_job sj') = live D s (sj_job sj')" using R m by auto
        then show ?thesis using L(6) unfolding jobs_live_def by simp
      qed
    qed
    have "runs D (s', st, k') m" if m: "m \<noteq> n" "runs D (s, st, k) m" for m
    proof -
      obtain cl sj' where e: "stored D st m = Some cl" "entry s m = Some sj'" "live D s (sj_job sj') = Some (CollectTask (sj_collector sj'))"
          "coll_LastModified cl \<le> c_lastModified (s_collectors s ! sj_collector sj')"
        using m(2) by (auto simp: runs_def)
      moreover have "sj_collector sj' < length (s_collectors s)" by (rule jobs_invD(3)[OF L(5) e(2)])
      ultimately show ?thesis using R m(1) by (simp add: runs_def cs nth_append)
    qed
    moreover have "runs D (s', st, k') n" using s' coll by (simp add: runs_def)
    moreover have "refresh_ok D F (s', st, k')" using ok s'(2) R jl by (simp add: refresh_ok_def)
    moreover have "s_leaseHolder s' = s_leaseHolder s" using R by (simp add: srv_frame_def)
    ultimately show ?thesis using g True coll s'(1) by (simp add: refresh_one_def wants_def)
  qed
qed

lemma cleanup_job_compat:
  assumes "libs_ok (d_libs D)" "cleanup_job D keep x s = (r, s')" "compat (d_libs D) F (w_reg (s_world s))"
  shows "compat (d_libs D) F (w_reg (s_world s'))"
  using assms by (cases x) (auto simp: cleanup_job_def op_bind_def removeJob_def Unregister_compat split: if_splits option.splits)

lemma cleanup_step_sync:
  assumes ok: "refresh_ok D F (s, st, keep)"
  shows "\<exists>s'. cleanup_step D (s, st, keep) = (Inr (), (s', st, keep)) \<and> refresh_ok D F (s', st, keep) \<and> s_leaseHolder s' = s_leaseHolder s
    \<and> (\<forall>m \<in> keep. runs D (s, st, keep) m \<longrightarrow> runs D (s', st, keep) m) \<and> (\<forall>m. entry s' m \<noteq> None \<longrightarrow> m \<in> keep)"
proof -
  have L: "libs_ok (d_libs D)" "sched_laws (d_sched D)" "compat (d_libs D) F (w_reg (s_world s))" "jobs_inv D s" "jobs_live D s"
    using ok by (simp_all add: refresh_ok_def)
  obtain s' where s': "lockedCleanupJobs D keep s = (Inr (), s')" "jobs_inv D s'" "srv_frame s s'" "s_collectors s' = s_collectors s"
      "entry s' = entry s |` keep" "\<forall>n \<in> keep. \<forall>sj. entry s n = Some sj \<longrightarrow> live D s' (sj_job sj) = live D s (sj_job sj)"
    using lockedCleanupJobs_effect[OF L(2,4)] by blast
  have "compat (d_libs D) F (w_reg (s_world s'))"
    by (rule for_each_inv[where P = "\<lambda>s. compat (d_libs D) F (w_reg (s_world s))", OF L(3) _ s'(1)[unfolded lockedCleanupJobs_def]])
       (rule cleanup_job_compat[OF L(1)])
  moreover have "jobs_live D s'"
    using L(5) s'(6) unfolding jobs_live_def s'(5) by (metis option.discI restrict_in restrict_out)
  ultimately have "refresh_ok D F (s', st, keep)" using ok s'(2) by (simp add: refresh_ok_def)
  moreover have "runs D (s', st, keep) m" if "m \<in> keep" "runs D (s, st, keep) m" for m
    using that s'(4,5,6) by (auto simp: runs_def)
  moreover have "\<forall>m. entry s' m \<noteq> None \<longrightarrow> m \<in> keep" by (simp add: s'(5) restrict_map_def)
  ultimately show ?thesis using s'(1,3) by (auto simp: cleanup_step_def srv_frame_def)
qed

text \<open>The collector server implements the contract of a refresh.\<close>

interpretation coll_sync: config_sync "refresh_one D" "cleanup_step D" "refresh_ok D F" "\<lambda>(s, st, keep). dom (stored D st)"
    "wants D" "\<lambda>(s, st, keep). keep" "\<lambda>(s, st, keep) n. entry s n \<noteq> None" "runs D" for D F
proof (unfold_locales, goal_cases)
  case (1 x n)
  obtain s st keep where x: "x = (s, st, keep)" by (cases x) blast
  have st: "stored D st n \<noteq> None" using 1(2) by (auto simp: x)
  let ?k = "if wants D (s, st, keep) n then insert n keep else keep"
  from refresh_one_sync[OF 1(1)[unfolded x] st, of ?k keep] obtain s' where
    s': "refresh_one D n (s, st, keep) = (Inr (), (s', st, ?k))" "refresh_ok D F (s', st, ?k)" "s_leaseHolder s' = s_leaseHolder s"
      "\<forall>m. m \<noteq> n \<longrightarrow> runs D (s, st, keep) m \<longrightarrow> runs D (s', st, ?k) m" "wants D (s, st, keep) n \<longrightarrow> runs D (s', st, ?k) n"
    by metis
  have "wants D (s', st, ?k) = wants D (s, st, keep)" using s'(3) by (simp add: wants_def fun_eq_iff split: option.split)
  then show ?case unfolding x using s' by (intro exI[of _ "(s', st, ?k)"]) simp
next
  case (2 x)
  obtain s st keep where x: "x = (s, st, keep)" by (cases x) blast
  from cleanup_step_sync[OF 2[unfolded x]] obtain s' where
    s': "cleanup_step D (s, st, keep) = (Inr (), (s', st, keep))" "refresh_ok D F (s', st, keep)" "s_leaseHolder s' = s_leaseHolder s"
      "\<forall>m \<in> keep. runs D (s, st, keep) m \<longrightarrow> runs D (s', st, keep) m" "\<forall>m. entry s' m \<noteq> None \<longrightarrow> m \<in> keep"
    by blast
  have "wants D (s', st, keep) = wants D (s, st, keep)" using s'(3) by (simp add: wants_def fun_eq_iff split: option.split)
  then show ?case unfolding x using s' by (intro exI[of _ "(s', st, keep)"]) simp
qed

lemma lockedRefresh_sync:
  assumes "refresh_ok D F (s, st, {})" "cs_names (d_store D) st = (Inr names, st)" "set names = dom (stored D st)"
  shows "\<exists>s'. lockedRefresh D (s, st) = (Inr (), (s', st)) \<and> refresh_ok D F (s', st, {}) \<and> s_leaseHolder s' = s_leaseHolder s
    \<and> (\<forall>n. entry s' n \<noteq> None \<longleftrightarrow> (\<exists>coll. stored D st n = Some coll \<and> coll_Enabled coll \<and> (coll_Scope coll = Cluster \<longrightarrow> s_leaseHolder s)))
    \<and> (\<forall>n sj coll. entry s' n = Some sj \<longrightarrow> stored D st n = Some coll \<longrightarrow> live D s' (sj_job sj) = Some (CollectTask (sj_collector sj))
         \<and> coll_LastModified coll \<le> c_lastModified (s_collectors s' ! sj_collector sj))"
proof -
  let ?x = "(s, st, {} :: string set)"
  have sub: "set names \<subseteq> dom (stored D st)" and w: "\<And>n. wants D ?x n \<Longrightarrow> n \<in> set names"
    using assms(3) by (auto simp: wants_def split: option.splits)
  obtain x1 x2 where x: "for_each (refresh_one D) names ?x = (Inr (), x1)" "cleanup_step D x1 = (Inr (), x2)" "refresh_ok D F x2"
      "(case x1 of (s, st, keep) \<Rightarrow> keep) = {n. wants D ?x n}" "\<forall>n. wants D ?x n \<longrightarrow> runs D x2 n"
      "\<forall>n. (case x2 of (s, st, keep) \<Rightarrow> \<lambda>n. entry s n \<noteq> None) n \<longrightarrow> wants D ?x n"
    using coll_sync.sync[OF assms(1), of names] sub w by auto
  obtain s1 st1 k1 where x1: "x1 = (s1, st1, k1)" by (cases x1) blast
  obtain s2 st2 k2 where x2: "x2 = (s2, st2, k2)" by (cases x2) blast
  have c: "lockedCleanupJobs D k1 s1 = (Inr (), s2)" "st2 = st1" using x(2) by (auto simp: x1 x2 cleanup_step_def split: prod.splits)
  have st1: "st1 = st"
  proof -
    have "\<forall>n. cs_get (d_store D) n st = (Inr (stored D st n), st)" using assms(1) by (simp add: refresh_ok_def)
    then have "(case y of (a, b, c) \<Rightarrow> b) = st \<Longrightarrow> refresh_one D n y = (r, y') \<Longrightarrow> (case y' of (a, b, c) \<Rightarrow> b) = st" for n y y' r
      by (auto simp: refresh_one_def split: prod.splits option.splits if_splits)
    from for_each_inv[where P = "\<lambda>y. (case y of (a, b, c) \<Rightarrow> b) = st", OF _ _ x(1)] this show ?thesis by (simp add: x1)
  qed
  let ?s = "s2\<lparr>s_refresh := (s_refresh s2)\<lparr>RefreshCounts := inc ''metric_collector'' (RefreshCounts (s_refresh s2))\<rparr>\<rparr>"
  have eq: "entry ?s = entry s2" "live D ?s = live D s2" "used D ?s = used D s2" by (simp_all add: entry_def live_def used_def fun_eq_iff)
  have r: "lockedRefresh D (s, st) = (Inr (), (?s, st))"
    using x(1) c st1 by (simp add: lockedRefresh_def assms(2) x1)
  have inv: "refresh_ok D F (?s, st, {})" using x(3) st1 c(2) by (simp add: x2 refresh_ok_def jobs_inv_def jobs_live_def eq)
  have "s_leaseHolder ?s = s_leaseHolder s"
    using refresh_loop_inv[OF _ _ x(1)[unfolded x1]] lockedCleanupJobs_effect[of D s1 k1] c(1) assms(1)
    by (auto simp: refresh_ok_def srv_frame_def)
  moreover have "entry ?s n \<noteq> None \<longleftrightarrow> (\<exists>coll. stored D st n = Some coll \<and> coll_Enabled coll \<and> (coll_Scope coll = Cluster \<longrightarrow> s_leaseHolder s))" for n
  proof -
    have "entry s2 n \<noteq> None \<longleftrightarrow> wants D ?x n" using x(5,6) by (auto simp: x2 runs_def)
    then show ?thesis by (auto simp: eq wants_def eligible_def split: option.splits)
  qed
  moreover have "live D ?s (sj_job sj) = Some (CollectTask (sj_collector sj)) \<and> coll_LastModified coll \<le> c_lastModified (s_collectors ?s ! sj_collector sj)"
    if "entry ?s n = Some sj" "stored D st n = Some coll" for n sj coll
  proof -
    have "runs D x2 n" using x(5,6) that by (auto simp: x2 eq)
    then show ?thesis using that st1 c(2) by (auto simp: x2 runs_def eq)
  qed
  ultimately show ?thesis using r inv by blast
qed

section \<open>Invariants of a running server\<close>

lemma maybeRefresh_inv:
  assumes "sched_laws (d_sched D)" "jobs_inv D s" "maybeRefresh D busy (s, st) = (r, (s', st'))"
  shows "jobs_inv D s' \<and> s_leaseHolder s' = s_leaseHolder s"
  using lockedRefresh_inv[OF assms(1,2)] assms(2,3) by (auto simp: maybeRefresh_def split: if_splits)

lemma setLeaseHolder_inv: "jobs_inv D (setLeaseHolder b s) = jobs_inv D s" "s_leaseHolder (setLeaseHolder b s) = b"
  by (simp_all add: setLeaseHolder_def jobs_inv_def entry_def live_def used_def)

lemma run_job_inv:
  assumes "jobs_inv D s" "run_job D q as now elapsed i s = (r, s')"
  shows "jobs_inv D s' \<and> s_leaseHolder s' = s_leaseHolder s"
proof -
  have "s_scheduler s' = s_scheduler s" "s_scheduledJobs s' = s_scheduledJobs s" "length (s_collectors s') = length (s_collectors s)"
      "s_leaseHolder s' = s_leaseHolder s"
    using assms(2) by (auto simp: run_job_def Let_def split: prod.splits sum.splits fault.splits if_splits)
  then show ?thesis using assms(1) by (simp add: jobs_inv_def entry_def live_def used_def)
qed

definition node_inv :: "('v, 'r, 'c, 'q, 'st) deps \<Rightarrow> ('v, 'r, 'c, 'q, 'st) node \<Rightarrow> bool" where
  "node_inv D = (\<lambda>(s, st, p). jobs_inv D s \<and> (p = Holding \<longrightarrow> s_leaseHolder s) \<and> (p = Cancelled \<longrightarrow> \<not> s_leaseHolder s))"

lemma lease_step_inv:
  assumes "sched_laws (d_sched D)" "lease_step D stopping x y" "node_inv D x"
  shows "node_inv D y"
  using assms(2,3)
proof (induction rule: lease_step.induct)
  case (acquire busy s st y)
  obtain r s' st' where m: "maybeRefresh D busy (setLeaseHolder True s, st) = (r, (s', st'))" by (metis surj_pair)
  have "jobs_inv D s' \<and> s_leaseHolder s'"
    using maybeRefresh_inv[OF assms(1) _ m] acquire.prems by (simp add: node_inv_def setLeaseHolder_inv)
  then show ?case using acquire.hyps m by (auto simp: lease_acquired_def node_inv_def split: sum.splits fault.splits)
next
  case (released busy s st y)
  obtain r s' st' where m: "maybeRefresh D busy (setLeaseHolder False s, st) = (r, (s', st'))" by (metis surj_pair)
  have "jobs_inv D s' \<and> \<not> s_leaseHolder s'"
    using maybeRefresh_inv[OF assms(1) _ m] released.prems by (simp add: node_inv_def setLeaseHolder_inv)
  then show ?case using released m
    by (auto simp: lease_done_def node_inv_def setLeaseHolder_inv split: sum.splits fault.splits if_splits)
next
  case (cancel busy s st y)
  obtain r s' st' where m: "maybeRefresh D busy (setLeaseHolder False s, st) = (r, (s', st'))" by (metis surj_pair)
  have "jobs_inv D s' \<and> \<not> s_leaseHolder s'"
    using maybeRefresh_inv[OF assms(1) _ m] cancel.prems by (simp add: node_inv_def setLeaseHolder_inv)
  then show ?case using cancel.hyps m by (auto simp: lease_released_def node_inv_def split: sum.splits fault.splits)
qed

lemma coll_Refresh_inv:
  assumes "sched_laws (d_sched D)" "coll_Refresh D (s, st) = (r, (s', st'))" "node_inv D (s, st, p)"
  shows "node_inv D (s', st', p)"
  using lockedRefresh_inv[OF assms(1) _ assms(2)[unfolded coll_Refresh_def]] assms(3) by (auto simp: node_inv_def)

lemma job_step_inv:
  assumes "sched_laws (d_sched D)" "job_step D t x y" "node_inv D x"
  shows "node_inv D y"
  using assms(2,3)
proof (induction rule: job_step.induct)
  case (tick busy s st r s' st' p)
  then show ?case using maybeRefresh_inv[OF assms(1) _ tick.hyps(1)] by (auto simp: node_inv_def)
next
  case (run q as now elapsed i s s' st p)
  then show ?case using run_job_inv[OF _ run.hyps] by (auto simp: node_inv_def)
qed

lemma node_step_inv:
  assumes "sched_laws (d_sched D)" "node_step D x y" "node_inv D x"
  shows "node_inv D y"
  using assms(2,3)
  by (induction rule: node_step.induct)
     (auto simp: node_inv_def dest: lease_step_inv[OF assms(1)] job_step_inv[OF assms(1)] coll_Refresh_inv[OF assms(1)])

lemma start_inv:
  assumes laws: "sched_laws (d_sched D)" and new: "coll_New reg cfg (Some q) w = Inr s"
    and q: "\<And>j i. sch_live (d_sched D) q j \<noteq> Some (CollectTask i)" and st: "start D lease (s, st, NotStarted) = (r, x)"
  shows "node_inv D x"
proof -
  have s: "s_scheduler s = Some q" "s_scheduledJobs s = []" "\<not> s_leaseHolder s"
    using new by (auto simp: coll_New_def Let_def split: prod.splits sum.splits)
  have e: "entry s = Map.empty" by (simp add: entry_def s fun_eq_iff)
  have inv0: "jobs_inv D (s\<lparr>s_scheduler := Some q'\<rparr>)" if "\<And>j i. sch_live (d_sched D) q' j \<noteq> Some (CollectTask i)" for q'
    using that s(2) by (simp add: jobs_inv_def live_def entry_def)
  show ?thesis
  proof (cases lease)
    case (Some e)
    then have "x = (s, st, NotStarted)" using st s(1) by (simp add: start_def)
    moreover have "s = s\<lparr>s_scheduler := Some q\<rparr>" using s(1) by simp
    ultimately show ?thesis using inv0[OF q] s(3) by (simp add: node_inv_def)
  next
    case None
    obtain a q' where d: "sch_Do (d_sched D) (Duration (cfg_Refresh (s_config s))) (RefreshTask ''metric_collector'') q = (a, q')" by fastforce
    have x: "x = (s\<lparr>s_scheduler := Some q'\<rparr>, st, Competing)" using st s(1) None d by (cases a) (auto simp: start_def)
    have "sch_live (d_sched D) q' j \<noteq> Some (CollectTask i)" for j i
      using q sch_Do_Inl(3)[OF laws, of _ _ q _ q'] sch_Do_Inr(4)[OF laws, of _ _ q _ q'] d by (cases a) (auto split: if_splits)
    then show ?thesis using inv0 x by (simp add: node_inv_def)
  qed
qed

text \<open>
  C26: in every state a started server can reach, whatever the store answers, whichever
  collections cannot be registered or scheduled, and however refreshes, lease changes and runs
  interleave: every job that runs a collector is the job of exactly one entry of the table, and
  different entries have different jobs, so no collection is run by two jobs and a job that is
  dropped from the table has left the scheduler; while the callback holds the lease the flag
  is set, and once the routine has given up the lease for good it is not.
\<close>

theorem server_tracks_jobs:
  assumes "sched_laws (d_sched D)" "coll_New reg cfg (Some q) w = Inr s" "\<And>j i. sch_live (d_sched D) q j \<noteq> Some (CollectTask i)"
    and "start D lease (s, st, NotStarted) = (r, x)" "(node_step D)\<^sup>*\<^sup>* x (s', st', p)"
  shows "(\<forall>j i. live D s' j = Some (CollectTask i) \<longrightarrow> (\<exists>!n. \<exists>sj. entry s' n = Some sj \<and> sj_job sj = j)
        \<and> (\<exists>n. entry s' n = Some \<lparr>sj_collector = i, sj_job = j\<rparr>))
    \<and> (p = Holding \<longrightarrow> s_leaseHolder s') \<and> (p = Cancelled \<longrightarrow> \<not> s_leaseHolder s')"
proof -
  have "node_inv D x" by (rule start_inv[OF assms(1-4)])
  with assms(5) have inv: "node_inv D (s', st', p)"
    by (induction rule: rtranclp_induct) (auto intro: node_step_inv[OF assms(1)])
  then have j: "jobs_inv D s'" by (simp add: node_inv_def)
  have "\<exists>!n. \<exists>sj. entry s' n = Some sj \<and> sj_job sj = k" if "entry s' n = Some \<lparr>sj_collector = i, sj_job = k\<rparr>" for n i k
    using that jobs_invD(6)[OF j that] by (intro ex1I[of _ n]) (fastforce)+
  then have "(\<exists>!n. \<exists>sj. entry s' n = Some sj \<and> sj_job sj = k) \<and> (\<exists>n. entry s' n = Some \<lparr>sj_collector = i, sj_job = k\<rparr>)"
    if "live D s' k = Some (CollectTask i)" for k i using jobs_invD(7)[OF j that] by blast
  then show ?thesis using inv unfolding node_inv_def prod.case by blast
qed

text \<open>
  C27: a refresh brings the jobs in line with the store.  If the store answers and its enabled
  collections can be registered and have a frequency of at least a second, then the refresh
  returns without error, and afterwards there is a job exactly for the collections that are
  enabled and that this node has to run (those of node scope, and those of cluster scope if it
  holds the lease); each job is live in the scheduler and runs a collector that is not older than
  the stored configuration.
\<close>

theorem refresh_synchronises:
  assumes "refresh_ok D F (s, st, {})" "cs_names (d_store D) st = (Inr names, st)" "set names = dom (stored D st)"
  shows "\<exists>s'. coll_Refresh D (s, st) = (Inr (), (s', st)) \<and> refresh_ok D F (s', st, {}) \<and> s_leaseHolder s' = s_leaseHolder s
    \<and> (\<forall>n. entry s' n \<noteq> None \<longleftrightarrow> (\<exists>coll. stored D st n = Some coll \<and> coll_Enabled coll \<and> (coll_Scope coll = Cluster \<longrightarrow> s_leaseHolder s)))
    \<and> (\<forall>n sj coll. entry s' n = Some sj \<longrightarrow> stored D st n = Some coll \<longrightarrow> live D s' (sj_job sj) = Some (CollectTask (sj_collector sj))
         \<and> coll_LastModified coll \<le> c_lastModified (s_collectors s' ! sj_collector sj))"
  unfolding coll_Refresh_def by (rule lockedRefresh_sync[OF assms])

text \<open>A configuration: the reference libraries, the in-memory store with one collection of cluster scope.\<close>

definition mem_collections_store :: "(Memory, Collection) conf_store" where
  "mem_collections_store = \<lparr>cs_names = \<lambda>m. (mem_GetCollectionNames m, m), cs_get = \<lambda>n m. (mem_GetCollection m n, m)\<rparr>"

definition ex_deps :: "(list_vec, list_reg, int \<times> (string, cacheValue) gomap, nat \<times> (nat, task) gomap, Memory) deps" where
  "ex_deps = \<lparr>d_libs = ref_libs, d_sched = list_sched_api, d_store = mem_collections_store\<rparr>"

definition ex_server :: "(list_vec, list_reg, int \<times> (string, cacheValue) gomap, nat \<times> (nat, task) gomap) serverImpl" where
  "ex_server = projr (coll_New (\<lambda>x r. Inr r) ex_config (Some (0, [])) ex_world)"

definition ex_mem1 :: Memory where
  "ex_mem1 = ex_mem\<lparr>mem_collections := Some [(''sessions'', ex_sessions [])]\<rparr>"

lemma ex_New: "coll_New (\<lambda>x r. Inr r) ex_config (Some (0, [])) ex_world = Inr ex_server"
  and ex_server_fields: "s_scheduler ex_server = Some (0, [])" "s_scheduledJobs ex_server = []" "s_world ex_server = ex_world"
    "s_leaseHolder ex_server = False" "s_config ex_server = ex_config" "s_collectors ex_server = []"
  by (simp_all add: ex_server_def coll_New_def ex_config_def Let_def)

lemma ex_store:
  "cs_get (d_store ex_deps) n ex_mem1 = (Inr (if n = ''sessions'' then Some (ex_sessions []) else None), ex_mem1)"
  "cs_names (d_store ex_deps) ex_mem1 = (Inr [''sessions''], ex_mem1)"
  by (simp_all add: ex_deps_def mem_collections_store_def ex_mem1_def mem_GetCollection_def mem_GetCollectionNames_def getNames_def
      guarded_def with_map_def ex_mem_def NewMemoryStore_def keys_def)

lemma ex_stored: "stored ex_deps ex_mem1 = [''sessions'' \<mapsto> ex_sessions []]"
  by (simp add: stored_def ex_store fun_eq_iff)

lemma ex_refresh_ok:
  "refresh_ok ex_deps (coll_descs (ex_sessions [])) (setLeaseHolder b ex_server, ex_mem1, {})"
proof -
  have "coherent ref_libs (coll_descs (ex_sessions []))"
    by (auto simp: coherent_def coll_descs_def ex_sessions_def ref_libs_def list_reg_api_def list_vec_api_def)
  moreover have "compat ref_libs F (w_reg ex_world)" for F
    by (auto simp: compat_def ref_libs_def list_reg_api_def ex_world_def)
  moreover have "jobs_inv ex_deps ex_server" "jobs_live ex_deps (setLeaseHolder b ex_server)"
    by (simp_all add: jobs_inv_def jobs_live_def entry_def live_def used_def ex_server_fields ex_deps_def list_sched_api_def setLeaseHolder_def)
  moreover have "coll_ok (coll_descs (ex_sessions [])) ''sessions'' (ex_sessions [])"
    by (simp add: coll_ok_def ex_sessions_def known_kinds_def quot_def)
  moreover have "libs_ok (d_libs ex_deps)" "sched_laws (d_sched ex_deps)" "d_libs ex_deps = ref_libs"
    by (simp_all add: ex_deps_def ref_libs_ok list_sched_laws)
  moreover have "s_world (setLeaseHolder b ex_server) = ex_world" by (simp add: setLeaseHolder_def ex_server_fields)
  ultimately show ?thesis by (simp add: refresh_ok_def ex_stored ex_store setLeaseHolder_inv)
qed

text \<open>With the lease the collection is scheduled, without it it is not.\<close>

theorem refresh_synchronises_witness:
  "\<exists>s1 s2. coll_Refresh ex_deps (setLeaseHolder True ex_server, ex_mem1) = (Inr (), (s1, ex_mem1)) \<and> entry s1 ''sessions'' \<noteq> None
    \<and> coll_Refresh ex_deps (setLeaseHolder False ex_server, ex_mem1) = (Inr (), (s2, ex_mem1)) \<and> entry s2 ''sessions'' = None"
proof -
  have names: "set [''sessions''] = dom (stored ex_deps ex_mem1)" by (simp add: ex_stored)
  have sc: "coll_Scope (ex_sessions []) = Cluster" "coll_Enabled (ex_sessions [])" by (simp_all add: ex_sessions_def)
  obtain s1 where s1: "coll_Refresh ex_deps (setLeaseHolder True ex_server, ex_mem1) = (Inr (), (s1, ex_mem1))" "entry s1 ''sessions'' \<noteq> None"
    using refresh_synchronises[OF ex_refresh_ok ex_store(2) names, of True] sc by (auto simp: ex_stored setLeaseHolder_inv)
  obtain s2 where s2: "coll_Refresh ex_deps (setLeaseHolder False ex_server, ex_mem1) = (Inr (), (s2, ex_mem1))" "entry s2 ''sessions'' = None"
    using refresh_synchronises[OF ex_refresh_ok ex_store(2) names, of False] sc by (fastforce simp: ex_stored setLeaseHolder_inv)
  show ?thesis using s1 s2 by blast
qed

lemma ex_start:
  "start ex_deps None (ex_server, ex_mem1, NotStarted)
     = (Inr (), (ex_server\<lparr>s_scheduler := Some (1, [(0, RefreshTask ''metric_collector'')])\<rparr>, ex_mem1, Competing))"
  by (simp add: start_def ex_server_fields ex_deps_def list_sched_api_def ex_config_def positive_def)

theorem server_tracks_jobs_witness:
  "\<exists>s'. (node_step ex_deps)\<^sup>*\<^sup>* (ex_server\<lparr>s_scheduler := Some (1, [(0, RefreshTask ''metric_collector'')])\<rparr>, ex_mem1, Competing) (s', ex_mem1, Holding)
    \<and> s_leaseHolder s' \<and> (\<forall>j i. live ex_deps s' j = Some (CollectTask i) \<longrightarrow> (\<exists>n. entry s' n = Some \<lparr>sj_collector = i, sj_job = j\<rparr>))"
proof -
  let ?x = "ex_server\<lparr>s_scheduler := Some (1, [(0, RefreshTask ''metric_collector'')])\<rparr>"
  have "lease_acquired ex_deps True (?x, ex_mem1) = Inr (setLeaseHolder True ?x, ex_mem1, Holding)"
    by (simp add: lease_acquired_def maybeRefresh_def)
  then have "node_step ex_deps (?x, ex_mem1, Competing) (setLeaseHolder True ?x, ex_mem1, Holding)" by (rule node_step.lease[OF lease_step.acquire])
  then have st: "(node_step ex_deps)\<^sup>*\<^sup>* (?x, ex_mem1, Competing) (setLeaseHolder True ?x, ex_mem1, Holding)" by blast
  have "sch_live (d_sched ex_deps) (0, []) j \<noteq> Some (CollectTask i)" for j i by (simp add: ex_deps_def list_sched_api_def)
  moreover have "sched_laws (d_sched ex_deps)" by (simp add: ex_deps_def list_sched_laws)
  ultimately show ?thesis using server_tracks_jobs[OF _ ex_New _ ex_start st] st by blast
qed

section \<open>Failures\<close>



text \<open>
  If a collection is deleted between the listing of the names and its lookup, the lookup
  returns neither a collection nor an error, and the refresh dereferences a nil pointer.
\<close>

theorem refresh_deleted_collection_panics:
  assumes "cs_names (d_store D) st = (Inr (n # ns), st1)" "cs_get (d_store D) n st1 = (Inr None, st2)"
  shows "lockedRefresh D (s, st) = (Inl (Panic NilDereference), (s, st2))"
  using assms by (simp add: lockedRefresh_def op_bind_def refresh_one_def)

theorem refresh_deleted_collection_panics_witness:
  "lockedRefresh (ex_deps\<lparr>d_store := mem_collections_store\<lparr>cs_names := \<lambda>m. (mem_GetCollectionNames m, projr (mem_DeleteCollection ''sessions'' m))\<rparr>\<rparr>)
     (ex_server, ex_mem1) = (Inl (Panic NilDereference), (ex_server, ex_mem1\<lparr>mem_collections := Some []\<rparr>))"
  by (rule refresh_deleted_collection_panics[where n = "''sessions''" and ns = "[]" and ?st1.0 = "ex_mem1\<lparr>mem_collections := Some []\<rparr>"])
    (simp_all add: mem_collections_store_def ex_mem1_def mem_GetCollection_def mem_GetCollectionNames_def getNames_def
      guarded_def with_map_def ex_mem_def NewMemoryStore_def keys_def mem_DeleteCollection_def)

text \<open>
  C34: a collection whose changed configuration cannot be registered stops being collected, without
  an error of the refresh: its job has been removed before the new collector is built, its entry
  stays in the table and no job is live for it.
\<close>

theorem failed_change_stops_collection:
  assumes "sched_laws (d_sched D)" "jobs_inv D s" "entry s (coll_Name coll) = Some ex"
    and "c_lastModified (s_collectors s ! sj_collector ex) < coll_LastModified coll"
    and "FromCollection (d_libs D) coll (s_world s) = (Inl (Err e), w)"
    and "cs_get (d_store D) (coll_Name coll) st = (Inr (Some coll), st')" "eligible (s_leaseHolder s) coll"
  shows "\<exists>s'. refresh_one D (coll_Name coll) (s, st, keep) = (Inr (), (s', st', insert (coll_Name coll) keep))
    \<and> entry s' (coll_Name coll) = Some ex \<and> live D s' (sj_job ex) = None"
proof -
  obtain s1 where s1: "removeJob D (sj_job ex) s = (Inr (), s1)" "entry s1 = entry s" "live D s1 = (live D s)(sj_job ex := None)"
      "s_world s1 = s_world s"
    using removeJob_effect[OF assms(1,2), of "sj_job ex"] by metis
  have "reschedule D coll s = (Inr (), s1\<lparr>s_world := w\<rparr>)"
    using assms(3-5) s1(1,4) by (simp add: reschedule_def lockedGetJob_def entry_def GetLastModified_def op_bind_def schedule_def)
  moreover have "entry (s1\<lparr>s_world := w\<rparr>) = entry s1" "live D (s1\<lparr>s_world := w\<rparr>) = live D s1" by (simp_all add: entry_def live_def fun_eq_iff)
  ultimately show ?thesis using assms(3,6,7) s1(2,3) by (simp add: refresh_one_def)
qed

text \<open>A new help text for one of the metrics, in a server that already runs the collection.\<close>

definition ex_changed :: Collection where
  "ex_changed = (ex_sessions [])\<lparr>coll_LastModified := 1,
     coll_Metrics := [\<lparr>metric_Name = ''open'', metric_Kind = Gauge, metric_Help = ''new''\<rparr>]\<rparr>"

definition ex_running :: "(list_vec, list_reg, int \<times> (string, cacheValue) gomap, nat \<times> (nat, task) gomap) serverImpl" where
  "ex_running = ex_server\<lparr>s_leaseHolder := True, s_world := ex_w [], s_collectors := [ex_c []],
     s_scheduler := Some (1, [(0, CollectTask 0)]), s_scheduledJobs := [(''sessions'', \<lparr>sj_collector = 0, sj_job = 0\<rparr>)]\<rparr>"

theorem failed_change_stops_collection_witness:
  "\<exists>s'. refresh_one ex_deps ''sessions'' (ex_running, ex_mem\<lparr>mem_collections := Some [(''sessions'', ex_changed)]\<rparr>, {})
      = (Inr (), (s', ex_mem\<lparr>mem_collections := Some [(''sessions'', ex_changed)]\<rparr>, {''sessions''}))
    \<and> entry s' ''sessions'' = Some \<lparr>sj_collector = 0, sj_job = 0\<rparr> \<and> live ex_deps s' 0 = None"
proof -
  let ?m = "ex_mem\<lparr>mem_collections := Some [(''sessions'', ex_changed)]\<rparr>"
  have D: "d_libs ex_deps = ref_libs" "d_sched ex_deps = list_sched_api" by (simp_all add: ex_deps_def)
  have n: "coll_Name ex_changed = ''sessions''" by (simp add: ex_changed_def ex_sessions_def)
  have e: "entry ex_running (coll_Name ex_changed) = Some \<lparr>sj_collector = 0, sj_job = 0\<rparr>" by (simp add: entry_def ex_running_def n)
  have i: "jobs_inv ex_deps ex_running"
    by (simp add: jobs_inv_def entry_def live_def used_def ex_running_def D list_sched_api_def)
  have m: "c_lastModified (s_collectors ex_running ! 0) < coll_LastModified ex_changed"
    by (simp add: ex_running_def ex_changed_def ex_c_def ex_sessions_def FromCollection_def ref_libs_def ex_world_def op_bind_def AddGauge_def
      AddCounter_def add_metric_def Let_def list_vec_api_def list_reg_api_def lr_accepts_def getAllLabels_def metricName_def Gauge_def Counter_def)
  have "\<exists>e w. FromCollection ref_libs ex_changed (ex_w []) = (Inl (Err e), w)"
    by (simp add: ex_changed_def ex_w_def ex_sessions_def FromCollection_def ref_libs_def ex_world_def op_bind_def AddGauge_def
      AddCounter_def add_metric_def Let_def list_vec_api_def list_reg_api_def lr_accepts_def getAllLabels_def metricName_def Gauge_def Counter_def)
  then obtain x w where f: "FromCollection (d_libs ex_deps) ex_changed (s_world ex_running) = (Inl (Err x), w)"
    by (auto simp: D ex_running_def)
  have g: "cs_get (d_store ex_deps) (coll_Name ex_changed) ?m = (Inr (Some ex_changed), ?m)"
    by (simp add: n ex_deps_def mem_collections_store_def mem_GetCollection_def guarded_def with_map_def ex_mem_def NewMemoryStore_def)
  have el: "eligible (s_leaseHolder ex_running) ex_changed" by (simp add: eligible_def ex_running_def ex_changed_def ex_sessions_def)
  show ?thesis
    using failed_change_stops_collection[OF _ i e _ f g el, of "{}"] m by (simp add: D list_sched_laws n)
qed

end
