(* ===== verification/Scanner_Parser.thy ===== *)
theory Scanner_Parser
  imports Translator Collector
begin

text \<open>
  The parsers of log lines, \<^verbatim>\<open>internal/scanner/crdbv2.go\<close> and \<^verbatim>\<open>crdbv2auth.go\<close>, with the test of
  \<^verbatim>\<open>scanner.Metric\<close>.  A line is a string of bytes.  The expressions of the configuration are matchers,
  as in the translator; the two expressions the code fixes itself are written out.  The decoder of
  the JSON payload is an argument.
\<close>

section \<open>Strings\<close>

text \<open>\<^verbatim>\<open>strings.Cut\<close> and \<^verbatim>\<open>strings.SplitN\<close> for a separator of one byte.\<close>

definition cut :: "char \<Rightarrow> string \<Rightarrow> string \<times> string \<times> bool" where
  "cut d s = (let before = takeWhile (\<lambda>c. c \<noteq> d) s in
     if d \<in> set s then (before, drop (Suc (length before)) s, True) else (s, [], False))"

fun splitN :: "char \<Rightarrow> string \<Rightarrow> nat \<Rightarrow> string list" where
  "splitN d s 0 = []"
| "splitN d s (Suc 0) = [s]"
| "splitN d s (Suc (Suc n)) = (case cut d s of (a, b, found) \<Rightarrow> if found then a # splitN d b (Suc n) else [a])"

definition TrimPrefix :: "string \<Rightarrow> string \<Rightarrow> string" where
  "TrimPrefix s p = (if take (length p) s = p then drop (length p) s else s)"

definition TrimSuffix :: "string \<Rightarrow> string \<Rightarrow> string" where
  "TrimSuffix s p = (if length p \<le> length s \<and> drop (length s - length p) s = p then take (length s - length p) s else s)"

section \<open>Lines\<close>

definition is_digit :: "char \<Rightarrow> bool" where
  "is_digit c = (0x30 \<le> byte c \<and> byte c \<le> 0x39)"

text \<open>\<^verbatim>\<open>^[FEIW][0-9][0-9][0-9][0-9][0-9][0-9] \<close>, with a space at the end.\<close>

definition crdbPrefix :: "string \<Rightarrow> bool" where
  "crdbPrefix l = (8 \<le> length l \<and> l ! 0 \<in> {CHR ''F'', CHR ''E'', CHR ''I'', CHR ''W''}
     \<and> list_all is_digit (take 6 (drop 1 l)) \<and> l ! 7 = CHR '' '')"

record ScanMetric =
  sm_counter :: nat
  sm_exclude_String :: string
  sm_exclude :: matcher
  sm_regex :: matcher

definition Match :: "ScanMetric \<Rightarrow> string \<Rightarrow> bool" where
  "Match m line = (if sm_exclude_String m \<noteq> [] \<and> sm_exclude m line then False else sm_regex m line)"

section \<open>The format of CockroachDB logs\<close>

definition v2_module :: "string \<Rightarrow> string" where
  "v2_module line = (let fields = splitN (CHR '' '') line 4 in
     if length fields = 4
     then (case cut (CHR ''@'') (fields ! 3) of (_, after, found) \<Rightarrow>
             if found then fst (cut (CHR '':'') after) else fst (cut (CHR '':'') (fields ! 3)))
     else [])"

definition counter_Inc :: "('v, 'r, 'c) libs \<Rightarrow> nat \<Rightarrow> string list \<Rightarrow> (('v, 'r) world, unit) op" where
  "counter_Inc L i ls w = (case vec_add (lib_vec L) (w_vecs w ! i) ls (Fin 1) of
      Inl e \<Rightarrow> (Inl e, w)
    | Inr v \<Rightarrow> (Inr (), upd_vec i v w))"

definition CRDBv2Parser_Parse :: "('v, 'r, 'c) libs \<Rightarrow> string \<Rightarrow> ScanMetric \<Rightarrow> (('v, 'r) world, unit) op" where
  "CRDBv2Parser_Parse L line m w =
    (if \<not> crdbPrefix line then (Inr (), w)
     else if Match m line then counter_Inc L (sm_counter m) [[line ! 0], v2_module line] w
     else (Inr (), w))"

section \<open>The format of authentication logs\<close>

record authFields =
  EventType :: string
  InstanceID :: int
  Method :: string
  SystemIdentity :: string
  Timestamp :: int
  Transport :: string
  User :: string

definition is_word :: "char \<Rightarrow> bool" where
  "is_word c = (is_digit c \<or> (0x41 \<le> byte c \<and> byte c \<le> 0x5A) \<or> (0x61 \<le> byte c \<and> byte c \<le> 0x7A) \<or> byte c = 0x5F)"

text \<open>\<^verbatim>\<open>={"\w+":\<close> at the start of a string, and the payload behind the \<^verbatim>\<open>=\<close> of its first occurrence in a line.\<close>

definition json_here :: "string \<Rightarrow> bool" where
  "json_here s = (take 3 s = ''={'' @ [quo] \<and>
     (let word = takeWhile is_word (drop 3 s) in word \<noteq> [] \<and> take 2 (drop (3 + length word) s) = [quo, CHR '':'']))"

fun json_payload :: "string \<Rightarrow> string option" where
  "json_payload [] = None"
| "json_payload (c # s) = (if json_here (c # s) then Some s else json_payload s)"

text \<open>The quotation marks around redactable data, in UTF-8.\<close>

definition trimUser :: "string \<Rightarrow> string" where
  "trimUser s = TrimSuffix (TrimPrefix s [chr 0xE2, chr 0x80, chr 0xB9]) [chr 0xE2, chr 0x80, chr 0xBA]"

type_synonym json_Unmarshal = "string \<Rightarrow> go_error + authFields"

definition parseAuthLine :: "json_Unmarshal \<Rightarrow> string \<Rightarrow> authFields option result" where
  "parseAuthLine unmarshal line = (case json_payload line of
      None \<Rightarrow> Inr None
    | Some payload \<Rightarrow> (case unmarshal payload of
        Inl e \<Rightarrow> Inl (Err e)
      | Inr f \<Rightarrow> Inr (Some (f\<lparr>User := trimUser (User f), SystemIdentity := trimUser (SystemIdentity f)\<rparr>))))"

definition auth_labels :: "authFields \<Rightarrow> string list" where
  "auth_labels f = [User f, SystemIdentity f, Method f, Transport f, EventType f]"

definition CRDBv2AuthParser_Parse :: "json_Unmarshal \<Rightarrow> ('v, 'r, 'c) libs \<Rightarrow> string \<Rightarrow> ScanMetric \<Rightarrow> (('v, 'r) world, unit) op" where
  "CRDBv2AuthParser_Parse unmarshal L line m w =
    (if \<not> crdbPrefix line then (Inr (), w)
     else if Match m line then
       (case parseAuthLine unmarshal line of
          Inl e \<Rightarrow> (Inl e, w)
        | Inr None \<Rightarrow> (Inr (), w)
        | Inr (Some f) \<Rightarrow> counter_Inc L (sm_counter m) (auth_labels f) w)
     else (Inr (), w))"

section \<open>Facts about the string functions\<close>

lemma cut_found: "cut d s = (a, b, True) \<Longrightarrow> s = a @ d # b \<and> d \<notin> set a"
proof (induction s arbitrary: a)
  case (Cons c s)
  show ?case
  proof (cases "c = d")
    case True
    then show ?thesis using Cons.prems by (auto simp: cut_def Let_def split: if_splits)
  next
    case False
    then have "d \<in> set s" "a = c # takeWhile (\<lambda>c. c \<noteq> d) s" "b = drop (Suc (length (takeWhile (\<lambda>c. c \<noteq> d) s))) s"
      using Cons.prems by (auto simp: cut_def Let_def split: if_splits)
    then show ?thesis using Cons.IH[of "takeWhile (\<lambda>c. c \<noteq> d) s"] False by (auto simp: cut_def Let_def)
  qed
qed (simp add: cut_def)

lemma cut_absent: "cut d s = (a, b, False) \<Longrightarrow> a = s \<and> b = [] \<and> d \<notin> set s"
  by (auto simp: cut_def Let_def split: if_splits)

lemma cut_prefix: "d \<notin> set a \<Longrightarrow> cut d (a @ d # b) = (a, b, True)"
  by (simp add: cut_def takeWhile_append)

lemma trimUser_quoted: "trimUser ([chr 0xE2, chr 0x80, chr 0xB9] @ s @ [chr 0xE2, chr 0x80, chr 0xBA]) = s"
  by (simp add: trimUser_def TrimPrefix_def TrimSuffix_def)

lemma json_here_Cons: "json_here s \<Longrightarrow> \<exists>p. s = CHR ''='' # p"
  by (cases s) (auto simp: json_here_def)

text \<open>The payload starts behind the leftmost occurrence.\<close>

lemma json_payload_Some:
  "json_payload s = Some p \<Longrightarrow> \<exists>a. s = a @ CHR ''='' # p \<and> json_here (CHR ''='' # p) \<and> (\<forall>i < length a. \<not> json_here (drop i s))"
proof (induction s)
  case (Cons c s)
  show ?case
  proof (cases "json_here (c # s)")
    case True
    then show ?thesis using Cons.prems json_here_Cons[OF True] by auto
  next
    case False
    then obtain a where a: "s = a @ CHR ''='' # p" "json_here (CHR ''='' # p)" "\<forall>i < length a. \<not> json_here (drop i s)"
      using Cons by auto
    have "\<not> json_here (drop i (c # s))" if "i < Suc (length a)" for i using a(3) False that by (cases i) auto
    then show ?thesis using a by (intro exI[of _ "c # a"]) simp
  qed
qed simp

lemma json_payload_None: "json_payload s = None \<Longrightarrow> \<not> json_here (drop i s)"
proof (induction s arbitrary: i)
  case (Cons c s)
  then show ?case by (cases i) (auto split: if_splits)
qed (simp add: json_here_def)

end
