(* ===== verification/Scanner.thy ===== *)
theory Scanner
  imports Scanner_Parser Collector_Registration Server_Model
begin

text \<open>
  \<^verbatim>\<open>internal/scanner/scanner.go\<close>: a scanner follows a log file and counts the lines that match the
  patterns of its configuration.  The package that follows the file is an argument; a scanner is
  an object with the state of its routine: \<open>sc_pending\<close> says that \<^verbatim>\<open>Start\<close> has been called and the
  routine has not opened the file yet, \<open>sc_tail\<close> is the file being followed.
\<close>

section \<open>State\<close>

record ScanConfig =
  scfg_Follow :: bool
  scfg_FromBeginning :: bool
  scfg_Poll :: bool

datatype parser = CRDBv2Parser | CRDBv2AuthParser

record Scanner =
  sc_config :: ScanConfig
  sc_metrics :: "(string, ScanMetric) gomap"
  sc_target :: Scan
  sc_parser :: parser
  sc_tail :: "nat option"
  sc_pending :: bool

definition sc_GetLastModified :: "Scanner \<Rightarrow> time" where
  "sc_GetLastModified s = scan_LastModified (sc_target s)"

section \<open>Construction\<close>

definition addCounter :: "('v, 'r, 'c) libs \<Rightarrow> regexp_compile \<Rightarrow> Pattern \<Rightarrow> string list \<Rightarrow> (Scanner \<times> ('v, 'r) world, unit) op" where
  "addCounter L compile p labels = (\<lambda>(s, w).
    (let v = vec_new (lib_vec L) KCounter (scan_Name (sc_target s) @ ''_'' @ pat_Name p) (pat_Help p) labels;
         i = length (w_vecs w);
         w1 = w\<lparr>w_vecs := w_vecs w @ [v], w_reg := snd (reg_Unregister (lib_reg L) v (w_reg w))\<rparr>
     in (case reg_Register (lib_reg L) i v (w_reg w1) of
           Inl e \<Rightarrow> (Inl e, (s, w1))
         | Inr r \<Rightarrow>
            (let w2 = w1\<lparr>w_reg := r\<rparr> in
             (case compile (pat_Regex p) of
                Inl e \<Rightarrow> (Inl (Err e), (s, w2))
              | Inr regex \<Rightarrow>
                 (case compile (pat_Exclude p) of
                    Inl e \<Rightarrow> (Inl (Err e), (s, w2))
                  | Inr exclude \<Rightarrow>
                     (Inr (), (s\<lparr>sc_metrics := AList.update (pat_Name p)
                        \<lparr>sm_counter = i, sm_exclude_String = pat_Exclude p, sm_exclude = exclude, sm_regex = regex\<rparr>
                        (sc_metrics s)\<rparr>, w2))))))))"

definition auth_label_names :: "string list" where
  "auth_label_names = [''user'', ''identity'', ''method'', ''transport'', ''event'']"

definition v2_label_names :: "string list" where
  "v2_label_names = [''level'', ''source'']"

definition FromConfig :: "('v, 'r, 'c) libs \<Rightarrow> regexp_compile \<Rightarrow> Scan \<Rightarrow> ScanConfig \<Rightarrow> (('v, 'r) world, Scanner) op" where
  "FromConfig L compile scan cfg w =
    (let new = (\<lambda>p. \<lparr>sc_config = cfg, sc_metrics = [], sc_target = scan, sc_parser = p, sc_tail = None, sc_pending = False\<rparr>);
         build = (\<lambda>p labels. case for_each (\<lambda>pat. addCounter L compile pat labels) (scan_Patterns scan) (new p, w) of
            (Inl e, (_, w')) \<Rightarrow> (Inl e, w')
          | (Inr _, (s, w')) \<Rightarrow> (Inr s, w'))
     in if scan_Format scan = CRDBv2Auth then build CRDBv2AuthParser auth_label_names
        else if scan_Format scan = CRDBv2 then build CRDBv2Parser v2_label_names
        else (Inl (Err (''format not supported '' @ scan_Format scan)), w))"

section \<open>Following the file\<close>

record tail_Config =
  tc_Follow :: bool
  tc_ReOpen :: bool
  tc_SeekEnd :: bool
  tc_Poll :: bool

definition sc_scan :: "(string \<Rightarrow> tail_Config \<Rightarrow> go_error + nat) \<Rightarrow> (Scanner, nat) op" where
  "sc_scan tailFile s =
    (if sc_tail s \<noteq> None then (Inl (Err (''scanner already running for '' @ scan_Path (sc_target s))), s)
     else (case tailFile (scan_Path (sc_target s))
              \<lparr>tc_Follow = scfg_Follow (sc_config s), tc_ReOpen = scfg_Follow (sc_config s),
               tc_SeekEnd = (\<not> scfg_FromBeginning (sc_config s)), tc_Poll = scfg_Poll (sc_config s)\<rparr> of
             Inl e \<Rightarrow> (Inl (Err e), s\<lparr>sc_tail := None\<rparr>)
           | Inr t \<Rightarrow> (Inr t, s\<lparr>sc_tail := Some t\<rparr>)))"

text \<open>\<^verbatim>\<open>Start\<close> returns at once; its routine opens the file later.\<close>

definition sc_Start :: "(Scanner, unit) op" where
  "sc_Start s = (Inr (), s\<lparr>sc_pending := True\<rparr>)"

definition sc_routine :: "(string \<Rightarrow> tail_Config \<Rightarrow> go_error + nat) \<Rightarrow> Scanner \<Rightarrow> Scanner" where
  "sc_routine tailFile s = snd (sc_scan tailFile (s\<lparr>sc_pending := False\<rparr>))"

definition sc_Stop :: "Scanner \<Rightarrow> Scanner" where
  "sc_Stop s = (case sc_tail s of None \<Rightarrow> s | Some t \<Rightarrow> s\<lparr>sc_tail := None\<rparr>)"

definition sc_stopped :: "Scanner \<Rightarrow> bool" where
  "sc_stopped s = (sc_tail s = None)"

section \<open>Parsing\<close>

definition parser_Parse :: "json_Unmarshal \<Rightarrow> ('v, 'r, 'c) libs \<Rightarrow> parser \<Rightarrow> string \<Rightarrow> ScanMetric \<Rightarrow> (('v, 'r) world, unit) op" where
  "parser_Parse U L p = (case p of CRDBv2Parser \<Rightarrow> CRDBv2Parser_Parse L | CRDBv2AuthParser \<Rightarrow> CRDBv2AuthParser_Parse U L)"

text \<open>One line and one metric; \<^verbatim>\<open>errorCounts\<close> is the second part of the state.\<close>

definition parse_one :: "json_Unmarshal \<Rightarrow> ('v, 'r, 'c) libs \<Rightarrow> parser \<Rightarrow> string \<Rightarrow> string \<times> ScanMetric \<Rightarrow> (('v, 'r) world \<times> tally, unit) op" where
  "parse_one U L p fname = (\<lambda>(line, m) (w, ec).
    (case parser_Parse U L p line m w of
       (Inl (Panic q), w') \<Rightarrow> (Inl (Panic q), (w', ec))
     | (Inl (Err e), w') \<Rightarrow> (Inr (), (w', inc fname ec))
     | (Inr _, w') \<Rightarrow> (Inr (), (w', ec))))"

definition sc_parse :: "json_Unmarshal \<Rightarrow> ('v, 'r, 'c) libs \<Rightarrow> Scanner \<Rightarrow> string \<Rightarrow> string list \<Rightarrow> (('v, 'r) world \<times> tally, unit) op" where
  "sc_parse U L s fname = for_each (\<lambda>line. for_each (\<lambda>(n, m). parse_one U L (sc_parser s) fname (line, m)) (sc_metrics s))"

section \<open>What is counted\<close>

text \<open>A pattern selects the lines of its expression, except those of its exclusion, if it has one.\<close>

definition selects :: "ScanMetric \<Rightarrow> string \<Rightarrow> bool" where
  "selects m line = (sm_regex m line \<and> (sm_exclude_String m = [] \<or> \<not> sm_exclude m line))"

lemma Match_selects [simp]: "Match m line = selects m line"
  by (simp add: Match_def selects_def)

text \<open>The series a line adds to, for a metric.\<close>

definition hit :: "json_Unmarshal \<Rightarrow> parser \<Rightarrow> ScanMetric \<Rightarrow> string \<Rightarrow> string list option" where
  "hit U p m line = (if crdbPrefix line \<and> selects m line
     then (case p of CRDBv2Parser \<Rightarrow> Some [[line ! 0], v2_module line]
           | CRDBv2AuthParser \<Rightarrow> (case parseAuthLine U line of Inr (Some f) \<Rightarrow> Some (auth_labels f) | _ \<Rightarrow> None))
     else None)"

definition bad :: "json_Unmarshal \<Rightarrow> parser \<Rightarrow> ScanMetric \<Rightarrow> string \<Rightarrow> bool" where
  "bad U p m line = (crdbPrefix line \<and> selects m line \<and> p = CRDBv2AuthParser \<and> (\<exists>e. parseAuthLine U line = Inl e))"

definition label_names :: "parser \<Rightarrow> string list" where
  "label_names p = (case p of CRDBv2Parser \<Rightarrow> v2_label_names | CRDBv2AuthParser \<Rightarrow> auth_label_names)"

definition tallied :: "nat \<Rightarrow> float64 option" where
  "tallied k = (if k = 0 then None else Some (Fin (of_nat k)))"

lemma parser_Parse_hit:
  "parser_Parse U L p line m w = (case hit U p m line of
      Some ls \<Rightarrow> counter_Inc L (sm_counter m) ls w
    | None \<Rightarrow> if bad U p m line then (Inl (Err (case parseAuthLine U line of Inl (Err e) \<Rightarrow> e)), w) else (Inr (), w))"
  by (auto simp: parser_Parse_def hit_def bad_def CRDBv2Parser_Parse_def CRDBv2AuthParser_Parse_def parseAuthLine_def
      split: parser.splits option.splits sum.splits)

lemma hit_arity: "hit U p m line = Some ls \<Longrightarrow> length ls = length (label_names p)"
  by (auto simp: hit_def label_names_def v2_label_names_def auth_label_names_def auth_labels_def split: if_splits parser.splits sum.splits option.splits)

lemma counter_Inc_effect:
  assumes ok: "libs_ok L" and i: "i < length (w_vecs w)" "length ls = vec_arity (lib_vec L) (w_vecs w ! i)" "utf8_values ls"
    and a: "series L w i ls = tallied k" "Suc k \<le> 2 ^ 53"
  shows "\<exists>w'. counter_Inc L i ls w = (Inr (), w') \<and> length (w_vecs w') = length (w_vecs w) \<and> series L w' i ls = tallied (Suc k)
    \<and> (\<forall>j l. (j, l) \<noteq> (i, ls) \<longrightarrow> series L w' j l = series L w j l)
    \<and> (\<forall>j. vec_labels (lib_vec L) (w_vecs w' ! j) = vec_labels (lib_vec L) (w_vecs w ! j))"
proof -
  have nn: "\<not> flt (Fin 1) (Fin 0)" by simp
  obtain v where v: "vec_add (lib_vec L) (w_vecs w ! i) ls (Fin 1) = Inr v" "same_desc (lib_vec L) (w_vecs w ! i) v"
      "\<And>l'. l' \<noteq> ls \<Longrightarrow> vec_value (lib_vec L) v l' = vec_value (lib_vec L) (w_vecs w ! i) l'"
    by (rule vec_addE[OF ok i(2,3) nn]) (rule that; assumption)
  have "vec_value (lib_vec L) v ls = Some (Fin (of_int (int k + 1)))"
    by (rule vec_add_int[OF ok, where v = "w_vecs w ! i"])
      (use a v(1) in \<open>auto simp: series_def tallied_def of_nat_diff split: if_splits\<close>)
  then have "vec_value (lib_vec L) v ls = tallied (Suc k)" by (simp add: tallied_def)
  then show ?thesis using v i(1)
    by (auto simp: counter_Inc_def upd_vec_def series_def nth_list_update same_desc_def)
qed

text \<open>How often a series is hit, and how many parse errors there are, in a sequence of pairs of a line and a metric.\<close>

definition hits :: "json_Unmarshal \<Rightarrow> parser \<Rightarrow> (string \<times> ScanMetric) list \<Rightarrow> nat \<Rightarrow> string list \<Rightarrow> nat" where
  "hits U p ps i l = length (filter (\<lambda>(line, m). sm_counter m = i \<and> hit U p m line = Some l) ps)"

definition ready :: "('v, 'r, 'c) libs \<Rightarrow> parser \<Rightarrow> ('v, 'r) world \<Rightarrow> ScanMetric \<Rightarrow> bool" where
  "ready L p w m = (sm_counter m < length (w_vecs w) \<and> vec_labels (lib_vec L) (w_vecs w ! sm_counter m) = label_names p)"

lemma parse_one_effect:
  assumes ok: "libs_ok L" and rd: "ready L p w m" "\<And>ls. hit U p m line = Some ls \<Longrightarrow> utf8_values ls"
    and s0: "\<And>l. series L w (sm_counter m) l = tallied (a l)" and b: "\<And>l. Suc (a l) \<le> 2 ^ 53"
  shows "\<exists>w1 ec1. parse_one U L p fname (line, m) (w, ec) = (Inr (), (w1, ec1)) \<and> length (w_vecs w1) = length (w_vecs w)
      \<and> (\<forall>j. vec_labels (lib_vec L) (w_vecs w1 ! j) = vec_labels (lib_vec L) (w_vecs w ! j))
      \<and> (\<forall>l. series L w1 (sm_counter m) l = tallied (a l + hits U p [(line, m)] (sm_counter m) l))
      \<and> (\<forall>j l. j \<noteq> sm_counter m \<longrightarrow> series L w1 j l = series L w j l)
      \<and> tally_of ec1 fname = tally_of ec fname + (if bad U p m line then 1 else 0)"
proof (cases "hit U p m line")
  case None
  then show ?thesis using s0 by (auto simp: parse_one_def parser_Parse_hit hits_def)
next
  case (Some ls)
  let ?i = "sm_counter m"
  have nb: "\<not> bad U p m line" using Some by (auto simp: hit_def bad_def split: if_splits)
  have ar: "length ls = vec_arity (lib_vec L) (w_vecs w ! ?i)" using hit_arity[OF Some] rd(1) by (simp add: ready_def)
  have il: "?i < length (w_vecs w)" using rd(1) by (simp add: ready_def)
  obtain w1 where w1: "counter_Inc L ?i ls w = (Inr (), w1)" "length (w_vecs w1) = length (w_vecs w)" "series L w1 ?i ls = tallied (Suc (a ls))"
      "\<forall>j l. (j, l) \<noteq> (?i, ls) \<longrightarrow> series L w1 j l = series L w j l"
      "\<forall>j. vec_labels (lib_vec L) (w_vecs w1 ! j) = vec_labels (lib_vec L) (w_vecs w ! j)"
    using counter_Inc_effect[OF ok il ar rd(2)[OF Some] s0 b] by blast
  have "series L w1 ?i l = tallied (a l + hits U p [(line, m)] ?i l)" for l
    using w1(3,4) s0 Some by (cases "l = ls") (auto simp: hits_def)
  then show ?thesis using w1 nb Some by (intro exI[of _ w1] exI[of _ ec]) (simp add: parse_one_def parser_Parse_hit)
qed

lemma parse_pairs:
  assumes ok: "libs_ok L"
  shows "\<forall>(line, m) \<in> set ps. ready L p w m \<and> (\<forall>ls. hit U p m line = Some ls \<longrightarrow> utf8_values ls)
    \<Longrightarrow> \<forall>(line, m) \<in> set ps. \<forall>l. series L w (sm_counter m) l = tallied (a (sm_counter m) l)
    \<Longrightarrow> \<forall>i l. a i l + length ps \<le> 2 ^ 53
    \<Longrightarrow> \<exists>w' ec'. for_each (parse_one U L p fname) ps (w, ec) = (Inr (), (w', ec'))
        \<and> (\<forall>(line, m) \<in> set ps. \<forall>l. series L w' (sm_counter m) l = tallied (a (sm_counter m) l + hits U p ps (sm_counter m) l))
        \<and> (\<forall>j l. j \<notin> sm_counter ` snd ` set ps \<longrightarrow> series L w' j l = series L w j l)
        \<and> tally_of ec' fname = tally_of ec fname + length (filter (\<lambda>(line, m). bad U p m line) ps)"
proof (induction ps arbitrary: w ec a)
  case (Cons x ps)
  obtain line m where x: "x = (line, m)" by fastforce
  let ?i = "sm_counter m"
  have rd: "ready L p w m" "\<And>ls. hit U p m line = Some ls \<Longrightarrow> utf8_values ls" and s0: "\<And>l. series L w ?i l = tallied (a ?i l)"
    using Cons.prems(1,2) x by auto
  let ?a = "\<lambda>i l. a i l + hits U p [x] i l"
  have "Suc (a ?i l) \<le> 2 ^ 53" for l using Cons.prems(3)[rule_format, of ?i l] by simp
  from parse_one_effect[where a = "a ?i" and fname = fname and ec = ec, OF ok rd s0 this]
  obtain w1 ec1 where w1: "parse_one U L p fname x (w, ec) = (Inr (), (w1, ec1))" "length (w_vecs w1) = length (w_vecs w)"
      "\<forall>j. vec_labels (lib_vec L) (w_vecs w1 ! j) = vec_labels (lib_vec L) (w_vecs w ! j)"
      "\<And>l. series L w1 ?i l = tallied (?a ?i l)" "\<And>j l. j \<noteq> ?i \<Longrightarrow> series L w1 j l = series L w j l"
      "tally_of ec1 fname = tally_of ec fname + (if bad U p m line then 1 else 0)" unfolding x by blast
  have p1: "\<forall>(line, m) \<in> set ps. ready L p w1 m \<and> (\<forall>ls. hit U p m line = Some ls \<longrightarrow> utf8_values ls)"
    using Cons.prems(1) w1(2,3) by (fastforce simp: ready_def)
  have p2: "\<forall>(line', m') \<in> set ps. \<forall>l. series L w1 (sm_counter m') l = tallied (?a (sm_counter m') l)"
  proof (intro ballI, clarify)
    fix line' m' l assume m': "(line', m') \<in> set ps"
    show "series L w1 (sm_counter m') l = tallied (?a (sm_counter m') l)"
    proof (cases "sm_counter m' = ?i")
      case False
      then have "hits U p [x] (sm_counter m') l = 0" by (simp add: hits_def x)
      then show ?thesis using w1(5)[OF False] Cons.prems(2) m' by fastforce
    qed (simp add: w1(4))
  qed
  have p3: "\<forall>i l. ?a i l + length ps \<le> 2 ^ 53"
  proof (intro allI)
    fix i l
    have "hits U p [x] i l \<le> 1" by (simp add: hits_def)
    then show "?a i l + length ps \<le> 2 ^ 53" using Cons.prems(3)[rule_format, of i l] by simp
  qed
  obtain w2 ec2 where w2: "for_each (parse_one U L p fname) ps (w1, ec1) = (Inr (), (w2, ec2))"
      "\<forall>(line, m) \<in> set ps. \<forall>l. series L w2 (sm_counter m) l = tallied (?a (sm_counter m) l + hits U p ps (sm_counter m) l)"
      "\<forall>j l. j \<notin> sm_counter ` snd ` set ps \<longrightarrow> series L w2 j l = series L w1 j l"
      "tally_of ec2 fname = tally_of ec1 fname + length (filter (\<lambda>(line, m). bad U p m line) ps)"
    using Cons.IH[OF p1 p2 p3, of ec1] by blast
  have add: "hits U p (x # ps) i l = hits U p [x] i l + hits U p ps i l" for i l by (simp add: hits_def)
  have "series L w2 (sm_counter m') l = tallied (a (sm_counter m') l + hits U p (x # ps) (sm_counter m') l)" if "(line', m') \<in> set (x # ps)" for line' m' l
  proof (cases "sm_counter m' \<in> sm_counter ` snd ` set ps")
    case True
    then obtain ql qm where q: "(ql, qm) \<in> set ps" "sm_counter qm = sm_counter m'" by fastforce
    from bspec[OF w2(2) q(1)] show ?thesis by (simp add: q(2) add add.assoc)
  next
    case False
    then have "m' = m" "hits U p ps (sm_counter m') l = 0" using that x by (auto simp: hits_def image_iff filter_empty_conv)
    then show ?thesis using w2(3) False w1(4) add by simp
  qed
  moreover have "\<forall>j l. j \<notin> sm_counter ` snd ` set (x # ps) \<longrightarrow> series L w2 j l = series L w j l"
    using w2(3) w1(5) by (simp add: x)
  ultimately show ?case using w1(1,6) w2(1,4) by (intro exI[of _ w2] exI[of _ ec2]) (auto simp: op_bind_def x)
qed (simp add: hits_def)

lemma for_each_append: "for_each f (xs @ ys) s = op_bind (for_each f xs) (\<lambda>_. for_each f ys) s"
  by (induction xs arbitrary: s) (auto simp: op_bind_def split: prod.splits sum.splits)

lemma for_each_map: "for_each f (map g xs) s = for_each (\<lambda>x. f (g x)) xs s"
  by (induction xs arbitrary: s) (auto simp: op_bind_def split: prod.splits sum.splits)

definition pairs :: "Scanner \<Rightarrow> string list \<Rightarrow> (string \<times> ScanMetric) list" where
  "pairs s lines = concat (map (\<lambda>line. map (\<lambda>(n, m). (line, m)) (sc_metrics s)) lines)"

lemma sc_parse_pairs: "sc_parse U L s fname lines st = for_each (parse_one U L (sc_parser s) fname) (pairs s lines) st"
proof (induction lines arbitrary: st)
  case (Cons line lines)
  have "for_each (\<lambda>(n, m). parse_one U L (sc_parser s) fname (line, m)) (sc_metrics s) x
      = for_each (parse_one U L (sc_parser s) fname) (map (\<lambda>(n, m). (line, m)) (sc_metrics s)) x" for x
    unfolding for_each_map by (simp add: split_beta')
  then show ?case using Cons.IH
    by (simp add: sc_parse_def pairs_def for_each_append op_bind_def split: prod.splits sum.splits)
qed (simp add: sc_parse_def pairs_def)

lemma hits_pairs:
  assumes "(n, m) \<in> set (sc_metrics s)" "distinct (map (\<lambda>(n, m). sm_counter m) (sc_metrics s))"
  shows "hits U p (pairs s lines) (sm_counter m) l = length (filter (\<lambda>line. hit U p m line = Some l) lines)"
proof (induction lines)
  case (Cons line lines)
  have "length (filter (\<lambda>(n, m'). sm_counter m' = sm_counter m \<and> hit U p m' line = Some l) (sc_metrics s))
      = (if hit U p m line = Some l then 1 else 0)"
    using assms
  proof (induction "sc_metrics s" arbitrary: s)
    case (Cons y ys)
    obtain n' m' where y: "y = (n', m')" by fastforce
    have ys: "filter (\<lambda>(n, m'). sm_counter m' = sm_counter m \<and> hit U p m' line = Some l) ys = []" if "m' = m"
      using Cons.prems(2) that y unfolding filter_empty_conv by (force simp flip: Cons.hyps(2))
    show ?case
    proof (cases "m' = m")
      case True
      then show ?thesis using ys y by (simp flip: Cons.hyps(2))
    next
      case False
      have "(n, m) \<in> set ys" using Cons.prems(1) False y by (auto simp flip: Cons.hyps(2))
      then have "sm_counter m' \<noteq> sm_counter m" using Cons.prems(2) y by (auto simp flip: Cons.hyps(2))
      then show ?thesis using Cons.hyps(1)[of "s\<lparr>sc_metrics := ys\<rparr>"] Cons.prems(2) \<open>(n, m) \<in> set ys\<close> y by (auto simp flip: Cons.hyps(2))
    qed
  qed simp
  then show ?case using Cons.IH by (simp add: pairs_def hits_def filter_map comp_def split_beta')
qed (simp add: hits_def pairs_def)

lemma sc_parse_counts:
  assumes "libs_ok L" "distinct (map (\<lambda>(n, m). sm_counter m) (sc_metrics s))"
    and "\<forall>(n, m) \<in> set (sc_metrics s). ready L (sc_parser s) w m \<and> (\<forall>l. series L w (sm_counter m) l = None)
      \<and> (\<forall>line \<in> set lines. \<forall>ls. hit U (sc_parser s) m line = Some ls \<longrightarrow> utf8_values ls)"
    and "length lines * length (sc_metrics s) \<le> 2 ^ 53"
  shows "\<exists>w' ec'. sc_parse U L s fname lines (w, ec) = (Inr (), (w', ec'))
    \<and> (\<forall>(n, m) \<in> set (sc_metrics s). \<forall>l. series L w' (sm_counter m) l
         = (let k = length (filter (\<lambda>line. hit U (sc_parser s) m line = Some l) lines) in if k = 0 then None else Some (Fin (of_nat k))))
    \<and> tally_of ec' fname = tally_of ec fname + length (filter (\<lambda>(line, m). bad U (sc_parser s) m line) (pairs s lines))"
proof (cases "lines = []")
  case True
  then show ?thesis using assms(3) by (auto simp: sc_parse_def pairs_def)
next
  case False
  let ?p = "sc_parser s"
  have sub: "(line, m) \<in> set (pairs s lines) \<Longrightarrow> \<exists>n. (n, m) \<in> set (sc_metrics s) \<and> line \<in> set lines" for line m
    by (auto simp: pairs_def)
  have len: "length (pairs s lines) = length lines * length (sc_metrics s)" by (induction lines) (simp_all add: pairs_def)
  have p1: "\<forall>(line, m) \<in> set (pairs s lines). ready L ?p w m \<and> (\<forall>ls. hit U ?p m line = Some ls \<longrightarrow> utf8_values ls)"
    using sub assms(3) by fastforce
  have p2: "\<forall>(line, m) \<in> set (pairs s lines). \<forall>l. series L w (sm_counter m) l = tallied ((\<lambda>i l. 0) (sm_counter m) l)"
    using sub assms(3) by (fastforce simp: tallied_def)
  obtain w' ec' where w': "sc_parse U L s fname lines (w, ec) = (Inr (), (w', ec'))"
      "\<forall>(line, m) \<in> set (pairs s lines). \<forall>l. series L w' (sm_counter m) l = tallied (0 + hits U ?p (pairs s lines) (sm_counter m) l)"
      "tally_of ec' fname = tally_of ec fname + length (filter (\<lambda>(line, m). bad U ?p m line) (pairs s lines))"
    using parse_pairs[OF assms(1) p1 p2, of fname ec] assms(4) len by (auto simp: sc_parse_pairs)
  have "series L w' (sm_counter m) l = (let k = length (filter (\<lambda>line. hit U ?p m line = Some l) lines) in if k = 0 then None else Some (Fin (of_nat k)))"
    if m: "(n, m) \<in> set (sc_metrics s)" for n m l
  proof -
    obtain line where "line \<in> set lines" using False by (cases lines) auto
    then have "(line, m) \<in> set (pairs s lines)" using m by (force simp: pairs_def)
    then have "series L w' (sm_counter m) l = tallied (hits U ?p (pairs s lines) (sm_counter m) l)" using w'(2) by fastforce
    then show ?thesis unfolding hits_pairs[OF m assms(2)] tallied_def Let_def .
  qed
  then show ?thesis using w'(1,3) by (intro exI[of _ w'] exI[of _ ec']) auto
qed

text \<open>
  C29: a scanner with fresh counters counts exactly: after any sequence of fewer than \<open>2 ^ 53\<close> pairs of
  lines and metrics whose label values are valid UTF-8, the series of a metric under some label values is the number of
  lines that carry the prefix of the format, match the pattern and not its exclusion, and have these
  label values; there is no series for a number of zero; the error counter has grown by the number
  of payloads that could not be decoded.
\<close>

theorem scanner_counts:
  assumes "libs_ok L" "distinct (map (\<lambda>(n, m). sm_counter m) (sc_metrics s))"
    and "\<forall>(n, m) \<in> set (sc_metrics s). ready L (sc_parser s) w m \<and> (\<forall>l. series L w (sm_counter m) l = None)
      \<and> (\<forall>line \<in> set lines. \<forall>ls. hit U (sc_parser s) m line = Some ls \<longrightarrow> utf8_values ls)"
    and "length lines * length (sc_metrics s) \<le> 2 ^ 53"
  shows "\<exists>w' ec'. sc_parse U L s fname lines (w, ec) = (Inr (), (w', ec'))
    \<and> (\<forall>(n, m) \<in> set (sc_metrics s). \<forall>l. series L w' (sm_counter m) l
         = (let k = length (filter (\<lambda>line. hit U (sc_parser s) m line = Some l) lines) in if k = 0 then None else Some (Fin (of_nat k))))
    \<and> tally_of ec' fname = tally_of ec fname + length (filter (\<lambda>(line, m). bad U (sc_parser s) m line) (pairs s lines))"
  using assms by (rule sc_parse_counts)

section \<open>Construction gives fresh counters\<close>

definition fresh_scanner :: "('v, 'r, 'c) libs \<Rightarrow> string list \<Rightarrow> Scanner \<Rightarrow> ('v, 'r) world \<Rightarrow> bool" where
  "fresh_scanner L labels s w = (distinct (map (\<lambda>(n, m). sm_counter m) (sc_metrics s))
     \<and> (\<forall>(n, m) \<in> set (sc_metrics s). sm_counter m < length (w_vecs w)
          \<and> vec_labels (lib_vec L) (w_vecs w ! sm_counter m) = labels \<and> (\<forall>l. series L w (sm_counter m) l = None)))"

lemma set_update_subset: "set (AList.update k v ms) \<subseteq> insert (k, v) (set ms)"
  by (induction ms) auto

lemma distinct_counters_update:
  assumes "distinct (map (\<lambda>(n, m). sm_counter m) ms)" "\<forall>(n, m) \<in> set ms. sm_counter m < sm_counter v"
  shows "distinct (map (\<lambda>(n, m). sm_counter m) (AList.update k v ms))"
  using assms
proof (induction ms)
  case (Cons x ms)
  obtain n m where x: "x = (n, m)" by fastforce
  have "sm_counter m \<noteq> sm_counter m'" if "(n', m') \<in> set (AList.update k v ms)" for n' m'
    using that set_update_subset[of k v ms] Cons.prems by (force simp: x)
  moreover have "sm_counter v \<notin> (\<lambda>(n, m). sm_counter m) ` set ms" using Cons.prems(2) by force
  ultimately show ?case using Cons by (force simp: x)
qed simp

lemma addCounter_fresh:
  assumes ok: "libs_ok L" and f: "fresh_scanner L labels s w" and r: "addCounter L compile p labels (s, w) = (Inr (), (s', w'))"
  shows "fresh_scanner L labels s' w' \<and> sc_parser s' = sc_parser s \<and> sc_target s' = sc_target s \<and> sc_tail s' = sc_tail s
    \<and> sc_pending s' = sc_pending s \<and> sc_config s' = sc_config s"
proof -
  define v where "v = vec_new (lib_vec L) KCounter (scan_Name (sc_target s) @ ''_'' @ pat_Name p) (pat_Help p) labels"
  obtain m where m: "s' = s\<lparr>sc_metrics := AList.update (pat_Name p) m (sc_metrics s)\<rparr>" "sm_counter m = length (w_vecs w)" "w_vecs w' = w_vecs w @ [v]"
    using r unfolding addCounter_def prod.case v_def[symmetric] Let_def by (auto split: sum.splits)
  have old: "sm_counter m' < length (w_vecs w)" "vec_labels (lib_vec L) (w_vecs w ! sm_counter m') = labels" "series L w (sm_counter m') l = None"
    if "(n, m') \<in> set (sc_metrics s)" for n m' l using f that by (fastforce simp: fresh_scanner_def)+
  have "sm_counter m' < length (w_vecs w') \<and> vec_labels (lib_vec L) (w_vecs w' ! sm_counter m') = labels \<and> (\<forall>l. series L w' (sm_counter m') l = None)"
    if "(n, m') \<in> set (sc_metrics s')" for n m'
  proof -
    have "m' = m \<or> (n, m') \<in> set (sc_metrics s)" using that set_update_subset[of "pat_Name p" m "sc_metrics s"] by (auto simp: m(1))
    then show ?thesis using old m(2,3) vec_new_laws[OF ok] by (auto simp: series_def nth_append v_def)
  qed
  moreover have "distinct (map (\<lambda>(n, m). sm_counter m) (sc_metrics s'))"
  proof -
    have "distinct (map (\<lambda>(n, m). sm_counter m) (sc_metrics s))" "\<forall>(n, m') \<in> set (sc_metrics s). sm_counter m' < sm_counter m"
      using f unfolding fresh_scanner_def m(2) by fast+
    from distinct_counters_update[OF this] show ?thesis by (simp add: m(1))
  qed
  ultimately have "fresh_scanner L labels s' w'" unfolding fresh_scanner_def by fast
  then show ?thesis by (simp add: m(1))
qed

lemma addCounters_fresh:
  assumes ok: "libs_ok L"
  shows "fresh_scanner L labels s w \<Longrightarrow> for_each (\<lambda>p. addCounter L compile p labels) ps (s, w) = (Inr (), (s', w'))
    \<Longrightarrow> fresh_scanner L labels s' w' \<and> sc_parser s' = sc_parser s \<and> sc_target s' = sc_target s \<and> sc_tail s' = sc_tail s
      \<and> sc_pending s' = sc_pending s \<and> sc_config s' = sc_config s"
proof (induction ps arbitrary: s w)
  case (Cons p ps)
  obtain s1 w1 where 1: "addCounter L compile p labels (s, w) = (Inr (), (s1, w1))"
      "for_each (\<lambda>p. addCounter L compile p labels) ps (s1, w1) = (Inr (), (s', w'))"
    using Cons.prems(2) by (auto simp: op_bind_def split: prod.splits sum.splits)
  then show ?case using addCounter_fresh[OF ok Cons.prems(1) 1(1)] Cons.IH[OF _ 1(2)] by auto
qed simp

lemma FromConfig_fresh:
  assumes ok: "libs_ok L" and r: "FromConfig L compile scan cfg w = (Inr s, w')"
  shows "fresh_scanner L (label_names (sc_parser s)) s w' \<and> sc_target s = scan \<and> sc_tail s = None \<and> \<not> sc_pending s \<and> sc_config s = cfg
    \<and> sc_parser s = (if scan_Format scan = CRDBv2Auth then CRDBv2AuthParser else CRDBv2Parser)"
proof -
  let ?p = "if scan_Format scan = CRDBv2Auth then CRDBv2AuthParser else CRDBv2Parser"
  let ?s = "\<lparr>sc_config = cfg, sc_metrics = [], sc_target = scan, sc_parser = ?p, sc_tail = None, sc_pending = False\<rparr>"
  have l: "for_each (\<lambda>p. addCounter L compile p (label_names ?p)) (scan_Patterns scan) (?s, w) = (Inr (), (s, w'))"
    using r by (auto simp: FromConfig_def Let_def label_names_def split: if_splits prod.splits sum.splits)
  have "fresh_scanner L (label_names ?p) ?s w" by (simp add: fresh_scanner_def)
  from addCounters_fresh[OF ok this l] show ?thesis by simp
qed

text \<open>A scanner for one pattern, and lines of a log.\<close>

definition ex_scan :: Scan where
  "ex_scan = \<lparr>scan_Enabled = True, scan_Format = CRDBv2, scan_LastModified = 0, scan_Name = ''crdb'', scan_Path = ''/log'',
     scan_Patterns = [\<lparr>pat_Help = ''h'', pat_Name = ''errors'', pat_Exclude = [], pat_Regex = ''.''\<rparr>]\<rparr>"

definition ex_any :: regexp_compile where
  "ex_any r = Inr (\<lambda>s. True)"

definition ex_scfg :: ScanConfig where
  "ex_scfg = \<lparr>scfg_Follow = True, scfg_FromBeginning = True, scfg_Poll = True\<rparr>"

definition ex_scanner :: Scanner where
  "ex_scanner = projr (fst (FromConfig ref_libs ex_any ex_scan ex_scfg ex_world))"

definition ex_scan_w :: "(list_vec, list_reg) world" where
  "ex_scan_w = snd (FromConfig ref_libs ex_any ex_scan ex_scfg ex_world)"

lemma ex_scanner_eq: "FromConfig ref_libs ex_any ex_scan ex_scfg ex_world = (Inr ex_scanner, ex_scan_w)"
  and ex_scanner_fields: "sc_metrics ex_scanner = [(''errors'', \<lparr>sm_counter = 0, sm_exclude_String = [], sm_exclude = \<lambda>s. True, sm_regex = \<lambda>s. True\<rparr>)]"
    "sc_parser ex_scanner = CRDBv2Parser"
  by (simp_all add: ex_scanner_def ex_scan_w_def FromConfig_def ex_scan_def CRDBv2_def CRDBv2Auth_def op_bind_def addCounter_def ex_any_def ref_libs_def
      list_vec_api_def list_reg_api_def lr_accepts_def ex_world_def Let_def v2_label_names_def)

definition ex_lines :: "string list" where
  "ex_lines = [''E250407 20:23:15 73 4@sql/conn.go:39 x'', ''garbage'', ''E250407 20:23:16 73 4@sql/conn.go:40 y'', ''I250407 20:23:16 73 main.go:1 z'']"

lemma ex_hits:
  "map (hit U CRDBv2Parser \<lparr>sm_counter = 0, sm_exclude_String = [], sm_exclude = \<lambda>s. True, sm_regex = \<lambda>s. True\<rparr>) ex_lines
    = [Some [''E'', ''sql/conn.go''], None, Some [''E'', ''sql/conn.go''], Some [''I'', ''main.go'']]"
  by (simp add: ex_lines_def hit_def crdbPrefix_def is_digit_def byte_def selects_def v2_module_def cut_def Let_def numeral_eq_Suc)

theorem scanner_counts_witness:
  "\<exists>w' ec'. sc_parse (\<lambda>p. Inl ''no json'') ref_libs ex_scanner ''/log'' ex_lines (ex_scan_w, []) = (Inr (), (w', ec'))
    \<and> series ref_libs w' 0 [''E'', ''sql/conn.go''] = Some (Fin 2) \<and> series ref_libs w' 0 [''I'', ''main.go''] = Some (Fin 1)
    \<and> tally_of ec' ''/log'' = 0"
proof -
  let ?U = "\<lambda>p. Inl ''no json'' :: go_error + authFields"
  let ?m = "\<lparr>sm_counter = 0, sm_exclude_String = [], sm_exclude = \<lambda>s. True, sm_regex = \<lambda>s. True\<rparr>"
  have f: "fresh_scanner ref_libs v2_label_names ex_scanner ex_scan_w"
    using FromConfig_fresh[OF ref_libs_ok ex_scanner_eq] by (simp add: ex_scanner_fields label_names_def)
  have cnt: "length (filter (\<lambda>line. hit ?U CRDBv2Parser ?m line = Some l) ex_lines) = length (filter (\<lambda>h. h = Some l) (map (hit ?U CRDBv2Parser ?m) ex_lines))" for l
    by (simp add: filter_map comp_def)
  have "utf8_values ls" if "line \<in> set ex_lines" "hit ?U CRDBv2Parser ?m line = Some ls" for line ls
  proof -
    have "Some ls \<in> set (map (hit ?U CRDBv2Parser ?m) ex_lines)" using that by force
    then show ?thesis unfolding ex_hits by (auto simp: utf8_values_def byte_def)
  qed
  then have a: "\<forall>(n, m) \<in> set (sc_metrics ex_scanner). ready ref_libs (sc_parser ex_scanner) ex_scan_w m \<and> (\<forall>l. series ref_libs ex_scan_w (sm_counter m) l = None)
      \<and> (\<forall>line \<in> set ex_lines. \<forall>ls. hit ?U (sc_parser ex_scanner) m line = Some ls \<longrightarrow> utf8_values ls)"
    using f by (simp add: fresh_scanner_def ready_def ex_scanner_fields label_names_def)
  have d: "distinct (map (\<lambda>(n, m). sm_counter m) (sc_metrics ex_scanner))" by (simp add: ex_scanner_fields)
  have nb: "filter (\<lambda>(line, m). bad ?U (sc_parser ex_scanner) m line) ps = []" for ps by (simp add: filter_empty_conv bad_def ex_scanner_fields)
  have len: "length ex_lines * length (sc_metrics ex_scanner) \<le> 2 ^ 53" by (simp add: ex_lines_def ex_scanner_fields)
  obtain w' ec' where w': "sc_parse ?U ref_libs ex_scanner ''/log'' ex_lines (ex_scan_w, []) = (Inr (), (w', ec'))"
      "\<forall>(n, m) \<in> set (sc_metrics ex_scanner). \<forall>l. series ref_libs w' (sm_counter m) l
         = (let k = length (filter (\<lambda>line. hit ?U (sc_parser ex_scanner) m line = Some l) ex_lines) in if k = 0 then None else Some (Fin (of_nat k)))"
      "tally_of ec' ''/log'' = 0"
    using scanner_counts[OF ref_libs_ok d a len, of "''/log''" "[]"] unfolding nb by auto
  have "series ref_libs w' 0 l = (let k = length (filter (\<lambda>h. h = Some l) (map (hit ?U CRDBv2Parser ?m) ex_lines)) in if k = 0 then None else Some (Fin (of_nat k)))" for l
    using w'(2) unfolding cnt[symmetric] by (simp add: ex_scanner_fields)
  then show ?thesis unfolding ex_hits using w'(1,3) by simp
qed

section \<open>When construction succeeds\<close>

definition scan_descs :: "Scan \<Rightarrow> desc set" where
  "scan_descs scan = (\<lambda>p. (scan_Name scan @ ''_'' @ pat_Name p, pat_Help p,
     if scan_Format scan = CRDBv2Auth then auth_label_names else v2_label_names)) ` set (scan_Patterns scan)"

definition compiles :: "regexp_compile \<Rightarrow> Scan \<Rightarrow> bool" where
  "compiles compile scan = (\<forall>p \<in> set (scan_Patterns scan). (\<exists>m. compile (pat_Regex p) = Inr m) \<and> (\<exists>m. compile (pat_Exclude p) = Inr m))"

lemma addCounters_succeed:
  assumes ok: "libs_ok L" and F: "coherent L F"
  shows "compat L F (w_reg w) \<Longrightarrow> \<forall>p \<in> set ps. (scan_Name (sc_target s) @ ''_'' @ pat_Name p, pat_Help p, labels) \<in> F
      \<and> (\<exists>m. compile (pat_Regex p) = Inr m) \<and> (\<exists>m. compile (pat_Exclude p) = Inr m)
    \<Longrightarrow> \<exists>s' w'. for_each (\<lambda>p. addCounter L compile p labels) ps (s, w) = (Inr (), (s', w')) \<and> compat L F (w_reg w')"
proof (induction ps arbitrary: s w)
  case (Cons p ps)
  let ?v = "vec_new (lib_vec L) KCounter (scan_Name (sc_target s) @ ''_'' @ pat_Name p) (pat_Help p) labels"
  have d: "(scan_Name (sc_target s) @ ''_'' @ pat_Name p, pat_Help p, labels) \<in> F" using Cons.prems(2) by simp
  obtain r where r: "reg_Register (lib_reg L) (length (w_vecs w)) ?v (snd (reg_Unregister (lib_reg L) ?v (w_reg w))) = Inr r" "compat L F r"
    using reregister_succeeds[OF ok F Cons.prems(1) d refl] by blast
  obtain s1 w1 where 1: "addCounter L compile p labels (s, w) = (Inr (), (s1, w1))" "w_reg w1 = r" "sc_target s1 = sc_target s"
    using r(1) Cons.prems(2) by (auto simp: addCounter_def Let_def)
  have "compat L F (w_reg w1)" using 1(2) r(2) by simp
  from Cons.IH[OF this, of s1] Cons.prems(2) show ?case using 1 by (simp add: op_bind_def)
qed simp

lemma FromConfig_succeeds:
  assumes ok: "libs_ok L" and F: "coherent L F" "compat L F (w_reg w)" "scan_descs scan \<subseteq> F"
    and c: "compiles compile scan" "scan_Format scan = CRDBv2 \<or> scan_Format scan = CRDBv2Auth"
  shows "\<exists>s w'. FromConfig L compile scan cfg w = (Inr s, w') \<and> compat L F (w_reg w')"
proof -
  let ?ls = "if scan_Format scan = CRDBv2Auth then auth_label_names else v2_label_names"
  have "\<exists>s' w'. for_each (\<lambda>p. addCounter L compile p ?ls) (scan_Patterns scan) (s, w) = (Inr (), (s', w')) \<and> compat L F (w_reg w')"
    if "sc_target s = scan" for s
    by (rule addCounters_succeed[OF ok F(1,2)]) (use F(3) c(1) that in \<open>auto simp: scan_descs_def compiles_def\<close>)
  from this[of "\<lparr>sc_config = cfg, sc_metrics = [], sc_target = scan, sc_parser = CRDBv2AuthParser, sc_tail = None, sc_pending = False\<rparr>"]
    this[of "\<lparr>sc_config = cfg, sc_metrics = [], sc_target = scan, sc_parser = CRDBv2Parser, sc_tail = None, sc_pending = False\<rparr>"]
  show ?thesis using c(2) by (auto simp: FromConfig_def Let_def CRDBv2_def CRDBv2Auth_def)
qed

end
