(* ===== verification/Scanner_Server.thy ===== *)
theory Scanner_Server
  imports Scanner Store_Memory
begin

text \<open>
  \<^verbatim>\<open>internal/scanner/server.go\<close>: the server that keeps one scanner for every enabled scan of the
  store.  Scanners are objects shared by the table and by their own routines, so the table refers
  to them by their position in \<open>ss_objects\<close>.
\<close>

section \<open>State\<close>

record ('v, 'r) scannerServer =
  ss_config :: Config
  ss_fromBeginning :: bool
  ss_world :: "('v, 'r) world"
  ss_objects :: "Scanner list"
  ss_scanners :: "(string, nat) gomap"
  ss_refresh :: refresh_metrics

record ('v, 'r, 'c, 'st) scan_deps =
  sd_libs :: "('v, 'r, 'c) libs"
  sd_compile :: regexp_compile
  sd_store :: "('st, Scan) conf_store"

definition scan_New :: "'r register \<Rightarrow> Config \<Rightarrow> ('v, 'r) world \<Rightarrow> ('v, 'r) scannerServer result" where
  "scan_New reg cfg w =
    (case (if cfg_VisusMetrics cfg then register_each reg [OwnScannerErrors] (w_reg w) else (Inr (), w_reg w)) of
       (Inl e, _) \<Rightarrow> Inl e
     | (Inr _, r) \<Rightarrow> Inr \<lparr>ss_config = cfg, ss_fromBeginning = False, ss_world = w\<lparr>w_reg := r\<rparr>, ss_objects = [], ss_scanners = [],
         ss_refresh = \<lparr>RefreshCounts = [], RefreshErrors = []\<rparr>\<rparr>)"

section \<open>The table\<close>

definition ss_add :: "string \<Rightarrow> nat \<Rightarrow> ('v, 'r) scannerServer \<Rightarrow> ('v, 'r) scannerServer" where
  "ss_add name i s = s\<lparr>ss_scanners := AList.update name i (ss_scanners s)\<rparr>"

definition ss_delete :: "string \<Rightarrow> ('v, 'r) scannerServer \<Rightarrow> ('v, 'r) scannerServer" where
  "ss_delete name s = s\<lparr>ss_scanners := AList.delete name (ss_scanners s)\<rparr>"

definition ss_get :: "string \<Rightarrow> ('v, 'r) scannerServer \<Rightarrow> nat option" where
  "ss_get name s = map_of (ss_scanners s) name"

definition stop_object :: "nat \<Rightarrow> ('v, 'r) scannerServer \<Rightarrow> ('v, 'r) scannerServer" where
  "stop_object i s = s\<lparr>ss_objects := (ss_objects s)[i := sc_Stop (ss_objects s ! i)]\<rparr>"

definition buildScanner :: "('v, 'r, 'c, 'st) scan_deps \<Rightarrow> string \<Rightarrow> Scan \<Rightarrow> (('v, 'r) scannerServer, nat) op" where
  "buildScanner D name scan s =
    (case FromConfig (sd_libs D) (sd_compile D) scan
        \<lparr>scfg_Follow = True, scfg_FromBeginning = ss_fromBeginning s, scfg_Poll = (\<not> cfg_Inotify (ss_config s))\<rparr> (ss_world s) of
       (Inl e, w) \<Rightarrow> (Inl e, s\<lparr>ss_world := w\<rparr>)
     | (Inr sc, w) \<Rightarrow> (let i = length (ss_objects s) in
         (Inr i, ss_add name i (s\<lparr>ss_world := w, ss_objects := ss_objects s @ [sc]\<rparr>))))"

fun cleanup_each :: "string set \<Rightarrow> (string \<times> nat) list \<Rightarrow> ('v, 'r) scannerServer \<Rightarrow> ('v, 'r) scannerServer" where
  "cleanup_each keep [] s = s"
| "cleanup_each keep ((key, i) # l) s =
     cleanup_each keep l (if key \<in> keep then s else ss_delete key (stop_object i s))"

definition ss_cleanup :: "string set \<Rightarrow> ('v, 'r) scannerServer \<Rightarrow> ('v, 'r) scannerServer" where
  "ss_cleanup keep s = cleanup_each keep (ss_scanners s) s"

section \<open>Refresh\<close>

definition start_scanner :: "('v, 'r, 'c, 'st) scan_deps \<Rightarrow> Scan \<Rightarrow> (('v, 'r) scannerServer, unit) op" where
  "start_scanner D scan s =
    (case buildScanner D (scan_Name scan) scan s of
       (Inl (Panic p), s1) \<Rightarrow> (Inl (Panic p), s1)
     | (Inl (Err e), s1) \<Rightarrow> (Inr (), s1)
     | (Inr i, s1) \<Rightarrow>
        (case sc_Start (ss_objects s1 ! i) of
           (Inl (Panic p), _) \<Rightarrow> (Inl (Panic p), s1)
         | (Inl (Err e), o') \<Rightarrow> (Inr (), ss_delete (scan_Name scan) (s1\<lparr>ss_objects := (ss_objects s1)[i := o']\<rparr>))
         | (Inr _, o') \<Rightarrow> (Inr (), s1\<lparr>ss_objects := (ss_objects s1)[i := o']\<rparr>)))"

type_synonym ('v, 'r, 'st) sstate = "('v, 'r) scannerServer \<times> 'st \<times> string set"

definition scan_one :: "('v, 'r, 'c, 'st) scan_deps \<Rightarrow> string \<Rightarrow> (('v, 'r, 'st) sstate, unit) op" where
  "scan_one D name = (\<lambda>(s, st, keep).
    (case cs_get (sd_store D) name st of
       (Inl (Panic p), st') \<Rightarrow> (Inl (Panic p), (s, st', keep))
     | (Inl (Err e), st') \<Rightarrow> (Inr (), (s, st', keep))
     | (Inr None, st') \<Rightarrow> (Inl (Panic NilDereference), (s, st', keep))
     | (Inr (Some scan), st') \<Rightarrow>
         if \<not> scan_Enabled scan then (Inr (), (s, st', keep))
         else (case ss_get name s of
            None \<Rightarrow> (case start_scanner D scan s of (r, s') \<Rightarrow> (r, (s', st', insert name keep)))
          | Some i \<Rightarrow>
              if \<not> sc_GetLastModified (ss_objects s ! i) < scan_LastModified scan then (Inr (), (s, st', insert name keep))
              else (case start_scanner D scan (stop_object i s) of (r, s') \<Rightarrow> (r, (s', st', insert name keep))))))"

definition scan_refresh :: "('v, 'r, 'c, 'st) scan_deps \<Rightarrow> (('v, 'r) scannerServer \<times> 'st, unit) op" where
  "scan_refresh D = (\<lambda>(s, st).
    (case cs_names (sd_store D) st of
       (Inl e, st1) \<Rightarrow> (Inl e, (s, st1))
     | (Inr names, st1) \<Rightarrow>
        (case for_each (scan_one D) names (s, st1, {}) of
           (Inl e, (s2, st2, keep)) \<Rightarrow> (Inl e, (s2, st2))
         | (Inr _, (s2, st2, keep)) \<Rightarrow> (Inr (), (ss_cleanup keep s2, st2)))))"

definition scan_Refresh :: "('v, 'r, 'c, 'st) scan_deps \<Rightarrow> (('v, 'r) scannerServer \<times> 'st, unit) op" where
  "scan_Refresh D x = (case scan_refresh D x of
      (Inl (Panic p), y) \<Rightarrow> (Inl (Panic p), y)
    | (Inl (Err e), (s, st)) \<Rightarrow> (Inl (Err e), (s\<lparr>ss_refresh := (ss_refresh s)\<lparr>RefreshErrors := inc ''scanners'' (RefreshErrors (ss_refresh s))\<rparr>\<rparr>, st))
    | (Inr _, (s, st)) \<Rightarrow> (Inr (), (s\<lparr>ss_refresh := (ss_refresh s)\<lparr>RefreshCounts := inc ''scanners'' (RefreshCounts (ss_refresh s))\<rparr>\<rparr>, st)))"

definition scan_Start :: "('v, 'r, 'c, 'st) scan_deps \<Rightarrow> 'q sched_api \<Rightarrow> (('v, 'r) scannerServer \<times> 'st \<times> 'q option, unit) op" where
  "scan_Start D S = (\<lambda>(s, st, sched). (case sched of
      None \<Rightarrow> (case scan_Refresh D (s, st) of (r, (s', st')) \<Rightarrow> (r, (s', st', None)))
    | Some q \<Rightarrow> (case sch_Do S (Duration (cfg_Refresh (ss_config s))) (RefreshTask ''scanners'') q of
        (Inl e, q') \<Rightarrow> (Inl (Err e), (s, st, Some q'))
      | (Inr j, q') \<Rightarrow> (Inr (), (s, st, Some q')))))"

text \<open>The routine of a scanner opens its file.\<close>

definition run_routine :: "(string \<Rightarrow> tail_Config \<Rightarrow> go_error + nat) \<Rightarrow> nat \<Rightarrow> ('v, 'r) scannerServer \<Rightarrow> ('v, 'r) scannerServer" where
  "run_routine tailFile i s = (if sc_pending (ss_objects s ! i)
     then s\<lparr>ss_objects := (ss_objects s)[i := sc_routine tailFile (ss_objects s ! i)]\<rparr> else s)"

section \<open>Synchronisation with the store\<close>

definition active :: "Scanner \<Rightarrow> bool" where
  "active sc = (sc_pending sc \<or> sc_tail sc \<noteq> None)"

text \<open>
  The table refers to different, active scanners, and every scanner that follows its file is in
  the table.
\<close>

definition table_inv :: "('v, 'r) scannerServer \<Rightarrow> bool" where
  "table_inv s = (wf_map (ss_scanners s)
    \<and> (\<forall>n i. ss_get n s = Some i \<longrightarrow> i < length (ss_objects s) \<and> active (ss_objects s ! i))
    \<and> (\<forall>n m i. ss_get n s = Some i \<longrightarrow> n \<noteq> m \<longrightarrow> ss_get m s \<noteq> Some i)
    \<and> (\<forall>i < length (ss_objects s). sc_tail (ss_objects s ! i) \<noteq> None \<longrightarrow> (\<exists>n. ss_get n s = Some i)))"

lemma table_invD:
  assumes "table_inv s"
  shows "wf_map (ss_scanners s)" "\<And>n i. ss_get n s = Some i \<Longrightarrow> i < length (ss_objects s)"
    "\<And>n i. ss_get n s = Some i \<Longrightarrow> active (ss_objects s ! i)"
    "\<And>n m i. ss_get n s = Some i \<Longrightarrow> n \<noteq> m \<Longrightarrow> ss_get m s \<noteq> Some i"
    "\<And>i. i < length (ss_objects s) \<Longrightarrow> sc_tail (ss_objects s ! i) \<noteq> None \<Longrightarrow> \<exists>n. ss_get n s = Some i"
  using assms by (simp_all add: table_inv_def)

definition stored_scan :: "('v, 'r, 'c, 'st) scan_deps \<Rightarrow> 'st \<Rightarrow> string \<Rightarrow> Scan option" where
  "stored_scan D st n = (case fst (cs_get (sd_store D) n st) of Inr x \<Rightarrow> x | Inl _ \<Rightarrow> None)"

definition scan_ok :: "('v, 'r, 'c, 'st) scan_deps \<Rightarrow> desc set \<Rightarrow> string \<Rightarrow> Scan \<Rightarrow> bool" where
  "scan_ok D F n scan = (scan_Name scan = n \<and> (scan_Enabled scan \<longrightarrow>
     scan_descs scan \<subseteq> F \<and> compiles (sd_compile D) scan \<and> (scan_Format scan = CRDBv2 \<or> scan_Format scan = CRDBv2Auth)))"

definition scans_ok :: "('v, 'r, 'c, 'st) scan_deps \<Rightarrow> desc set \<Rightarrow> ('v, 'r, 'st) sstate \<Rightarrow> bool" where
  "scans_ok D F = (\<lambda>(s, st, keep). libs_ok (sd_libs D) \<and> coherent (sd_libs D) F \<and> compat (sd_libs D) F (w_reg (ss_world s)) \<and> table_inv s
    \<and> (\<forall>n. cs_get (sd_store D) n st = (Inr (stored_scan D st n), st))
    \<and> (\<forall>n scan. stored_scan D st n = Some scan \<longrightarrow> scan_ok D F n scan))"

definition scan_wants :: "('v, 'r, 'c, 'st) scan_deps \<Rightarrow> ('v, 'r, 'st) sstate \<Rightarrow> string \<Rightarrow> bool" where
  "scan_wants D = (\<lambda>(s, st, keep) n. \<exists>scan. stored_scan D st n = Some scan \<and> scan_Enabled scan)"

definition scan_runs :: "('v, 'r, 'c, 'st) scan_deps \<Rightarrow> ('v, 'r, 'st) sstate \<Rightarrow> string \<Rightarrow> bool" where
  "scan_runs D = (\<lambda>(s, st, keep) n. \<exists>scan i. stored_scan D st n = Some scan \<and> ss_get n s = Some i \<and> active (ss_objects s ! i)
     \<and> scan_LastModified scan \<le> sc_GetLastModified (ss_objects s ! i))"

lemma sc_Stop_simps [simp]: "sc_tail (sc_Stop x) = None" "sc_target (sc_Stop x) = sc_target x" "sc_pending (sc_Stop x) = sc_pending x"
  by (simp_all add: sc_Stop_def split: option.splits)

lemma start_scanner_succeeds:
  assumes ok: "libs_ok (sd_libs D)" "coherent (sd_libs D) F" "compat (sd_libs D) F (w_reg (ss_world s))" "scan_ok D F n scan" "scan_Enabled scan"
  shows "\<exists>s' sc. start_scanner D scan s = (Inr (), s') \<and> compat (sd_libs D) F (w_reg (ss_world s'))
    \<and> ss_objects s' = ss_objects s @ [sc] \<and> active sc \<and> sc_tail sc = None \<and> sc_GetLastModified sc = scan_LastModified scan
    \<and> ss_scanners s' = AList.update n (length (ss_objects s)) (ss_scanners s)"
proof -
  let ?cfg = "\<lparr>scfg_Follow = True, scfg_FromBeginning = ss_fromBeginning s, scfg_Poll = (\<not> cfg_Inotify (ss_config s))\<rparr>"
  have so: "scan_Name scan = n" "scan_descs scan \<subseteq> F" "compiles (sd_compile D) scan" "scan_Format scan = CRDBv2 \<or> scan_Format scan = CRDBv2Auth"
    using ok(4,5) by (auto simp: scan_ok_def)
  obtain sc w where fc: "FromConfig (sd_libs D) (sd_compile D) scan ?cfg (ss_world s) = (Inr sc, w)" "compat (sd_libs D) F (w_reg w)"
    using FromConfig_succeeds[OF ok(1-3) so(2-4)] by blast
  have "sc_target sc = scan" "sc_tail sc = None" using FromConfig_fresh[OF ok(1) fc(1)] by simp_all
  then show ?thesis
    using fc so(1) by (simp add: start_scanner_def buildScanner_def Let_def ss_add_def sc_Start_def active_def sc_GetLastModified_def)
qed

text \<open>The scanner of a name is replaced: the old one, if any, is stopped.\<close>

lemma replace_scanner:
  assumes ok: "libs_ok (sd_libs D)" "coherent (sd_libs D) F" "compat (sd_libs D) F (w_reg (ss_world s))" "scan_ok D F n scan" "scan_Enabled scan"
    and inv: "table_inv s" and old: "s0 = (case ss_get n s of None \<Rightarrow> s | Some i \<Rightarrow> stop_object i s)"
  shows "\<exists>s'. start_scanner D scan s0 = (Inr (), s') \<and> compat (sd_libs D) F (w_reg (ss_world s')) \<and> table_inv s'
    \<and> (\<exists>i. ss_get n s' = Some i \<and> active (ss_objects s' ! i) \<and> scan_LastModified scan \<le> sc_GetLastModified (ss_objects s' ! i))
    \<and> (\<forall>m. m \<noteq> n \<longrightarrow> ss_get m s' = ss_get m s \<and> (\<forall>i. ss_get m s = Some i \<longrightarrow> ss_objects s' ! i = ss_objects s ! i))"
proof -
  note I = table_invD[OF inv]
  have s0: "ss_world s0 = ss_world s" "ss_scanners s0 = ss_scanners s" "length (ss_objects s0) = length (ss_objects s)"
    by (simp_all add: old stop_object_def split: option.splits)
  have obj: "ss_objects s0 ! i = (if ss_get n s = Some i then sc_Stop (ss_objects s ! i) else ss_objects s ! i)" if "i < length (ss_objects s)" for i
    using that by (auto simp: old stop_object_def nth_list_update split: option.splits)
  have c0: "compat (sd_libs D) F (w_reg (ss_world s0))" using ok(3) s0(1) by simp
  obtain s' sc where s': "start_scanner D scan s0 = (Inr (), s')" "compat (sd_libs D) F (w_reg (ss_world s'))"
      "ss_objects s' = ss_objects s0 @ [sc]" "active sc" "sc_tail sc = None" "sc_GetLastModified sc = scan_LastModified scan"
      "ss_scanners s' = AList.update n (length (ss_objects s0)) (ss_scanners s0)"
    using start_scanner_succeeds[OF ok(1,2) c0 ok(4,5)] by blast
  let ?k = "length (ss_objects s)"
  have g: "ss_get m s' = (if m = n then Some ?k else ss_get m s)" for m by (simp add: ss_get_def s'(7) s0)
  have new: "ss_objects s' ! ?k = sc" using s0(3) by (simp add: s'(3) nth_append)
  have keep: "ss_objects s' ! i = ss_objects s ! i" if "m \<noteq> n" "ss_get m s = Some i" for m i
    using that I(2)[OF that(2)] I(4)[OF that(2), of n] by (simp add: s'(3) nth_append s0(3) obj)
  have "table_inv s'"
    unfolding table_inv_def
  proof (intro conjI allI impI)
    show "wf_map (ss_scanners s')" using I(1) by (auto simp: s'(7) s0)
  next
    fix m i assume m: "ss_get m s' = Some i"
    show "i < length (ss_objects s')" using m I(2)[of m i] by (auto simp: g s'(3) s0(3) split: if_splits)
    show "active (ss_objects s' ! i)" using m I(3)[of m i] keep[of m i] new s'(4) by (auto simp: g split: if_splits)
  next
    fix m m' i assume "ss_get m s' = Some i" "m \<noteq> m'"
    then show "ss_get m' s' \<noteq> Some i" using I(2)[of m i] I(2)[of m' i] I(4)[of m i m'] by (auto simp: g split: if_splits)
  next
    fix i assume i: "i < length (ss_objects s')" "sc_tail (ss_objects s' ! i) \<noteq> None"
    then have "i \<noteq> ?k" using new s'(5) by auto
    then have il: "i < ?k" using i(1) by (simp add: s'(3) s0(3))
    then have t: "ss_get n s \<noteq> Some i" "sc_tail (ss_objects s ! i) \<noteq> None"
      using i(2) obj[OF il] by (auto simp: s'(3) nth_append s0(3) split: if_splits)
    obtain m where "ss_get m s = Some i" using I(5)[OF il t(2)] by blast
    then show "\<exists>m. ss_get m s' = Some i" using t(1) by (intro exI[of _ m]) (auto simp: g)
  qed
  then show ?thesis using s'(1,2,4,6) g new keep by auto
qed

lemma scan_one_sync:
  assumes ok: "scans_ok D F (s, st, keep)" and n: "stored_scan D st n \<noteq> None"
  shows "\<exists>s'. scan_one D n (s, st, keep) = (Inr (), (s', st, if scan_wants D (s, st, keep) n then insert n keep else keep))
    \<and> scans_ok D F (s', st, k') \<and> (\<forall>m. m \<noteq> n \<longrightarrow> scan_runs D (s, st, k) m \<longrightarrow> scan_runs D (s', st, k') m)
    \<and> (scan_wants D (s, st, keep) n \<longrightarrow> scan_runs D (s', st, k') n)"
proof -
  obtain scan where scan: "stored_scan D st n = Some scan" using n by blast
  have g: "cs_get (sd_store D) n st = (Inr (Some scan), st)" and so: "scan_ok D F n scan" using ok scan by (simp_all add: scans_ok_def)
  have L: "libs_ok (sd_libs D)" "coherent (sd_libs D) F" "compat (sd_libs D) F (w_reg (ss_world s))" "table_inv s"
    using ok by (simp_all add: scans_ok_def)
  show ?thesis
  proof (cases "scan_Enabled scan")
    case False
    then show ?thesis using ok g scan by (simp add: scan_one_def scan_wants_def scan_runs_def scans_ok_def)
  next
    case True
    show ?thesis
    proof (cases "\<exists>i. ss_get n s = Some i \<and> \<not> sc_GetLastModified (ss_objects s ! i) < scan_LastModified scan")
      case uptodate: True
      then obtain i where i: "ss_get n s = Some i" "\<not> sc_GetLastModified (ss_objects s ! i) < scan_LastModified scan" by blast
      have "active (ss_objects s ! i)" by (rule table_invD(3)[OF L(4) i(1)])
      then show ?thesis using ok g scan True i by (simp add: scan_one_def scan_wants_def scan_runs_def scans_ok_def)
    next
      case False
      let ?s0 = "case ss_get n s of None \<Rightarrow> s | Some i \<Rightarrow> stop_object i s"
      obtain s' where s': "start_scanner D scan ?s0 = (Inr (), s')" "compat (sd_libs D) F (w_reg (ss_world s'))" "table_inv s'"
          "\<exists>i. ss_get n s' = Some i \<and> active (ss_objects s' ! i) \<and> scan_LastModified scan \<le> sc_GetLastModified (ss_objects s' ! i)"
          "\<forall>m. m \<noteq> n \<longrightarrow> ss_get m s' = ss_get m s \<and> (\<forall>i. ss_get m s = Some i \<longrightarrow> ss_objects s' ! i = ss_objects s ! i)"
        using replace_scanner[OF L(1-3) so True L(4) refl] by blast
      have r: "scan_one D n (s, st, keep) = (Inr (), (s', st, insert n keep))"
        using g True False s'(1) by (auto simp: scan_one_def split: option.splits)
      have "scan_runs D (s', st, k') m" if "m \<noteq> n" "scan_runs D (s, st, k) m" for m using that s'(5) by (auto simp: scan_runs_def)
      moreover have "scan_runs D (s', st, k') n" using s'(4) scan by (simp add: scan_runs_def)
      moreover have "scans_ok D F (s', st, k')" using ok s'(2,3) by (simp add: scans_ok_def)
      ultimately show ?thesis using r scan True by (simp add: scan_wants_def)
    qed
  qed
qed

lemma cleanup_entry_inv:
  assumes inv: "table_inv s" and e: "ss_get k s = Some i"
  shows "table_inv (ss_delete k (stop_object i s))"
proof -
  note I = table_invD[OF inv]
  let ?s = "ss_delete k (stop_object i s)"
  have g: "ss_get m ?s = (if m = k then None else ss_get m s)" for m by (simp add: ss_get_def ss_delete_def stop_object_def)
  have len: "length (ss_objects ?s) = length (ss_objects s)" by (simp add: ss_delete_def stop_object_def)
  have obj: "ss_objects ?s ! j = (if j = i then sc_Stop (ss_objects s ! i) else ss_objects s ! j)" if "j < length (ss_objects s)" for j
    using that by (simp add: ss_delete_def stop_object_def nth_list_update)
  show ?thesis
    unfolding table_inv_def
  proof (intro conjI allI impI)
    show "wf_map (ss_scanners ?s)" using I(1) by (auto simp: ss_delete_def stop_object_def)
  next
    fix m j assume "ss_get m ?s = Some j"
    then have m: "m \<noteq> k" "ss_get m s = Some j" by (auto simp: g split: if_splits)
    show "j < length (ss_objects ?s)" using I(2)[OF m(2)] len by simp
    have "j \<noteq> i" using I(4)[OF e, of m] m by auto
    then show "active (ss_objects ?s ! j)" using I(2,3)[OF m(2)] by (simp add: obj)
  next
    fix m m' j assume "ss_get m ?s = Some j" "m \<noteq> m'"
    then show "ss_get m' ?s \<noteq> Some j" using I(4)[of m j m'] by (auto simp: g split: if_splits)
  next
    fix j assume j: "j < length (ss_objects ?s)" "sc_tail (ss_objects ?s ! j) \<noteq> None"
    then have t: "j \<noteq> i" "sc_tail (ss_objects s ! j) \<noteq> None" by (auto simp: obj len split: if_splits)
    obtain m where m: "ss_get m s = Some j" using I(5)[of j] j(1) t(2) len by auto
    have "m \<noteq> k" using m e t(1) by auto
    then show "\<exists>m. ss_get m ?s = Some j" using m by (intro exI[of _ m]) (simp add: g)
  qed
qed

lemma cleanup_each_effect:
  "table_inv s \<Longrightarrow> distinct (map fst l) \<Longrightarrow> \<forall>(k, i) \<in> set l. ss_get k s = Some i
    \<Longrightarrow> table_inv (cleanup_each keep l s) \<and> ss_world (cleanup_each keep l s) = ss_world s
      \<and> (\<forall>m. ss_get m (cleanup_each keep l s) = (if m \<in> fst ` set l \<and> m \<notin> keep then None else ss_get m s))
      \<and> (\<forall>m \<in> keep. \<forall>i. ss_get m s = Some i \<longrightarrow> ss_objects (cleanup_each keep l s) ! i = ss_objects s ! i)"
proof (induction l arbitrary: s)
  case (Cons x l)
  obtain k i where x: "x = (k, i)" by fastforce
  have e: "ss_get k s = Some i" and nk: "k \<notin> fst ` set l" using Cons.prems(2,3) x by (auto simp: image_iff)
  let ?s = "if k \<in> keep then s else ss_delete k (stop_object i s)"
  have inv: "table_inv ?s" using Cons.prems(1) cleanup_entry_inv[OF Cons.prems(1) e] by simp
  have g: "ss_get m ?s = (if m = k \<and> k \<notin> keep then None else ss_get m s)" for m by (simp add: ss_get_def ss_delete_def stop_object_def)
  have rest: "\<forall>(k', i') \<in> set l. ss_get k' ?s = Some i'"
  proof
    fix p assume p: "p \<in> set l"
    then have "fst p \<noteq> k" "case p of (k', i') \<Rightarrow> ss_get k' s = Some i'" using Cons.prems(3) nk by auto
    then show "case p of (k', i') \<Rightarrow> ss_get k' ?s = Some i'" unfolding g by auto
  qed
  have d: "distinct (map fst l)" using Cons.prems(2) by simp
  have o: "ss_objects ?s ! j = ss_objects s ! j" if "m \<in> keep" "ss_get m s = Some j" for m j
    using table_invD(4)[OF Cons.prems(1) that(2), of k] that e by (cases "m = k") (auto simp: ss_delete_def stop_object_def)
  have w: "ss_world ?s = ss_world s" by (simp add: ss_delete_def stop_object_def)
  have st: "cleanup_each keep (x # l) s = cleanup_each keep l ?s" by (simp add: x)
  note IH = Cons.IH[OF inv d rest]
  have "ss_get m (cleanup_each keep (x # l) s) = (if m \<in> fst ` set (x # l) \<and> m \<notin> keep then None else ss_get m s)" for m
  proof -
    have "ss_get m (cleanup_each keep l ?s) = (if m \<in> fst ` set l \<and> m \<notin> keep then None else ss_get m ?s)" using IH by blast
    then show ?thesis unfolding st g using nk by (auto simp: x)
  qed
  moreover have "ss_objects (cleanup_each keep (x # l) s) ! j = ss_objects s ! j" if m: "m \<in> keep" "ss_get m s = Some j" for m j
  proof -
    have "ss_get m ?s = Some j" using m by (auto simp: g)
    then show ?thesis unfolding st using IH m(1) o[OF m] by simp
  qed
  moreover have "table_inv (cleanup_each keep l ?s)" "ss_world (cleanup_each keep l ?s) = ss_world s"
    using IH unfolding w by blast+
  ultimately show ?case unfolding st by blast
qed simp

lemma ss_cleanup_effect:
  assumes inv: "table_inv s"
  shows "table_inv (ss_cleanup keep s) \<and> ss_world (ss_cleanup keep s) = ss_world s
    \<and> (\<forall>m. ss_get m (ss_cleanup keep s) = (if m \<in> keep then ss_get m s else None))
    \<and> (\<forall>m \<in> keep. \<forall>i. ss_get m s = Some i \<longrightarrow> ss_objects (ss_cleanup keep s) ! i = ss_objects s ! i)"
proof -
  have wf: "wf_map (ss_scanners s)" by (rule table_invD(1)[OF inv])
  have d: "distinct (map fst (ss_scanners s))" using wf by (simp add: wf_map_def keys_def)
  have a: "\<forall>(k, i) \<in> set (ss_scanners s). ss_get k s = Some i" using wf_map_in_set[OF wf] by (auto simp: ss_get_def)
  have f: "m \<notin> fst ` set (ss_scanners s) \<Longrightarrow> ss_get m s = None" for m by (simp add: ss_get_def map_of_eq_None_iff)
  have "(if m \<in> fst ` set (ss_scanners s) \<and> m \<notin> keep then None else ss_get m s) = (if m \<in> keep then ss_get m s else None)" for m using f by auto
  then show ?thesis using cleanup_each_effect[OF inv d a, of keep] unfolding ss_cleanup_def by simp
qed

text \<open>The scanner server implements the contract of a refresh, too.\<close>

definition scan_cleanup_step :: "(('v, 'r, 'st) sstate, unit) op" where
  "scan_cleanup_step = (\<lambda>(s, st, keep). (Inr (), (ss_cleanup keep s, st, keep)))"

interpretation scan_sync: config_sync "scan_one D" scan_cleanup_step "scans_ok D F" "\<lambda>(s, st, keep). dom (stored_scan D st)"
    "scan_wants D" "\<lambda>(s, st, keep). keep" "\<lambda>(s, st, keep) n. ss_get n s \<noteq> None" "scan_runs D" for D F
proof (unfold_locales, goal_cases)
  case (1 x n)
  obtain s st keep where x: "x = (s, st, keep)" by (cases x) blast
  have st: "stored_scan D st n \<noteq> None" using 1(2) by (auto simp: x)
  let ?k = "if scan_wants D (s, st, keep) n then insert n keep else keep"
  from scan_one_sync[OF 1(1)[unfolded x] st, of ?k keep] obtain s' where
    s': "scan_one D n (s, st, keep) = (Inr (), (s', st, ?k))" "scans_ok D F (s', st, ?k)"
      "\<forall>m. m \<noteq> n \<longrightarrow> scan_runs D (s, st, keep) m \<longrightarrow> scan_runs D (s', st, ?k) m"
      "scan_wants D (s, st, keep) n \<longrightarrow> scan_runs D (s', st, ?k) n"
    by metis
  have "scan_wants D (s', st, ?k) = scan_wants D (s, st, keep)" by (simp add: scan_wants_def)
  then show ?case unfolding x using s' by (intro exI[of _ "(s', st, ?k)"]) simp
next
  case (2 x)
  obtain s st keep where x: "x = (s, st, keep)" by (cases x) blast
  have "table_inv s" using 2 by (simp add: x scans_ok_def)
  note C = ss_cleanup_effect[OF this, of keep]
  have "scans_ok D F (ss_cleanup keep s, st, keep)" using 2 C by (simp add: x scans_ok_def)
  moreover have "scan_wants D (ss_cleanup keep s, st, keep) = scan_wants D (s, st, keep)" by (simp add: scan_wants_def)
  moreover have "scan_runs D (ss_cleanup keep s, st, keep) m" if "m \<in> keep" "scan_runs D (s, st, keep) m" for m
    using that C by (auto simp: scan_runs_def)
  moreover have "ss_get m (ss_cleanup keep s) \<noteq> None \<longrightarrow> m \<in> keep" for m using C by simp
  ultimately show ?case unfolding x by (intro exI[of _ "(ss_cleanup keep s, st, keep)"]) (simp add: scan_cleanup_step_def)
qed

section \<open>Properties\<close>

text \<open>
  C28: a refresh brings the scanners in line with the store.  If the store answers and its enabled
  scans have a known format, valid expressions and metrics that can be registered, the refresh
  returns without error, and afterwards there is a scanner exactly for the enabled scans; each is
  started and not older than the stored configuration, and every scanner that follows a file is
  in the table.
\<close>

theorem scan_refresh_synchronises:
  assumes "scans_ok D F (s, st, {})" "cs_names (sd_store D) st = (Inr names, st)" "set names = dom (stored_scan D st)"
  shows "\<exists>s'. scan_refresh D (s, st) = (Inr (), (s', st)) \<and> scans_ok D F (s', st, {})
    \<and> (\<forall>n. ss_get n s' \<noteq> None \<longleftrightarrow> (\<exists>scan. stored_scan D st n = Some scan \<and> scan_Enabled scan))
    \<and> (\<forall>n i scan. ss_get n s' = Some i \<longrightarrow> stored_scan D st n = Some scan \<longrightarrow> active (ss_objects s' ! i)
         \<and> scan_LastModified scan \<le> sc_GetLastModified (ss_objects s' ! i))
    \<and> (\<forall>i < length (ss_objects s'). sc_tail (ss_objects s' ! i) \<noteq> None \<longrightarrow> (\<exists>n. ss_get n s' = Some i))"
proof -
  let ?x = "(s, st, {} :: string set)"
  have sub: "set names \<subseteq> dom (stored_scan D st)" and w: "\<And>n. scan_wants D ?x n \<Longrightarrow> n \<in> set names"
    using assms(3) by (auto simp: scan_wants_def)
  obtain x1 x2 where x: "for_each (scan_one D) names ?x = (Inr (), x1)" "scan_cleanup_step x1 = (Inr (), x2)" "scans_ok D F x2"
      "\<forall>n. scan_wants D ?x n \<longrightarrow> scan_runs D x2 n" "\<forall>n. (case x2 of (s, st, keep) \<Rightarrow> \<lambda>n. ss_get n s \<noteq> None) n \<longrightarrow> scan_wants D ?x n"
    using scan_sync.sync[OF assms(1), of names] sub w by auto
  obtain s1 st1 k1 where x1: "x1 = (s1, st1, k1)" by (cases x1) blast
  let ?s = "ss_cleanup k1 s1"
  have x2: "x2 = (?s, st1, k1)" using x(2) by (simp add: x1 scan_cleanup_step_def)
  have st1: "st1 = st"
  proof -
    have "\<forall>n. cs_get (sd_store D) n st = (Inr (stored_scan D st n), st)" using assms(1) by (simp add: scans_ok_def)
    then have "(case y of (a, b, c) \<Rightarrow> b) = st \<Longrightarrow> scan_one D n y = (r, y') \<Longrightarrow> (case y' of (a, b, c) \<Rightarrow> b) = st" for n y y' r
      by (auto simp: scan_one_def split: prod.splits option.splits if_splits)
    from for_each_inv[where P = "\<lambda>y. (case y of (a, b, c) \<Rightarrow> b) = st", OF _ _ x(1)] this show ?thesis by (simp add: x1)
  qed
  have "scan_refresh D (s, st) = (Inr (), (?s, st))" using x(1) by (simp add: scan_refresh_def assms(2) x1 st1)
  moreover have ok: "scans_ok D F (?s, st, {})" using x(3) by (simp add: x2 st1 scans_ok_def)
  moreover have "ss_get n ?s \<noteq> None \<longleftrightarrow> (\<exists>scan. stored_scan D st n = Some scan \<and> scan_Enabled scan)" for n
    using x(4,5) by (auto simp: x2 scan_runs_def scan_wants_def)
  moreover have "active (ss_objects ?s ! i) \<and> scan_LastModified scan \<le> sc_GetLastModified (ss_objects ?s ! i)"
    if "ss_get n ?s = Some i" "stored_scan D st n = Some scan" for n i scan
  proof -
    have "scan_runs D x2 n" using x(4,5) that by (auto simp: x2)
    then show ?thesis using that by (auto simp: x2 st1 scan_runs_def)
  qed
  moreover have "table_inv ?s" using ok by (simp add: scans_ok_def)
  then have "\<forall>i < length (ss_objects ?s). sc_tail (ss_objects ?s ! i) \<noteq> None \<longrightarrow> (\<exists>n. ss_get n ?s = Some i)" by (simp add: table_inv_def)
  ultimately show ?thesis by blast
qed

text \<open>The in-memory store with one scan, and a server that has not been refreshed yet.\<close>

definition mem_scans_store :: "(Memory, Scan) conf_store" where
  "mem_scans_store = \<lparr>cs_names = \<lambda>m. (mem_GetScanNames m, m), cs_get = \<lambda>n m. (mem_GetScan m n, m)\<rparr>"

definition ex_sdeps :: "(list_vec, list_reg, int \<times> (string, cacheValue) gomap, Memory) scan_deps" where
  "ex_sdeps = \<lparr>sd_libs = ref_libs, sd_compile = ex_any, sd_store = mem_scans_store\<rparr>"

definition ex_sserver :: "(list_vec, list_reg) scannerServer" where
  "ex_sserver = projr (scan_New (\<lambda>x r. Inr r) ex_config ex_world)"

definition ex_scans_mem :: Memory where
  "ex_scans_mem = ex_mem\<lparr>mem_scans := Some [(''crdb'', ex_scan)]\<rparr>"

lemma ex_sserver_fields: "ss_scanners ex_sserver = []" "ss_world ex_sserver = ex_world" "ss_objects ex_sserver = []"
  by (simp_all add: ex_sserver_def scan_New_def ex_config_def)

lemma ex_scans:
  "cs_get (sd_store ex_sdeps) n ex_scans_mem = (Inr (if n = ''crdb'' then Some ex_scan else None), ex_scans_mem)"
  "cs_names (sd_store ex_sdeps) ex_scans_mem = (Inr [''crdb''], ex_scans_mem)"
  by (simp_all add: ex_sdeps_def mem_scans_store_def ex_scans_mem_def mem_GetScan_def mem_GetScanNames_def getNames_def
      guarded_def with_map_def ex_mem_def NewMemoryStore_def keys_def)

lemma ex_stored_scan: "stored_scan ex_sdeps ex_scans_mem = [''crdb'' \<mapsto> ex_scan]"
  by (simp add: stored_scan_def ex_scans fun_eq_iff)

lemma ex_scans_ok: "scans_ok ex_sdeps (scan_descs ex_scan) (ex_sserver, ex_scans_mem, {})"
proof -
  have "coherent ref_libs (scan_descs ex_scan)"
    by (auto simp: coherent_def scan_descs_def ex_scan_def ref_libs_def list_reg_api_def list_vec_api_def CRDBv2_def CRDBv2Auth_def v2_label_names_def)
  moreover have "compat ref_libs F (w_reg ex_world)" for F by (auto simp: compat_def ref_libs_def list_reg_api_def ex_world_def)
  moreover have "table_inv ex_sserver" by (simp add: table_inv_def ex_sserver_fields ss_get_def)
  moreover have "scan_ok ex_sdeps (scan_descs ex_scan) ''crdb'' ex_scan"
    by (simp add: scan_ok_def ex_scan_def compiles_def ex_sdeps_def ex_any_def)
  moreover have "sd_libs ex_sdeps = ref_libs" by (simp add: ex_sdeps_def)
  ultimately show ?thesis by (simp add: scans_ok_def ref_libs_ok ex_stored_scan ex_scans ex_sserver_fields)
qed

theorem scan_refresh_synchronises_witness:
  "\<exists>s' i. scan_refresh ex_sdeps (ex_sserver, ex_scans_mem) = (Inr (), (s', ex_scans_mem)) \<and> ss_get ''crdb'' s' = Some i
     \<and> active (ss_objects s' ! i)"
proof -
  have "set [''crdb''] = dom (stored_scan ex_sdeps ex_scans_mem)" by (simp add: ex_stored_scan)
  from scan_refresh_synchronises[OF ex_scans_ok ex_scans(2) this] obtain s' where
    s': "scan_refresh ex_sdeps (ex_sserver, ex_scans_mem) = (Inr (), (s', ex_scans_mem))"
      "ss_get ''crdb'' s' \<noteq> None \<longleftrightarrow> (\<exists>scan. stored_scan ex_sdeps ex_scans_mem ''crdb'' = Some scan \<and> scan_Enabled scan)"
      "\<forall>i scan. ss_get ''crdb'' s' = Some i \<longrightarrow> stored_scan ex_sdeps ex_scans_mem ''crdb'' = Some scan \<longrightarrow> active (ss_objects s' ! i)"
    by blast
  then show ?thesis by (auto simp: ex_stored_scan) (simp add: ex_scan_def)
qed

text \<open>
  C36: stopping a scanner whose routine has not opened its file yet has no effect: \<^verbatim>\<open>Stop\<close> sees no file,
  the scanner is dropped from the table, and then its routine opens the file and follows it, although
  no entry of the table refers to it any more, so that no later refresh can stop it.
\<close>

theorem stop_misses_starting_scanner:
  assumes "table_inv s" "ss_get n s = Some i" "sc_pending (ss_objects s ! i)" "sc_tail (ss_objects s ! i) = None"
    and "n \<notin> keep" "\<And>path cfg. tailFile path cfg = Inr t"
  shows "let s' = run_routine tailFile i (ss_cleanup keep s) in
     sc_tail (ss_objects s' ! i) = Some t \<and> i < length (ss_objects s') \<and> (\<forall>m. ss_get m s' \<noteq> Some i)"
proof -
  note C = ss_cleanup_effect[OF assms(1), of keep]
  have one: "sc_pending (ss_objects (stop_object j x) ! i) = sc_pending (ss_objects x ! i)
      \<and> (sc_tail (ss_objects x ! i) = None \<longrightarrow> sc_tail (ss_objects (stop_object j x) ! i) = None)
      \<and> length (ss_objects (stop_object j x)) = length (ss_objects x)" if "i < length (ss_objects x)" for j and x :: "('a, 'b) scannerServer"
    using that by (cases "j = i") (simp_all add: stop_object_def)
  have obj: "i < length (ss_objects x) \<Longrightarrow> sc_pending (ss_objects (cleanup_each keep l x) ! i) = sc_pending (ss_objects x ! i)
      \<and> (sc_tail (ss_objects x ! i) = None \<longrightarrow> sc_tail (ss_objects (cleanup_each keep l x) ! i) = None)
      \<and> length (ss_objects (cleanup_each keep l x)) = length (ss_objects x)" for l and x :: "('a, 'b) scannerServer"
  proof (induction l arbitrary: x)
    case (Cons y l)
    obtain k j where y: "y = (k, j)" by fastforce
    show ?case
    proof (cases "k \<in> keep")
      case True
      then show ?thesis using Cons by (simp add: y)
    next
      case False
      let ?x = "ss_delete k (stop_object j x)"
      have "ss_objects ?x = ss_objects (stop_object j x)" by (simp add: ss_delete_def)
      then show ?thesis using Cons.IH[of ?x] one[OF Cons.prems, of j] False Cons.prems by (simp add: y)
    qed
  qed simp
  have il: "i < length (ss_objects s)" by (rule table_invD(2)[OF assms(1,2)])
  let ?s = "ss_cleanup keep s"
  have o: "sc_pending (ss_objects ?s ! i)" "sc_tail (ss_objects ?s ! i) = None" "length (ss_objects ?s) = length (ss_objects s)"
    using obj[OF il, of "ss_scanners s"] assms(3,4) by (auto simp: ss_cleanup_def)
  have "ss_get m ?s \<noteq> Some i" for m
    using C assms(2,5) table_invD(4)[OF assms(1,2), of m] by (cases "m = n") auto
  then show ?thesis using o il assms(6) by (simp add: run_routine_def sc_routine_def sc_scan_def Let_def ss_get_def)
qed

theorem stop_misses_starting_scanner_witness:
  "let s = \<lparr>ss_config = ex_config, ss_fromBeginning = False, ss_world = ex_world, ss_objects = [ex_scanner\<lparr>sc_pending := True, sc_tail := None\<rparr>],
           ss_scanners = [(''crdb'', 0)], ss_refresh = \<lparr>RefreshCounts = [], RefreshErrors = []\<rparr>\<rparr>;
       s' = run_routine (\<lambda>p c. Inr 7) 0 (ss_cleanup {} s)
   in sc_tail (ss_objects s' ! 0) = Some 7 \<and> ss_get ''crdb'' s' = None"
proof -
  let ?s = "\<lparr>ss_config = ex_config, ss_fromBeginning = False, ss_world = ex_world, ss_objects = [ex_scanner\<lparr>sc_pending := True, sc_tail := None\<rparr>],
           ss_scanners = [(''crdb'', 0)], ss_refresh = \<lparr>RefreshCounts = [], RefreshErrors = []\<rparr>\<rparr>"
  have i: "table_inv ?s" by (auto simp: table_inv_def ss_get_def active_def split: if_splits)
  have g: "ss_get ''crdb'' ?s = Some 0" by (simp add: ss_get_def)
  have "ss_get ''crdb'' (run_routine (\<lambda>p c. Inr 7) 0 (ss_cleanup {} ?s)) = None"
    by (simp add: ss_get_def run_routine_def ss_cleanup_def ss_delete_def stop_object_def)
  then show ?thesis
    using stop_misses_starting_scanner[OF i g, of "{}" "\<lambda>p c. Inr 7" 7] by (simp add: Let_def)
qed

end
