(* ===== verification/Database.thy ===== *)
theory Database
  imports Visus_Prelude
begin

text \<open>
  \<^verbatim>\<open>internal/database/factory.go\<close> and \<^verbatim>\<open>pool.go\<close>: opening a pool of connections, with retries,
  and replacing it on a refresh.  The driver is an argument: what it makes of a URL, and how each
  attempt to create a pool and to ping the database ends.  The attempts and the waits are
  numbered, so that a driver can answer each of them differently.  The retry loop has no bound; it
  is a partial function, and not returning is the value \<open>None\<close>.
\<close>

section \<open>Opening a pool\<close>

datatype dial = CannotCreate go_error | CannotPing go_error | Reached

record 'cfg driver =
  drv_ParseConfig :: "string \<Rightarrow> go_error + 'cfg"
  drv_dial :: "'cfg \<Rightarrow> nat \<Rightarrow> dial"
  drv_cancelled :: "nat \<Rightarrow> go_error option"

text \<open>A pool of the driver: its configuration and what its \<^verbatim>\<open>AfterConnect\<close> hook has captured.\<close>

record 'cfg pgx_pool =
  pp_config :: 'cfg
  pp_ro :: bool
  pp_unsafe :: bool

text \<open>
  The state outside the program: how many attempts and which waits there were, the pools that are
  open, and the identity the next one gets.
\<close>

record 'cfg db_state =
  ds_attempts :: nat
  ds_waits :: "int list"
  ds_next :: nat
  ds_open :: "(nat, 'cfg pgx_pool) gomap"

text \<open>The hook a new connection runs; a pool that needs no setting has none.\<close>

definition followerReads :: string where
  "followerReads = ''set session default_transaction_use_follower_reads = true;''"

definition unsafeInternals :: string where
  "unsafeInternals = ''set allow_unsafe_internals = true;''"

definition AfterConnect :: "(string \<Rightarrow> ('c, unit) op) \<Rightarrow> bool \<Rightarrow> bool \<Rightarrow> ('c, unit) op" where
  "AfterConnect exec ro unsafe = op_bind (if ro then exec followerReads else op_return ())
     (\<lambda>_. if unsafe then exec unsafeInternals else op_return ())"

definition connectAndPing :: "'cfg driver \<Rightarrow> 'cfg pgx_pool \<Rightarrow> ('cfg db_state, nat) op" where
  "connectAndPing D p s = (let s1 = s\<lparr>ds_attempts := Suc (ds_attempts s)\<rparr> in
     case drv_dial D (pp_config p) (ds_attempts s) of
       CannotCreate e \<Rightarrow> (Inl (Err e), s1)
     | CannotPing e \<Rightarrow> (let s2 = s1\<lparr>ds_open := (ds_next s, p) # ds_open s1, ds_next := Suc (ds_next s)\<rparr>
         in (Inl (Err e), s2\<lparr>ds_open := AList.delete (ds_next s) (ds_open s2)\<rparr>))
     | Reached \<Rightarrow> (Inr (ds_next s), s1\<lparr>ds_open := (ds_next s, p) # ds_open s1, ds_next := Suc (ds_next s)\<rparr>))"

definition sleep :: "'cfg driver \<Rightarrow> int \<Rightarrow> ('cfg db_state, unit) op" where
  "sleep D seconds s = (case drv_cancelled D (length (ds_waits s)) of
     Some e \<Rightarrow> (Inl (Err e), s\<lparr>ds_waits := ds_waits s @ [seconds]\<rparr>)
   | None \<Rightarrow> (Inr (), s\<lparr>ds_waits := ds_waits s @ [seconds]\<rparr>))"

text \<open>The \<^verbatim>\<open>for\<close> loop of \<^verbatim>\<open>pgxPool\<close>.\<close>

partial_function (option) connect_loop ::
    "'cfg driver \<Rightarrow> 'cfg pgx_pool \<Rightarrow> int \<Rightarrow> 'cfg db_state \<Rightarrow> (nat result \<times> 'cfg db_state) option" where
  [code]: "connect_loop D p sleepTime s = (case connectAndPing D p s of
     (Inr i, s1) \<Rightarrow> Some (Inr i, s1)
   | (Inl e, s1) \<Rightarrow> (case sleep D sleepTime s1 of
       (Inl e', s2) \<Rightarrow> Some (Inl e', s2)
     | (Inr _, s2) \<Rightarrow> connect_loop D p (if sleepTime < 60 then sleepTime + 5 else sleepTime) s2))"

definition pgxPool :: "'cfg driver \<Rightarrow> string \<Rightarrow> bool \<Rightarrow> bool \<Rightarrow> 'cfg db_state \<Rightarrow> (nat result \<times> 'cfg db_state) option" where
  "pgxPool D URL ro unsafe s = (case drv_ParseConfig D URL of
     Inl e \<Rightarrow> Some (Inl (Panic ProcessExit), s)
   | Inr cfg \<Rightarrow> connect_loop D \<lparr>pp_config = cfg, pp_ro = ro, pp_unsafe = unsafe\<rparr> 5 s)"

section \<open>The pool of the program\<close>

record Pool =
  pl_readOnly :: bool
  pl_allowUnsafeInternals :: bool
  pl_URL :: string
  pl_pool :: nat

definition db_new :: "'cfg driver \<Rightarrow> string \<Rightarrow> bool \<Rightarrow> bool \<Rightarrow> 'cfg db_state \<Rightarrow> (Pool result \<times> 'cfg db_state) option" where
  "db_new D URL ro unsafe s = map_option (\<lambda>(r, s'). (case r of Inl e \<Rightarrow> Inl e
     | Inr i \<Rightarrow> Inr \<lparr>pl_readOnly = ro, pl_allowUnsafeInternals = unsafe, pl_URL = URL, pl_pool = i\<rparr>, s')) (pgxPool D URL ro unsafe s)"

definition db_New :: "'cfg driver \<Rightarrow> string \<Rightarrow> 'cfg db_state \<Rightarrow> (Pool result \<times> 'cfg db_state) option" where
  "db_New D URL = db_new D URL False False"

definition ReadOnly :: "'cfg driver \<Rightarrow> string \<Rightarrow> bool \<Rightarrow> 'cfg db_state \<Rightarrow> (Pool result \<times> 'cfg db_state) option" where
  "ReadOnly D URL unsafe = db_new D URL True unsafe"

definition pool_get :: "Pool \<Rightarrow> nat" where
  "pool_get p = pl_pool p"

text \<open>
  The methods \<^verbatim>\<open>Begin\<close>, \<^verbatim>\<open>BeginTx\<close>, \<^verbatim>\<open>Exec\<close>, \<^verbatim>\<open>Query\<close> and \<^verbatim>\<open>QueryRow\<close> are the driver's on the
  pool \<^verbatim>\<open>get\<close> returns.
\<close>

definition pool_call :: "(nat \<Rightarrow> 'a) \<Rightarrow> Pool \<Rightarrow> 'a" where
  "pool_call method p = method (pool_get p)"

definition Pool_Refresh :: "'cfg driver \<Rightarrow> Pool \<Rightarrow> 'cfg db_state \<Rightarrow> (unit result \<times> Pool \<times> 'cfg db_state) option" where
  "Pool_Refresh D p s = (case pgxPool D (pl_URL p) (pl_readOnly p) (pl_allowUnsafeInternals p) s of
     None \<Rightarrow> None
   | Some (Inl e, s1) \<Rightarrow> Some (Inl e, p, s1)
   | Some (Inr i, s1) \<Rightarrow> (let old = pl_pool p in
       Some (Inr (), p\<lparr>pl_pool := i\<rparr>, s1\<lparr>ds_open := AList.delete old (ds_open s1)\<rparr>)))"

section \<open>The loop\<close>

text \<open>
  The open pools have distinct identities below the next one.
\<close>

definition ds_wf :: "'cfg db_state \<Rightarrow> bool" where
  "ds_wf s = (wf_map (ds_open s) \<and> (\<forall>i \<in> dom (map_of (ds_open s)). i < ds_next s))"

definition unreached :: "'cfg driver \<Rightarrow> 'cfg \<Rightarrow> nat \<Rightarrow> bool" where
  "unreached D cfg a = (drv_dial D cfg a \<noteq> Reached)"

text \<open>The wait after the failed attempt number \<open>k\<close>, counted from 0.\<close>

definition backoff :: "nat \<Rightarrow> int" where
  "backoff k = min 60 (5 * (int k + 1))"

lemma ds_wf_fresh: "ds_wf s \<Longrightarrow> map_of (ds_open s) (ds_next s) = None"
  unfolding ds_wf_def by (metis domI less_irrefl not_None_eq)

lemma delete_fresh: "map_of m k = None \<Longrightarrow> AList.delete k m = m"
  by (induction m) (auto split: if_splits)

lemma connectAndPing_fails:
  assumes "ds_wf s" "unreached D (pp_config p) (ds_attempts s)"
  shows "\<exists>e s'. connectAndPing D p s = (Inl (Err e), s') \<and> ds_attempts s' = Suc (ds_attempts s) \<and> ds_waits s' = ds_waits s
    \<and> ds_open s' = ds_open s \<and> ds_next s \<le> ds_next s' \<and> ds_wf s'"
  using assms(2) delete_fresh[OF ds_wf_fresh[OF assms(1)]] assms(1)
  by (cases "drv_dial D (pp_config p) (ds_attempts s)")
    (auto simp: connectAndPing_def unreached_def Let_def ds_wf_def less_SucI intro: less_SucI)

lemma connectAndPing_reached:
  assumes "ds_wf s" "\<not> unreached D (pp_config p) (ds_attempts s)"
  shows "\<exists>s'. connectAndPing D p s = (Inr (ds_next s), s') \<and> ds_waits s' = ds_waits s \<and> ds_open s' = (ds_next s, p) # ds_open s \<and> ds_wf s'"
  using assms(2) ds_wf_fresh[OF assms(1)] assms(1)
  by (auto simp: connectAndPing_def unreached_def Let_def ds_wf_def less_Suc_eq)

text \<open>One round that fails and is not cancelled.\<close>

lemma connect_loop_round:
  assumes "ds_wf s" "unreached D (pp_config p) (ds_attempts s)" "drv_cancelled D (length (ds_waits s)) = None"
  shows "\<exists>s'. connect_loop D p t s = connect_loop D p (if t < 60 then t + 5 else t) s' \<and> ds_attempts s' = Suc (ds_attempts s)
    \<and> ds_waits s' = ds_waits s @ [t] \<and> ds_open s' = ds_open s \<and> ds_next s \<le> ds_next s' \<and> ds_wf s'"
proof -
  obtain e s1 where s1: "connectAndPing D p s = (Inl (Err e), s1)" "ds_attempts s1 = Suc (ds_attempts s)" "ds_waits s1 = ds_waits s"
      "ds_open s1 = ds_open s" "ds_next s \<le> ds_next s1" "ds_wf s1"
    using connectAndPing_fails[OF assms(1,2)] by blast
  let ?s2 = "s1\<lparr>ds_waits := ds_waits s1 @ [t]\<rparr>"
  have "connect_loop D p t s = connect_loop D p (if t < 60 then t + 5 else t) ?s2"
    by (subst connect_loop.simps) (simp add: s1(1,3) sleep_def assms(3))
  then show ?thesis using s1 by (intro exI[of _ ?s2]) (simp add: ds_wf_def)
qed

lemma backoff_step: "(if backoff k < 60 then backoff k + 5 else backoff k) = backoff (Suc k)"
  by (simp add: backoff_def min_def)

text \<open>The first \<open>k\<close> rounds fail and are not cancelled.\<close>

definition held_up :: "'cfg driver \<Rightarrow> 'cfg \<Rightarrow> 'cfg db_state \<Rightarrow> nat \<Rightarrow> bool" where
  "held_up D cfg s k = (\<forall>i < k. unreached D cfg (ds_attempts s + i) \<and> drv_cancelled D (length (ds_waits s) + i) = None)"

lemma connect_loop_rounds:
  "ds_wf s \<Longrightarrow> held_up D (pp_config p) s k \<Longrightarrow>
    \<exists>s'. connect_loop D p (backoff j) s = connect_loop D p (backoff (j + k)) s' \<and> ds_attempts s' = ds_attempts s + k
      \<and> ds_waits s' = ds_waits s @ map (\<lambda>i. backoff (j + i)) [0..<k] \<and> ds_open s' = ds_open s \<and> ds_wf s'"
proof (induction k)
  case (Suc k)
  then obtain s1 where s1: "connect_loop D p (backoff j) s = connect_loop D p (backoff (j + k)) s1" "ds_attempts s1 = ds_attempts s + k"
      "ds_waits s1 = ds_waits s @ map (\<lambda>i. backoff (j + i)) [0..<k]" "ds_open s1 = ds_open s" "ds_wf s1"
    by (auto simp: held_up_def)
  have "unreached D (pp_config p) (ds_attempts s1)" "drv_cancelled D (length (ds_waits s1)) = None"
    using Suc.prems(2) s1(2,3) by (auto simp: held_up_def)
  from connect_loop_round[OF s1(5) this, of "backoff (j + k)"] s1 show ?case by (auto simp: backoff_step)
qed auto

lemma connect_loop_reached:
  assumes "ds_wf s" "held_up D (pp_config p) s k" "\<not> unreached D (pp_config p) (ds_attempts s + k)"
  shows "\<exists>i s'. connect_loop D p (backoff 0) s = Some (Inr i, s') \<and> i \<notin> dom (map_of (ds_open s)) \<and> ds_open s' = (i, p) # ds_open s \<and> ds_wf s'
    \<and> ds_waits s' = ds_waits s @ map backoff [0..<k]"
proof -
  obtain s1 where s1: "connect_loop D p (backoff 0) s = connect_loop D p (backoff k) s1" "ds_attempts s1 = ds_attempts s + k"
      "ds_waits s1 = ds_waits s @ map backoff [0..<k]" "ds_open s1 = ds_open s" "ds_wf s1"
    using connect_loop_rounds[OF assms(1,2), of 0] by auto
  obtain s2 where s2: "connectAndPing D p s1 = (Inr (ds_next s1), s2)" "ds_waits s2 = ds_waits s1" "ds_open s2 = (ds_next s1, p) # ds_open s1" "ds_wf s2"
    using connectAndPing_reached[OF s1(5)] assms(3) s1(2) by metis
  have "connect_loop D p (backoff k) s1 = Some (Inr (ds_next s1), s2)"
    by (subst connect_loop.simps) (simp add: s2(1))
  then show ?thesis using s1 s2 ds_wf_fresh[OF s1(5)] by (auto simp: domIff)
qed

lemma connect_loop_cancelled:
  assumes "ds_wf s" "held_up D (pp_config p) s k" "unreached D (pp_config p) (ds_attempts s + k)"
    "drv_cancelled D (length (ds_waits s) + k) = Some e"
  shows "\<exists>s'. connect_loop D p (backoff 0) s = Some (Inl (Err e), s') \<and> ds_open s' = ds_open s \<and> ds_wf s'"
proof -
  obtain s1 where s1: "connect_loop D p (backoff 0) s = connect_loop D p (backoff k) s1" "ds_attempts s1 = ds_attempts s + k"
      "ds_waits s1 = ds_waits s @ map backoff [0..<k]" "ds_open s1 = ds_open s" "ds_wf s1"
    using connect_loop_rounds[OF assms(1,2), of 0] by auto
  obtain e' s2 where s2: "connectAndPing D p s1 = (Inl (Err e'), s2)" "ds_waits s2 = ds_waits s1" "ds_open s2 = ds_open s1" "ds_wf s2"
    using connectAndPing_fails[OF s1(5)] assms(3) s1(2) by metis
  let ?s3 = "s2\<lparr>ds_waits := ds_waits s2 @ [backoff k]\<rparr>"
  have "connect_loop D p (backoff k) s1 = Some (Inl (Err e), ?s3)"
    by (subst connect_loop.simps) (simp add: s2(1,2) s1(3) sleep_def assms(4))
  then show ?thesis using s1(1,4) s2(3,4) by (simp add: ds_wf_def)
qed

text \<open>A loop that is held up for ever does not return.\<close>

lemma connect_loop_raw:
  assumes "connect_loop D p t s = Some y"
  shows "ds_wf s \<longrightarrow> \<not> (\<forall>k. held_up D (pp_config p) s k)"
proof (rule connect_loop.raw_induct[where P = "\<lambda>D p t s y. ds_wf s \<longrightarrow> \<not> (\<forall>k. held_up D (pp_config p) s k)", OF _ assms])
  fix loop :: "'a driver \<Rightarrow> 'a pgx_pool \<Rightarrow> int \<Rightarrow> 'a db_state \<Rightarrow> (nat result \<times> 'a db_state) option" and D p t s y
  assume ih: "\<And>D p t s y. loop D p t s = Some y \<Longrightarrow> ds_wf s \<longrightarrow> \<not> (\<forall>k. held_up D (pp_config p) s k)"
    and body: "(case connectAndPing D p s of (Inr i, s1) \<Rightarrow> Some (Inr i, s1)
      | (Inl e, s1) \<Rightarrow> (case sleep D t s1 of (Inl e', s2) \<Rightarrow> Some (Inl e', s2)
        | (Inr _, s2) \<Rightarrow> loop D p (if t < 60 then t + 5 else t) s2)) = Some y"
  show "ds_wf s \<longrightarrow> \<not> (\<forall>k. held_up D (pp_config p) s k)"
  proof (intro impI notI)
    assume w: "ds_wf s" and h: "\<forall>k. held_up D (pp_config p) s k"
    then have u: "unreached D (pp_config p) (ds_attempts s + i)" "drv_cancelled D (length (ds_waits s) + i) = None" for i
      unfolding held_up_def by blast+
    obtain e s1 where s1: "connectAndPing D p s = (Inl (Err e), s1)" "ds_attempts s1 = Suc (ds_attempts s)" "ds_waits s1 = ds_waits s" "ds_wf s1"
      using connectAndPing_fails[OF w] u(1)[of 0] by (metis add_0_right)
    let ?s2 = "s1\<lparr>ds_waits := ds_waits s1 @ [t]\<rparr>"
    have "loop D p (if t < 60 then t + 5 else t) ?s2 = Some y"
      using body u(2)[of 0] by (simp add: s1(1,3) sleep_def)
    from ih[OF this] s1(4) have "\<not> (\<forall>k. held_up D (pp_config p) ?s2 k)" by (simp add: ds_wf_def)
    moreover have "held_up D (pp_config p) ?s2 k" for k
      using u(1)[of "Suc i" for i] u(2)[of "Suc i" for i] by (simp add: held_up_def s1(2,3))
    ultimately show False by blast
  qed
qed

lemma connect_loop_diverges:
  "ds_wf s \<Longrightarrow> \<forall>k. held_up D (pp_config p) s k \<Longrightarrow> connect_loop D p t s = None"
  using connect_loop_raw[of D p t s] by (cases "connect_loop D p t s") auto

section \<open>Theorems\<close>

lemma pgxPool_loop:
  "drv_ParseConfig D URL = Inr cfg \<Longrightarrow> pgxPool D URL ro unsafe s = connect_loop D \<lparr>pp_config = cfg, pp_ro = ro, pp_unsafe = unsafe\<rparr> (backoff 0) s"
  by (simp add: pgxPool_def backoff_def)

text \<open>
  C15: opening a pool either ends or waits for ever, and it is known which.  If the first attempts
  fail and the next one reaches the database, the call returns a new open pool with the session
  settings asked for, having waited 5, 10, 15 and so on up to 60 seconds between the attempts; if
  the context is cancelled during a wait, the call returns that error; in both cases every pool of
  a failed attempt has been closed.  If neither ever happens, the call does not return.
\<close>

theorem pgxPool_outcome:
  assumes "drv_ParseConfig D URL = Inr cfg" "ds_wf s"
  shows "(\<forall>k. held_up D cfg s k \<and> \<not> unreached D cfg (ds_attempts s + k) \<longrightarrow>
      (\<exists>i s'. pgxPool D URL ro unsafe s = Some (Inr i, s') \<and> i \<notin> dom (map_of (ds_open s)) \<and> ds_wf s'
        \<and> ds_open s' = (i, \<lparr>pp_config = cfg, pp_ro = ro, pp_unsafe = unsafe\<rparr>) # ds_open s
        \<and> ds_waits s' = ds_waits s @ map (\<lambda>i. min 60 (5 * (int i + 1))) [0..<k]))
    \<and> (\<forall>k e. held_up D cfg s k \<and> unreached D cfg (ds_attempts s + k) \<and> drv_cancelled D (length (ds_waits s) + k) = Some e \<longrightarrow>
      (\<exists>s'. pgxPool D URL ro unsafe s = Some (Inl (Err e), s') \<and> ds_open s' = ds_open s \<and> ds_wf s'))
    \<and> ((\<forall>k. held_up D cfg s k) \<longrightarrow> pgxPool D URL ro unsafe s = None)"
proof -
  let ?p = "\<lparr>pp_config = cfg, pp_ro = ro, pp_unsafe = unsafe\<rparr>"
  have b: "(\<lambda>i. min 60 (5 * (int i + 1))) = backoff" by (simp add: fun_eq_iff backoff_def)
  note l = pgxPool_loop[OF assms(1), of ro unsafe s]
  have 1: "\<exists>i s'. pgxPool D URL ro unsafe s = Some (Inr i, s') \<and> i \<notin> dom (map_of (ds_open s)) \<and> ds_wf s'
      \<and> ds_open s' = (i, ?p) # ds_open s \<and> ds_waits s' = ds_waits s @ map backoff [0..<k]"
    if "held_up D cfg s k" "\<not> unreached D cfg (ds_attempts s + k)" for k
    using connect_loop_reached[OF assms(2), of D ?p k] that l by auto
  have 2: "\<exists>s'. pgxPool D URL ro unsafe s = Some (Inl (Err e), s') \<and> ds_open s' = ds_open s \<and> ds_wf s'"
    if "held_up D cfg s k" "unreached D cfg (ds_attempts s + k)" "drv_cancelled D (length (ds_waits s) + k) = Some e" for k e
    using connect_loop_cancelled[OF assms(2), of D ?p k e] that l by simp
  have 3: "pgxPool D URL ro unsafe s = None" if "\<forall>k. held_up D cfg s k"
    using connect_loop_diverges[OF assms(2), of D ?p] that l by simp
  show ?thesis unfolding b using 1 2 3 by blast
qed

definition ex_driver :: "unit driver" where
  "ex_driver = \<lparr>drv_ParseConfig = (\<lambda>_. Inr ()), drv_dial = (\<lambda>_ n. if n = 0 then CannotCreate ''refused'' else if n = 1 then CannotPing ''timeout'' else Reached),
     drv_cancelled = (\<lambda>_. None)\<rparr>"

definition ex_ds :: "unit db_state" where
  "ex_ds = \<lparr>ds_attempts = 0, ds_waits = [], ds_next = 1, ds_open = [(0, \<lparr>pp_config = (), pp_ro = True, pp_unsafe = False\<rparr>)]\<rparr>"

lemma ex_ds_ok: "drv_ParseConfig ex_driver u = Inr ()" "ds_wf ex_ds" "held_up ex_driver () ex_ds 2" "\<not> unreached ex_driver () (ds_attempts ex_ds + 2)"
  by (auto simp: ex_driver_def ex_ds_def ds_wf_def held_up_def unreached_def less_2_cases_iff numeral_2_eq_2 less_Suc_eq split: if_splits)

theorem pgxPool_outcome_witness:
  "\<exists>i s'. pgxPool ex_driver ''u'' True False ex_ds = Some (Inr i, s') \<and> ds_waits s' = [5, 10]"
proof -
  have "\<exists>i s'. pgxPool ex_driver ''u'' True False ex_ds = Some (Inr i, s')
      \<and> ds_waits s' = ds_waits ex_ds @ map (\<lambda>i. min 60 (5 * (int i + 1))) [0..<2]"
    using pgxPool_outcome[OF ex_ds_ok(1,2), of "''u''" True False] ex_ds_ok(3,4) by blast
  then show ?thesis by (simp add: ex_ds_def upt_rec)
qed

text \<open>Whatever opening a pool does, it leaves the open pools as they are, but for the new one.\<close>

lemma loop_frame:
  assumes "connect_loop D p (backoff 0) s = Some (r, s')" "ds_wf s"
  shows "ds_wf s' \<and> (case r of Inl e \<Rightarrow> ds_open s' = ds_open s \<and> (\<exists>m. e = Err m)
    | Inr i \<Rightarrow> i \<notin> dom (map_of (ds_open s)) \<and> ds_open s' = (i, p) # ds_open s)"
proof -
  have nd: "\<exists>k. \<not> held_up D (pp_config p) s k" using connect_loop_raw[OF assms(1)] assms(2) by blast
  define k where "k = (LEAST k. \<not> held_up D (pp_config p) s k)"
  have k: "\<not> held_up D (pp_config p) s k" unfolding k_def by (rule LeastI_ex[OF nd])
  then obtain j where j: "k = Suc j" by (cases k) (auto simp: held_up_def)
  have h: "held_up D (pp_config p) s j" using not_less_Least[of j "\<lambda>k. \<not> held_up D (pp_config p) s k"] j k_def by auto
  then have "\<not> unreached D (pp_config p) (ds_attempts s + j) \<or> drv_cancelled D (length (ds_waits s) + j) \<noteq> None"
    using k j by (auto simp: held_up_def less_Suc_eq)
  then consider "\<not> unreached D (pp_config p) (ds_attempts s + j)"
    | e where "unreached D (pp_config p) (ds_attempts s + j)" "drv_cancelled D (length (ds_waits s) + j) = Some e" by blast
  then show ?thesis
  proof cases
    case 1
    from connect_loop_reached[OF assms(2) h this] assms(1) show ?thesis by auto
  next
    case 2
    from connect_loop_cancelled[OF assms(2) h this] assms(1) show ?thesis by auto
  qed
qed

text \<open>
  C20: a refresh of a pool that returns leaves the pool usable.  On success the pool holds a new
  open pool of the driver with the same settings, the old one is closed, and no other pool is
  touched; on an error (the context was cancelled) the old pool is kept and is still open.  A
  client that has taken the old pool before the exchange and uses it after the refresh finds it
  closed.
\<close>

theorem Pool_Refresh_exchanges:
  assumes "drv_ParseConfig D (pl_URL p) = Inr cfg" "ds_wf s" "map_of (ds_open s) (pool_get p) = Some h"
    and "Pool_Refresh D p s = Some (r, p', s')"
  shows "ds_wf s' \<and> map_of (ds_open s') (pool_get p') \<noteq> None
    \<and> (r = Inr () \<longrightarrow> pool_get p' \<noteq> pool_get p \<and> p' = p\<lparr>pl_pool := pool_get p'\<rparr>
        \<and> map_of (ds_open s') = (map_of (ds_open s))(pool_get p := None, pool_get p' \<mapsto>
            \<lparr>pp_config = cfg, pp_ro = pl_readOnly p, pp_unsafe = pl_allowUnsafeInternals p\<rparr>))
    \<and> (\<forall>e. r = Inl e \<longrightarrow> p' = p \<and> ds_open s' = ds_open s)"
proof -
  let ?q = "\<lparr>pp_config = cfg, pp_ro = pl_readOnly p, pp_unsafe = pl_allowUnsafeInternals p\<rparr>"
  obtain r1 s1 where l: "connect_loop D ?q (backoff 0) s = Some (r1, s1)"
    using assms(4) by (auto simp: Pool_Refresh_def pgxPool_loop[OF assms(1)] split: option.splits)
  note fr = loop_frame[OF l assms(2)]
  show ?thesis
  proof (cases r1)
    case (Inl e)
    then have "r = Inl e" "p' = p" "s' = s1" using assms(4) by (auto simp: Pool_Refresh_def pgxPool_loop[OF assms(1)] l)
    then show ?thesis using fr Inl assms(3) by simp
  next
    case (Inr i)
    then have "r = Inr ()" "p' = p\<lparr>pl_pool := i\<rparr>" "s' = s1\<lparr>ds_open := AList.delete (pl_pool p) (ds_open s1)\<rparr>"
      using assms(4) by (auto simp: Pool_Refresh_def pgxPool_loop[OF assms(1)] l Let_def)
    then show ?thesis using fr Inr assms(3) by (auto simp: pool_get_def ds_wf_def fun_eq_iff)
  qed
qed

theorem Pool_Refresh_exchanges_witness:
  "\<exists>p' s'. Pool_Refresh ex_driver \<lparr>pl_readOnly = True, pl_allowUnsafeInternals = False, pl_URL = ''u'', pl_pool = 0\<rparr> ex_ds = Some (Inr (), p', s')
    \<and> map_of (ds_open s') (pool_get p') \<noteq> None \<and> map_of (ds_open s') 0 = None"
proof -
  let ?p = "\<lparr>pl_readOnly = True, pl_allowUnsafeInternals = False, pl_URL = ''u'', pl_pool = 0\<rparr>"
  have "held_up ex_driver (pp_config \<lparr>pp_config = (), pp_ro = True, pp_unsafe = False\<rparr>) ex_ds 2"
    "\<not> unreached ex_driver (pp_config \<lparr>pp_config = (), pp_ro = True, pp_unsafe = False\<rparr>) (ds_attempts ex_ds + 2)" using ex_ds_ok by simp_all
  from connect_loop_reached[OF ex_ds_ok(2) this]
  obtain p' s' where r: "Pool_Refresh ex_driver ?p ex_ds = Some (Inr (), p', s')"
    by (auto simp: Pool_Refresh_def pgxPool_loop[OF ex_ds_ok(1)] Let_def)
  have "map_of (ds_open ex_ds) (pool_get ?p) = Some \<lparr>pp_config = (), pp_ro = True, pp_unsafe = False\<rparr>" by (simp add: ex_ds_def pool_get_def)
  from Pool_Refresh_exchanges[OF ex_ds_ok(1,2) this r] r show ?thesis by (auto simp: pool_get_def)
qed

section \<open>A database that answers\<close>

definition db_up :: "'cfg driver \<Rightarrow> string \<Rightarrow> bool" where
  "db_up D URL = (case drv_ParseConfig D URL of Inl e \<Rightarrow> False | Inr cfg \<Rightarrow> drv_dial D cfg = (\<lambda>n. Reached))"

lemma pgxPool_up:
  assumes "db_up D URL"
  obtains p where "pgxPool D URL ro unsafe s = Some (Inr (ds_next s), s\<lparr>ds_attempts := Suc (ds_attempts s), ds_open := (ds_next s, p) # ds_open s, ds_next := Suc (ds_next s)\<rparr>)"
  using assms that
  by (auto simp: db_up_def pgxPool_def connect_loop.simps connectAndPing_def Let_def split: sum.splits)

lemma db_new_up:
  assumes "db_up D URL"
  shows "\<exists>p s'. db_new D URL ro unsafe s = Some (Inr p, s')"
proof -
  obtain p where "pgxPool D URL ro unsafe s
      = Some (Inr (ds_next s), s\<lparr>ds_attempts := Suc (ds_attempts s), ds_open := (ds_next s, p) # ds_open s, ds_next := Suc (ds_next s)\<rparr>)"
    by (rule pgxPool_up[OF assms])
  then show ?thesis by (simp add: db_new_def)
qed

lemma db_New_up: "db_up D URL \<Longrightarrow> \<exists>p s'. db_New D URL s = Some (Inr p, s')"
  unfolding db_New_def by (rule db_new_up)

lemma ReadOnly_up: "db_up D URL \<Longrightarrow> \<exists>p s'. ReadOnly D URL unsafe s = Some (Inr p, s')"
  unfolding ReadOnly_def by (rule db_new_up)

lemma Pool_Refresh_up:
  assumes "db_up D (pl_URL p)" "ds_wf s" "pl_pool p \<in> dom (map_of (ds_open s))"
  shows "\<exists>s' h. Pool_Refresh D p s = Some (Inr (), p\<lparr>pl_pool := ds_next s\<rparr>, s') \<and> ds_wf s' \<and> ds_next s' = Suc (ds_next s)
    \<and> map_of (ds_open s') = (map_of (ds_open s))(pl_pool p := None, ds_next s \<mapsto> h)"
proof -
  obtain h where h: "pgxPool D (pl_URL p) (pl_readOnly p) (pl_allowUnsafeInternals p) s
      = Some (Inr (ds_next s), s\<lparr>ds_attempts := Suc (ds_attempts s), ds_open := (ds_next s, h) # ds_open s, ds_next := Suc (ds_next s)\<rparr>)"
    by (rule pgxPool_up[OF assms(1)])
  have ne: "pl_pool p \<noteq> ds_next s" using assms(2,3) by (auto simp: ds_wf_def)
  then show ?thesis using assms(2) ds_wf_fresh[OF assms(2)]
    by (auto simp: Pool_Refresh_def h Let_def ds_wf_def fun_eq_iff less_SucI)
qed

definition ex_up :: "unit driver" where
  "ex_up = ex_driver\<lparr>drv_dial := \<lambda>_ _. Reached\<rparr>"

lemma ex_up_ok: "db_up ex_up URL"
  by (simp add: db_up_def ex_up_def ex_driver_def)

end
