(* ===== verification/Cmd_Server.thy ===== *)
theory Cmd_Server
  imports Http_Server Collector_Server Scanner_Server Database Store_Sql
begin

text \<open>
  \<^verbatim>\<open>internal/cmd/server/server.go\<close>: the command that starts the servers, the heartbeat, the reaction
  to \<^verbatim>\<open>SIGHUP\<close> and the end.  The state is that of the whole process: the pools, the database, the
  registry and the scheduler, which the servers share, and the servers themselves.  A start or a
  refresh that waits for the database for ever is \<open>None\<close>.
\<close>

section \<open>The process\<close>

text \<open>What the command takes from its surroundings.\<close>

record ('cfg, 'v, 'r, 'c, 'q, 'cert) host_env =
  he_driver :: "'cfg driver"
  he_libs :: "('v, 'r, 'c) libs"
  he_sched :: "'q sched_api"
  he_register :: "'r register"
  he_gauge :: "gauge_opts \<Rightarrow> 'r \<Rightarrow> 'r result"
  he_compile :: regexp_compile
  he_host :: "'cert host"
  he_lease :: "go_error option"
  he_hostname :: "go_error + string"
  he_uuid :: string
  he_pid :: int
  he_version :: string
  he_build :: "build_info option"
  he_now :: time

record ('cfg, 'v, 'r, 'c, 'q, 'cert) process =
  pr_db :: "'cfg db_state"
  pr_conn :: conn
  pr_world :: "('v, 'r) world"
  pr_sched :: 'q
  pr_admin :: "Pool option"
  pr_ro :: "Pool option"
  pr_nodeID :: "int option"
  pr_http :: "'cert httpServer option"
  pr_listen :: "(string \<times> listener) option"
  pr_coll :: "(('v, 'r, 'c, 'q) serverImpl \<times> phase) option"
  pr_scan :: "('v, 'r) scannerServer option"

type_synonym ('cfg, 'v, 'r, 'c, 'q, 'cert, 'a) pop =
  "('cfg, 'v, 'r, 'c, 'q, 'cert) process \<Rightarrow> ('a result \<times> ('cfg, 'v, 'r, 'c, 'q, 'cert) process) option"

definition then_do :: "('s \<Rightarrow> (unit result \<times> 's) option) \<Rightarrow> ('s \<Rightarrow> (unit result \<times> 's) option) \<Rightarrow> 's \<Rightarrow> (unit result \<times> 's) option" where
  "then_do f g s = (case f s of
      None \<Rightarrow> None
    | Some (Inl e, s') \<Rightarrow> Some (Inl e, s')
    | Some (Inr _, s') \<Rightarrow> g s')"

text \<open>The store as the two servers read it.\<close>

definition sql_collections_store :: "(conn, Collection) conf_store" where
  "sql_collections_store = \<lparr>cs_names = sql_GetCollectionNames, cs_get = sql_GetCollection\<rparr>"

definition sql_scans_store :: "(conn, Scan) conf_store" where
  "sql_scans_store = \<lparr>cs_names = sql_GetScanNames, cs_get = sql_GetScan\<rparr>"

definition coll_deps :: "('cfg, 'v, 'r, 'c, 'q, 'cert) host_env \<Rightarrow> ('v, 'r, 'c, 'q, conn) deps" where
  "coll_deps H = \<lparr>d_libs = he_libs H, d_sched = he_sched H, d_store = sql_collections_store\<rparr>"

definition scanner_deps :: "('cfg, 'v, 'r, 'c, 'q, 'cert) host_env \<Rightarrow> ('v, 'r, 'c, conn) scan_deps" where
  "scanner_deps H = \<lparr>sd_libs = he_libs H, sd_compile = he_compile H, sd_store = sql_scans_store\<rparr>"

section \<open>Start\<close>

definition check_flags :: "Config \<Rightarrow> ('cfg, 'v, 'r, 'c, 'q, 'cert, unit) pop" where
  "check_flags cfg p =
    (if (cfg_BindCert cfg = [] \<or> cfg_BindKey cfg = []) \<and> \<not> cfg_Insecure cfg
     then Some (Inl (Err ''--insecure must be specfied if certificates and private key are missing''), p)
     else if cfg_URL cfg = [] then Some (Inl (Err ''--url must be specified''), p)
     else Some (Inr (), p))"

definition connect_admin :: "('cfg, 'v, 'r, 'c, 'q, 'cert) host_env \<Rightarrow> Config \<Rightarrow> ('cfg, 'v, 'r, 'c, 'q, 'cert, unit) pop" where
  "connect_admin H cfg p = (case db_New (he_driver H) (cfg_URL cfg) (pr_db p) of
      None \<Rightarrow> None
    | Some (Inl e, d) \<Rightarrow> Some (Inl e, p\<lparr>pr_db := d\<rparr>)
    | Some (Inr pool, d) \<Rightarrow> Some (Inr (), p\<lparr>pr_db := d, pr_admin := Some pool\<rparr>))"

definition connect_ro :: "('cfg, 'v, 'r, 'c, 'q, 'cert) host_env \<Rightarrow> Config \<Rightarrow> ('cfg, 'v, 'r, 'c, 'q, 'cert, unit) pop" where
  "connect_ro H cfg p = (case ReadOnly (he_driver H) (cfg_URL cfg) (cfg_AllowUnsafeInternals cfg) (pr_db p) of
      None \<Rightarrow> None
    | Some (Inl e, d) \<Rightarrow> Some (Inl e, p\<lparr>pr_db := d\<rparr>)
    | Some (Inr pool, d) \<Rightarrow> Some (Inr (), p\<lparr>pr_db := d, pr_ro := Some pool\<rparr>))"

definition register_own :: "('cfg, 'v, 'r, 'c, 'q, 'cert) host_env \<Rightarrow> ('cfg, 'v, 'r, 'c, 'q, 'cert, unit) pop" where
  "register_own H p = (case RegisterMetrics (he_register H) (w_reg (pr_world p)) of (r, reg) \<Rightarrow> Some (r, p\<lparr>pr_world := (pr_world p)\<lparr>w_reg := reg\<rparr>\<rparr>))"

text \<open>The name of the node is that of the host, or a generated one.\<close>

definition register_node :: "('cfg, 'v, 'r, 'c, 'q, 'cert) host_env \<Rightarrow> ('cfg, 'v, 'r, 'c, 'q, 'cert, unit) pop" where
  "register_node H p =
    (let hostname = (case he_hostname H of Inl _ \<Rightarrow> he_uuid H | Inr h \<Rightarrow> h) in
     case sql_RegisterNode hostname (he_pid H) (he_version H) (pr_conn p) of
       (Inl (Err e), c) \<Rightarrow> Some (Inl (Err (''registering node: '' @ e)), p\<lparr>pr_conn := c\<rparr>)
     | (Inl (Panic x), c) \<Rightarrow> Some (Inl (Panic x), p\<lparr>pr_conn := c\<rparr>)
     | (Inr i, c) \<Rightarrow> Some (Inr (), p\<lparr>pr_conn := c, pr_nodeID := Some i\<rparr>))"

definition minute :: interval where
  "minute = Duration (60 * 10 ^ 9)"

definition schedule_heartbeat :: "('cfg, 'v, 'r, 'c, 'q, 'cert) host_env \<Rightarrow> ('cfg, 'v, 'r, 'c, 'q, 'cert, unit) pop" where
  "schedule_heartbeat H p = (case sch_Do (he_sched H) minute HeartbeatTask (pr_sched p) of
      (Inl e, q) \<Rightarrow> Some (Inl (Err (''scheduling node heartbeat: '' @ e)), p\<lparr>pr_sched := q\<rparr>)
    | (Inr j, q) \<Rightarrow> Some (Inr (), p\<lparr>pr_sched := q\<rparr>))"

definition start_http :: "('cfg, 'v, 'r, 'c, 'q, 'cert) host_env \<Rightarrow> Config \<Rightarrow> ('cfg, 'v, 'r, 'c, 'q, 'cert, unit) pop" where
  "start_http H cfg p = (case http_New (he_host H) cfg of
      Inl e \<Rightarrow> Some (Inl e, p)
    | Inr s \<Rightarrow> (case http_Start (he_sched H) (he_gauge H) (he_version H) (he_build H) (he_now H) s (pr_sched p, w_reg (pr_world p)) of
        (Inl e, (q, reg)) \<Rightarrow> Some (Inl e, p\<lparr>pr_sched := q, pr_world := (pr_world p)\<lparr>w_reg := reg\<rparr>\<rparr>)
      | (Inr l, (q, reg)) \<Rightarrow> Some (Inr (), p\<lparr>pr_sched := q, pr_world := (pr_world p)\<lparr>w_reg := reg\<rparr>, pr_http := Some s, pr_listen := Some l\<rparr>)))"

text \<open>The scheduler and the registry are shared: what a server has done with them is seen by the next.\<close>

definition start_collector :: "('cfg, 'v, 'r, 'c, 'q, 'cert) host_env \<Rightarrow> Config \<Rightarrow> ('cfg, 'v, 'r, 'c, 'q, 'cert, unit) pop" where
  "start_collector H cfg p = (case coll_New (he_register H) cfg (Some (pr_sched p)) (pr_world p) of
      Inl e \<Rightarrow> Some (Inl e, p)
    | Inr s \<Rightarrow> (case start (coll_deps H) (he_lease H) (s, pr_conn p, NotStarted) of
        (r, (s', c, ph)) \<Rightarrow> Some (r, p\<lparr>pr_conn := c, pr_coll := Some (s', ph), pr_world := s_world s',
            pr_sched := (case s_scheduler s' of None \<Rightarrow> pr_sched p | Some q \<Rightarrow> q)\<rparr>)))"

definition start_scanners :: "('cfg, 'v, 'r, 'c, 'q, 'cert) host_env \<Rightarrow> Config \<Rightarrow> ('cfg, 'v, 'r, 'c, 'q, 'cert, unit) pop" where
  "start_scanners H cfg p = (case scan_New (he_register H) cfg (pr_world p) of
      Inl e \<Rightarrow> Some (Inl e, p)
    | Inr s \<Rightarrow> (case scan_Start (scanner_deps H) (he_sched H) (s, pr_conn p, Some (pr_sched p)) of
        (r, (s', c, sched)) \<Rightarrow> Some (r, p\<lparr>pr_conn := c, pr_scan := Some s', pr_world := ss_world s',
            pr_sched := (case sched of None \<Rightarrow> pr_sched p | Some q \<Rightarrow> q)\<rparr>)))"

definition RunE :: "('cfg, 'v, 'r, 'c, 'q, 'cert) host_env \<Rightarrow> Config \<Rightarrow> ('cfg, 'v, 'r, 'c, 'q, 'cert, unit) pop" where
  "RunE H cfg = then_do (check_flags cfg) (then_do (connect_admin H cfg) (then_do (connect_ro H cfg)
     (then_do (register_own H) (then_do (register_node H) (then_do (schedule_heartbeat H)
       (then_do (start_http H cfg) (then_do (start_collector H cfg) (start_scanners H cfg))))))))"

section \<open>Running\<close>

definition heartbeat_job :: "bool \<Rightarrow> ('cfg, 'v, 'r, 'c, 'q, 'cert) process \<Rightarrow> ('cfg, 'v, 'r, 'c, 'q, 'cert) process" where
  "heartbeat_job stopped p = (case pr_nodeID p of None \<Rightarrow> p
     | Some i \<Rightarrow> if stopped then p else p\<lparr>pr_conn := snd (sql_Heartbeat i (pr_conn p))\<rparr>)"

text \<open>The routine that waits for the end and removes the node.\<close>

definition deregister :: "('cfg, 'v, 'r, 'c, 'q, 'cert) process \<Rightarrow> ('cfg, 'v, 'r, 'c, 'q, 'cert) process" where
  "deregister p = (case pr_nodeID p of None \<Rightarrow> p | Some i \<Rightarrow> p\<lparr>pr_conn := snd (sql_DeleteNode i (pr_conn p))\<rparr>)"

text \<open>
  One round of the routine that waits for \<^verbatim>\<open>SIGHUP\<close>: the error of a refresh is logged, a panic ends
  the process.  \<open>A\<close> is what the store answers about the histograms.
\<close>

definition logged :: "'a result \<Rightarrow> unit result" where
  "logged r = (case r of Inl (Panic x) \<Rightarrow> Inl (Panic x) | _ \<Rightarrow> Inr ())"

definition hup_coll :: "('cfg, 'v, 'r, 'c, 'q, 'cert) host_env \<Rightarrow> ('cfg, 'v, 'r, 'c, 'q, 'cert, unit) pop" where
  "hup_coll H p = (case pr_coll p of
      None \<Rightarrow> Some (Inl (Panic NilDereference), p)
    | Some (s, ph) \<Rightarrow> (case coll_Refresh (coll_deps H) (s\<lparr>s_world := pr_world p, s_scheduler := Some (pr_sched p)\<rparr>, pr_conn p) of
        (r, (s', c)) \<Rightarrow> Some (logged r, p\<lparr>pr_conn := c, pr_coll := Some (s', ph), pr_world := s_world s',
            pr_sched := (case s_scheduler s' of None \<Rightarrow> pr_sched p | Some q \<Rightarrow> q)\<rparr>)))"

definition hup_scan :: "('cfg, 'v, 'r, 'c, 'q, 'cert) host_env \<Rightarrow> ('cfg, 'v, 'r, 'c, 'q, 'cert, unit) pop" where
  "hup_scan H p = (case pr_scan p of
      None \<Rightarrow> Some (Inl (Panic NilDereference), p)
    | Some s \<Rightarrow> (case scan_Refresh (scanner_deps H) (s\<lparr>ss_world := pr_world p\<rparr>, pr_conn p) of
        (r, (s', c)) \<Rightarrow> Some (logged r, p\<lparr>pr_conn := c, pr_scan := Some s', pr_world := ss_world s'\<rparr>)))"

definition hup_http :: "('cfg, 'v, 'r, 'c, 'q, 'cert) host_env \<Rightarrow> hist_answers \<Rightarrow> ('cfg, 'v, 'r, 'c, 'q, 'cert, unit) pop" where
  "hup_http H A p = (case pr_http p of
      None \<Rightarrow> Some (Inl (Panic NilDereference), p)
    | Some s \<Rightarrow> (case http_Refresh (he_host H) (he_compile H) A s of (r, s') \<Rightarrow> Some (logged r, p\<lparr>pr_http := Some s'\<rparr>)))"

definition hup_ro :: "('cfg, 'v, 'r, 'c, 'q, 'cert) host_env \<Rightarrow> ('cfg, 'v, 'r, 'c, 'q, 'cert, unit) pop" where
  "hup_ro H p = (case pr_ro p of
      None \<Rightarrow> Some (Inl (Panic NilDereference), p)
    | Some pool \<Rightarrow> map_option (\<lambda>(r, pool', d). (logged r, p\<lparr>pr_ro := Some pool', pr_db := d\<rparr>)) (Pool_Refresh (he_driver H) pool (pr_db p)))"

definition hup_admin :: "('cfg, 'v, 'r, 'c, 'q, 'cert) host_env \<Rightarrow> ('cfg, 'v, 'r, 'c, 'q, 'cert, unit) pop" where
  "hup_admin H p = (case pr_admin p of
      None \<Rightarrow> Some (Inl (Panic NilDereference), p)
    | Some pool \<Rightarrow> map_option (\<lambda>(r, pool', d). (logged r, p\<lparr>pr_admin := Some pool', pr_db := d\<rparr>)) (Pool_Refresh (he_driver H) pool (pr_db p)))"

definition sighup :: "('cfg, 'v, 'r, 'c, 'q, 'cert) host_env \<Rightarrow> hist_answers \<Rightarrow> ('cfg, 'v, 'r, 'c, 'q, 'cert, unit) pop" where
  "sighup H A = then_do (hup_coll H) (then_do (hup_scan H) (then_do (hup_http H A) (then_do (hup_ro H) (hup_admin H))))"

section \<open>A start that succeeds\<close>

lemma then_do_Inr: "f s = Some (Inr (), s') \<Longrightarrow> then_do f g s = g s'"
  by (simp add: then_do_def)

lemma register_each_total: "(\<And>x r. \<exists>r'. reg x r = Inr r') \<Longrightarrow> \<exists>r'. register_each reg xs r = (Inr (), r')"
  by (induction xs arbitrary: r) (auto, metis sum.simps(6))

text \<open>\<open>q'\<close> is \<open>q\<close> with a new job \<open>j\<close> for the task \<open>t\<close>.\<close>

definition scheduled :: "'q sched_api \<Rightarrow> 'q \<Rightarrow> task \<Rightarrow> nat \<Rightarrow> 'q \<Rightarrow> bool" where
  "scheduled S q t j q' = (j \<notin> sch_used S q \<and> sch_used S q' = insert j (sch_used S q) \<and> sch_live S q' = (sch_live S q)(j \<mapsto> t))"

lemma sch_Do_positive:
  assumes "sched_laws S" "positive i"
  obtains j q' where "sch_Do S i t q = (Inr j, q')" "scheduled S q t j q'"
  using assms unfolding sched_laws_def scheduled_def by blast

lemma coll_New_total:
  assumes "\<And>x r. \<exists>r'. reg x r = Inr r'"
  shows "\<exists>s. coll_New reg cfg (Some q) w = Inr s \<and> s_scheduler s = Some q \<and> s_config s = cfg"
  using register_each_total[where reg = reg and xs = "collectorMetrics @ [GoCollector]" and r = "w_reg w", OF assms]
  by (cases "cfg_VisusMetrics cfg") (auto simp: coll_New_def Let_def)

lemma scan_New_total:
  assumes "\<And>x r. \<exists>r'. reg x r = Inr r'"
  shows "\<exists>s. scan_New reg cfg w = Inr s \<and> ss_config s = cfg"
  using register_each_total[where reg = reg and xs = "[OwnScannerErrors]" and r = "w_reg w", OF assms]
  by (cases "cfg_VisusMetrics cfg") (auto simp: scan_New_def)

lemma http_New_fields: "http_New H cfg = Inr s \<Longrightarrow> h_config s = cfg \<and> h_addr s = cfg_BindAddr cfg"
  by (auto simp: http_New_def Let_def bind_result_Inr)

text \<open>The steps, one by one.\<close>

definition flags_ok :: "Config \<Rightarrow> bool" where
  "flags_ok cfg = ((cfg_BindCert cfg \<noteq> [] \<and> cfg_BindKey cfg \<noteq> [] \<or> cfg_Insecure cfg) \<and> cfg_URL cfg \<noteq> [])"

lemma connect_up:
  assumes "db_up (he_driver H) (cfg_URL cfg)"
  shows "\<exists>d a. connect_admin H cfg p = Some (Inr (), p\<lparr>pr_db := d, pr_admin := Some a\<rparr>)"
    and "\<exists>d a. connect_ro H cfg p = Some (Inr (), p\<lparr>pr_db := d, pr_ro := Some a\<rparr>)"
proof -
  obtain a d where "db_New (he_driver H) (cfg_URL cfg) (pr_db p) = Some (Inr a, d)" using db_New_up[OF assms] by blast
  then show "\<exists>d a. connect_admin H cfg p = Some (Inr (), p\<lparr>pr_db := d, pr_admin := Some a\<rparr>)" by (auto simp: connect_admin_def)
  obtain a d where "ReadOnly (he_driver H) (cfg_URL cfg) (cfg_AllowUnsafeInternals cfg) (pr_db p) = Some (Inr a, d)" using ReadOnly_up[OF assms] by blast
  then show "\<exists>d a. connect_ro H cfg p = Some (Inr (), p\<lparr>pr_db := d, pr_ro := Some a\<rparr>)" by (auto simp: connect_ro_def)
qed

lemma register_own_ok:
  assumes "\<And>x r. \<exists>r'. he_register H x r = Inr r'"
  shows "\<exists>w. register_own H p = Some (Inr (), p\<lparr>pr_world := w\<rparr>)"
  using register_each_total[where reg = "he_register H" and xs = "[OwnRefreshCounts, OwnRefreshErrors]" and r = "w_reg (pr_world p)", OF assms]
  by (auto simp: register_own_def RegisterMetrics_def)

lemma register_node_ok:
  assumes "sql_nodes_ok (pr_conn p)"
  shows "\<exists>i c n. register_node H p = Some (Inr (), p\<lparr>pr_conn := c, pr_nodeID := Some i\<rparr>) \<and> sql_nodes_ok c \<and> sql_node_reg (pr_conn p) i = None
    \<and> sql_node_reg c = (sql_node_reg (pr_conn p))(i \<mapsto> n) \<and> node_PID n = he_pid H \<and> node_Version n = he_version H
    \<and> node_Hostname n = (case he_hostname H of Inl _ \<Rightarrow> he_uuid H | Inr h \<Rightarrow> h)"
proof -
  let ?h = "case he_hostname H of Inl _ \<Rightarrow> he_uuid H | Inr h \<Rightarrow> h"
  obtain i c where r: "as_insert (sql_RegisterNode ?h (he_pid H) (he_version H)) (pr_conn p) = Inr (i, c)" "sql_nodes_ok c"
      "sql_node_reg (pr_conn p) i = None" "sql_node_reg c = (sql_node_reg (pr_conn p))(i \<mapsto>
        \<lparr>node_ID = i, node_Hostname = ?h, node_PID = he_pid H, node_Version = he_version H, node_Updated = conn_now (pr_conn p)\<rparr>)"
    using sql_nodes.register_reg[OF assms TrueI] by blast
  have "sql_RegisterNode ?h (he_pid H) (he_version H) (pr_conn p) = (Inr i, c)"
    using r(1) by (auto simp: as_insert_def split: prod.splits sum.splits)
  then have "register_node H p = Some (Inr (), p\<lparr>pr_conn := c, pr_nodeID := Some i\<rparr>)" by (simp add: register_node_def Let_def)
  then show ?thesis using r by fastforce
qed

lemma schedule_heartbeat_ok:
  assumes "sched_laws (he_sched H)"
  shows "\<exists>j q. schedule_heartbeat H p = Some (Inr (), p\<lparr>pr_sched := q\<rparr>) \<and> scheduled (he_sched H) (pr_sched p) HeartbeatTask j q"
proof -
  have "positive minute" by (simp add: minute_def positive_def)
  then obtain j q where "sch_Do (he_sched H) minute HeartbeatTask (pr_sched p) = (Inr j, q)" "scheduled (he_sched H) (pr_sched p) HeartbeatTask j q"
    by (rule sch_Do_positive[OF assms])
  then show ?thesis by (auto simp: schedule_heartbeat_def)
qed

lemma refresh_scheduled:
  assumes "sched_laws (he_sched H)" "0 < cfg_Refresh cfg"
  obtains j q where "sch_Do (he_sched H) (Duration (cfg_Refresh cfg)) (RefreshTask t) q0 = (Inr j, q)" "scheduled (he_sched H) q0 (RefreshTask t) j q"
  using sch_Do_positive[OF assms(1), of "Duration (cfg_Refresh cfg)" "RefreshTask t" q0] assms(2) by (auto simp: positive_def)

lemma start_http_ok:
  assumes "sched_laws (he_sched H)" "0 < cfg_Refresh cfg" "http_New (he_host H) cfg = Inr s"
  shows "\<exists>j q w. start_http H cfg p = Some (Inr (), p\<lparr>pr_sched := q, pr_world := w, pr_http := Some s,
        pr_listen := Some (cfg_Endpoint cfg, if cfg_Insecure cfg then Listen (cfg_BindAddr cfg) else ListenTLS (cfg_BindAddr cfg))\<rparr>)
    \<and> scheduled (he_sched H) (pr_sched p) (RefreshTask ''http_server'') j q"
proof -
  obtain j q where "sch_Do (he_sched H) (Duration (cfg_Refresh cfg)) (RefreshTask ''http_server'') (pr_sched p) = (Inr j, q)"
      "scheduled (he_sched H) (pr_sched p) (RefreshTask ''http_server'') j q"
    by (rule refresh_scheduled[OF assms(1,2)])
  then show ?thesis using http_New_fields[OF assms(3)] by (auto simp: start_http_def assms(3) http_Start_def)
qed

lemma start_collector_ok:
  fixes p :: "('cfg, 'v, 'r, 'c, 'q, 'cert) process"
  assumes "sched_laws (he_sched H)" "0 < cfg_Refresh cfg" "\<And>x r. \<exists>r'. he_register H x r = Inr r'" "he_lease H = None"
  shows "\<exists>j q s w. start_collector H cfg p = Some (Inr (), p\<lparr>pr_coll := Some (s, Competing), pr_world := w, pr_sched := q\<rparr>)
    \<and> scheduled (he_sched H) (pr_sched p) (RefreshTask ''metric_collector'') j q"
proof -
  obtain s :: "('v, 'r, 'c, 'q) serverImpl" where s: "coll_New (he_register H) cfg (Some (pr_sched p)) (pr_world p) = Inr s"
      "s_scheduler s = Some (pr_sched p)" "s_config s = cfg"
    using coll_New_total[of "he_register H" cfg "pr_sched p" "pr_world p", OF assms(3)] by auto
  obtain j q where q: "sch_Do (he_sched H) (Duration (cfg_Refresh cfg)) (RefreshTask ''metric_collector'') (pr_sched p) = (Inr j, q)"
      "scheduled (he_sched H) (pr_sched p) (RefreshTask ''metric_collector'') j q"
    by (rule refresh_scheduled[OF assms(1,2)])
  have "start_collector H cfg p = Some (Inr (), p\<lparr>pr_coll := Some (s\<lparr>s_scheduler := Some q\<rparr>, Competing), pr_world := s_world s, pr_sched := q\<rparr>)"
    by (simp add: start_collector_def s start_def coll_deps_def assms(4) q(1))
  then show ?thesis using q(2) by blast
qed

lemma start_scanners_ok:
  assumes "sched_laws (he_sched H)" "0 < cfg_Refresh cfg" "\<And>x r. \<exists>r'. he_register H x r = Inr r'"
  shows "\<exists>j q s w. start_scanners H cfg p = Some (Inr (), p\<lparr>pr_scan := Some s, pr_world := w, pr_sched := q\<rparr>)
    \<and> scheduled (he_sched H) (pr_sched p) (RefreshTask ''scanners'') j q"
proof -
  obtain s where s: "scan_New (he_register H) cfg (pr_world p) = Inr s" "ss_config s = cfg"
    using scan_New_total[of "he_register H" cfg "pr_world p", OF assms(3)] by auto
  obtain j q where q: "sch_Do (he_sched H) (Duration (cfg_Refresh cfg)) (RefreshTask ''scanners'') (pr_sched p) = (Inr j, q)"
      "scheduled (he_sched H) (pr_sched p) (RefreshTask ''scanners'') j q"
    by (rule refresh_scheduled[OF assms(1,2)])
  have "start_scanners H cfg p = Some (Inr (), p\<lparr>pr_scan := Some s, pr_world := ss_world s, pr_sched := q\<rparr>)"
    by (simp add: start_scanners_def s scan_Start_def q(1))
  then show ?thesis using q(2) by blast
qed

lemma deregister_node:
  assumes "sql_nodes_ok (pr_conn p)" "pr_nodeID p = Some i"
  shows "sql_node_reg (pr_conn (deregister p)) = (sql_node_reg (pr_conn p))(i := None)"
proof -
  obtain c where "as_update (sql_DeleteNode i) (pr_conn p) = Inr c" "sql_node_reg c = (sql_node_reg (pr_conn p))(i := None)"
    using sql_nodes.delete_reg[OF assms(1)] by blast
  then show ?thesis by (auto simp: deregister_def assms(2) as_update_def split: prod.splits sum.splits)
qed


definition ex_host_env :: "(unit, list_vec, list_reg, int \<times> (string, cacheValue) gomap, nat \<times> (nat, task) gomap, unit) host_env" where
  "ex_host_env = \<lparr>he_driver = ex_up, he_libs = ref_libs, he_sched = list_sched_api, he_register = (\<lambda>x r. Inr r), he_gauge = (\<lambda>g r. Inr r),
     he_compile = (\<lambda>e. Inl ''no''), he_host = \<lparr>host_readFile = (\<lambda>_. Inl ''no''), host_loadX509 = (\<lambda>_ _. Inl ''no''), host_parseURL = (\<lambda>_. Inl ''no'')\<rparr>,
     he_lease = None, he_hostname = Inl ''no name'', he_uuid = ''id-1'', he_pid = 7, he_version = ''v1'', he_build = None, he_now = 0\<rparr>"

definition ex_process :: "(unit, list_vec, list_reg, int \<times> (string, cacheValue) gomap, nat \<times> (nat, task) gomap, unit) process" where
  "ex_process = \<lparr>pr_db = ex_ds, pr_conn = ex_conn, pr_world = ex_world, pr_sched = (0, []), pr_admin = None, pr_ro = None, pr_nodeID = None,
     pr_http = None, pr_listen = None, pr_coll = None, pr_scan = None\<rparr>"

definition ex_flags :: Config where
  "ex_flags = ex_config\<lparr>cfg_URL := ''u''\<rparr>"

lemma ex_host_env_ok:
  "flags_ok ex_flags" "db_up (he_driver ex_host_env) u" "sql_nodes_ok (pr_conn ex_process)" "sched_laws (he_sched ex_host_env)"
  "0 < cfg_Refresh ex_flags" "he_lease ex_host_env = None" "\<exists>r'. he_register ex_host_env x r = Inr r'" "\<exists>hs. http_New (he_host ex_host_env) ex_flags = Inr hs"
  by (simp_all add: flags_ok_def ex_flags_def ex_config_def ex_host_env_def ex_process_def ex_up_ok ex_conn_ok list_sched_laws http_New_def Let_def)


section \<open>A signal while the store cannot be read\<close>

lemma coll_Refresh_refused:
  assumes "conn_net c = Refused e # net"
  shows "coll_Refresh (coll_deps H) (s, c) = (Inl (Err e),
     (s\<lparr>s_refresh := (s_refresh s)\<lparr>RefreshErrors := inc ''metric_collector'' (RefreshErrors (s_refresh s))\<rparr>\<rparr>, c\<lparr>conn_net := net\<rparr>))"
  by (simp add: coll_Refresh_def lockedRefresh_def coll_deps_def sql_collections_store_def sql_GetCollectionNames_def op_bind_def
      conn_Query_def take_net_def assms)

lemma scan_Refresh_refused:
  assumes "conn_net c = Refused e # net"
  shows "scan_Refresh (scanner_deps H) (s, c) = (Inl (Err e),
     (s\<lparr>ss_refresh := (ss_refresh s)\<lparr>RefreshErrors := inc ''scanners'' (RefreshErrors (ss_refresh s))\<rparr>\<rparr>, c\<lparr>conn_net := net\<rparr>))"
  by (simp add: scan_Refresh_def scan_refresh_def scanner_deps_def sql_scans_store_def sql_GetScanNames_def op_bind_def
      conn_Query_def take_net_def assms)

lemma hup_pool:
  assumes "db_up (he_driver H) (pl_URL a)" "ds_wf (pr_db p)" "pl_pool a \<in> dom (map_of (ds_open (pr_db p)))"
  shows "pr_ro p = Some a \<Longrightarrow> \<exists>d h. hup_ro H p = Some (Inr (), p\<lparr>pr_ro := Some (a\<lparr>pl_pool := ds_next (pr_db p)\<rparr>), pr_db := d\<rparr>) \<and> ds_wf d
      \<and> ds_next d = Suc (ds_next (pr_db p)) \<and> map_of (ds_open d) = (map_of (ds_open (pr_db p)))(pl_pool a := None, ds_next (pr_db p) \<mapsto> h)"
    and "pr_admin p = Some a \<Longrightarrow> \<exists>d h. hup_admin H p = Some (Inr (), p\<lparr>pr_admin := Some (a\<lparr>pl_pool := ds_next (pr_db p)\<rparr>), pr_db := d\<rparr>) \<and> ds_wf d
      \<and> ds_next d = Suc (ds_next (pr_db p)) \<and> map_of (ds_open d) = (map_of (ds_open (pr_db p)))(pl_pool a := None, ds_next (pr_db p) \<mapsto> h)"
proof -
  obtain d h where r: "Pool_Refresh (he_driver H) a (pr_db p) = Some (Inr (), a\<lparr>pl_pool := ds_next (pr_db p)\<rparr>, d)" "ds_wf d"
      "ds_next d = Suc (ds_next (pr_db p))" "map_of (ds_open d) = (map_of (ds_open (pr_db p)))(pl_pool a := None, ds_next (pr_db p) \<mapsto> h)"
    using Pool_Refresh_up[OF assms] by blast
  { assume "pr_ro p = Some a"
    then have "hup_ro H p = Some (Inr (), p\<lparr>pr_ro := Some (a\<lparr>pl_pool := ds_next (pr_db p)\<rparr>), pr_db := d\<rparr>)" by (simp add: hup_ro_def r(1) logged_def)
    then show "\<exists>d h. hup_ro H p = Some (Inr (), p\<lparr>pr_ro := Some (a\<lparr>pl_pool := ds_next (pr_db p)\<rparr>), pr_db := d\<rparr>) \<and> ds_wf d
      \<and> ds_next d = Suc (ds_next (pr_db p)) \<and> map_of (ds_open d) = (map_of (ds_open (pr_db p)))(pl_pool a := None, ds_next (pr_db p) \<mapsto> h)"
      using r by blast }
  assume "pr_admin p = Some a"
  then have "hup_admin H p = Some (Inr (), p\<lparr>pr_admin := Some (a\<lparr>pl_pool := ds_next (pr_db p)\<rparr>), pr_db := d\<rparr>)" by (simp add: hup_admin_def r(1) logged_def)
  then show "\<exists>d h. hup_admin H p = Some (Inr (), p\<lparr>pr_admin := Some (a\<lparr>pl_pool := ds_next (pr_db p)\<rparr>), pr_db := d\<rparr>) \<and> ds_wf d
      \<and> ds_next d = Suc (ds_next (pr_db p)) \<and> map_of (ds_open d) = (map_of (ds_open (pr_db p)))(pl_pool a := None, ds_next (pr_db p) \<mapsto> h)"
    using r by blast
qed

text \<open>
  C16: a \<^verbatim>\<open>SIGHUP\<close> while the store refuses both listings.  The errors are counted, the jobs of the
  collectors, the scanners, the scheduler and the registry stay as they were, and the errors do not
  keep the other parts from being refreshed: the HTTP server is, and both pools of connections are
  exchanged for new open ones, while the old ones are closed.
\<close>

theorem sighup_keeps_old:
  assumes "conn_net (pr_conn p) = [Refused e1, Refused e2]"
    and c: "pr_coll p = Some (s, ph)" "s_world s = pr_world p" "s_scheduler s = Some (pr_sched p)"
    and sc: "pr_scan p = Some t" "ss_world t = pr_world p"
    and h: "pr_http p = Some hs" "\<And>x. fst (http_Refresh (he_host H) (he_compile H) A hs) \<noteq> Inl (Panic x)"
    and pools: "pr_ro p = Some ro" "pr_admin p = Some ad" "pl_pool ro \<noteq> pl_pool ad" "ds_wf (pr_db p)"
      "pl_pool ro \<in> dom (map_of (ds_open (pr_db p)))" "pl_pool ad \<in> dom (map_of (ds_open (pr_db p)))"
    and up: "db_up (he_driver H) (pl_URL ro)" "db_up (he_driver H) (pl_URL ad)"
  shows "\<exists>p' ro' ad'. sighup H A p = Some (Inr (), p')
    \<and> pr_coll p' = Some (s\<lparr>s_refresh := (s_refresh s)\<lparr>RefreshErrors := inc ''metric_collector'' (RefreshErrors (s_refresh s))\<rparr>\<rparr>, ph)
    \<and> pr_scan p' = Some (t\<lparr>ss_refresh := (ss_refresh t)\<lparr>RefreshErrors := inc ''scanners'' (RefreshErrors (ss_refresh t))\<rparr>\<rparr>)
    \<and> pr_sched p' = pr_sched p \<and> pr_world p' = pr_world p \<and> conn_db (pr_conn p') = conn_db (pr_conn p)
    \<and> pr_http p' = Some (snd (http_Refresh (he_host H) (he_compile H) A hs))
    \<and> pr_ro p' = Some ro' \<and> pr_admin p' = Some ad' \<and> pl_pool ro' \<noteq> pl_pool ad'
    \<and> {pl_pool ro', pl_pool ad'} \<inter> dom (map_of (ds_open (pr_db p))) = {}
    \<and> dom (map_of (ds_open (pr_db p'))) = dom (map_of (ds_open (pr_db p))) - {pl_pool ro, pl_pool ad} \<union> {pl_pool ro', pl_pool ad'}"
proof -
  let ?s = "s\<lparr>s_refresh := (s_refresh s)\<lparr>RefreshErrors := inc ''metric_collector'' (RefreshErrors (s_refresh s))\<rparr>\<rparr>"
  let ?t = "t\<lparr>ss_refresh := (ss_refresh t)\<lparr>RefreshErrors := inc ''scanners'' (RefreshErrors (ss_refresh t))\<rparr>\<rparr>"
  have eqs: "s\<lparr>s_world := pr_world p, s_scheduler := Some (pr_sched p)\<rparr> = s" "t\<lparr>ss_world := pr_world p\<rparr> = t" using c sc by auto
  let ?p1 = "p\<lparr>pr_conn := (pr_conn p)\<lparr>conn_net := [Refused e2]\<rparr>, pr_coll := Some (?s, ph)\<rparr>"
  have 1: "hup_coll H p = Some (Inr (), ?p1)"
    by (simp add: hup_coll_def c(1) eqs(1) coll_Refresh_refused[OF assms(1)] logged_def c(2,3))
  let ?p2 = "?p1\<lparr>pr_conn := (pr_conn p)\<lparr>conn_net := []\<rparr>, pr_scan := Some ?t\<rparr>"
  have "conn_net (pr_conn ?p1) = [Refused e2]" by simp
  from scan_Refresh_refused[OF this, of H t] have 2: "hup_scan H ?p1 = Some (Inr (), ?p2)"
    by (simp add: hup_scan_def sc(1) eqs(2) logged_def sc(2))
  let ?p3 = "?p2\<lparr>pr_http := Some (snd (http_Refresh (he_host H) (he_compile H) A hs))\<rparr>"
  obtain r hs' where r: "http_Refresh (he_host H) (he_compile H) A hs = (r, hs')" by fastforce
  then have "logged r = Inr ()" using h(2) by (auto simp: logged_def split: sum.splits fault.splits)
  then have 3: "hup_http H A ?p2 = Some (Inr (), ?p3)" by (simp add: hup_http_def h(1) r)
  have 4: "ds_wf (pr_db ?p3)" "pl_pool ro \<in> dom (map_of (ds_open (pr_db ?p3)))" "pr_ro ?p3 = Some ro" using pools by simp_all
  obtain d h4 where ro: "hup_ro H ?p3 = Some (Inr (), ?p3\<lparr>pr_ro := Some (ro\<lparr>pl_pool := ds_next (pr_db ?p3)\<rparr>), pr_db := d\<rparr>)" "ds_wf d"
      "ds_next d = Suc (ds_next (pr_db ?p3))" "map_of (ds_open d) = (map_of (ds_open (pr_db ?p3)))(pl_pool ro := None, ds_next (pr_db ?p3) \<mapsto> h4)"
    using hup_pool(1)[OF up(1) 4(1,2,3)] by blast
  let ?p4 = "?p3\<lparr>pr_ro := Some (ro\<lparr>pl_pool := ds_next (pr_db ?p3)\<rparr>), pr_db := d\<rparr>"
  have 5: "ds_wf (pr_db ?p4)" "pl_pool ad \<in> dom (map_of (ds_open (pr_db ?p4)))" "pr_admin ?p4 = Some ad" using ro pools by simp_all
  obtain d' h5 where ad: "hup_admin H ?p4 = Some (Inr (), ?p4\<lparr>pr_admin := Some (ad\<lparr>pl_pool := ds_next (pr_db ?p4)\<rparr>), pr_db := d'\<rparr>)" "ds_wf d'"
      "ds_next d' = Suc (ds_next (pr_db ?p4))" "map_of (ds_open d') = (map_of (ds_open (pr_db ?p4)))(pl_pool ad := None, ds_next (pr_db ?p4) \<mapsto> h5)"
    using hup_pool(2)[OF up(2) 5(1,2,3)] by blast
  let ?p5 = "?p4\<lparr>pr_admin := Some (ad\<lparr>pl_pool := ds_next (pr_db ?p4)\<rparr>), pr_db := d'\<rparr>"
  have run: "sighup H A p = Some (Inr (), ?p5)"
    by (simp only: sighup_def then_do_def 1 2 3 ro(1) ad(1) option.case prod.case sum.case)
  have "pl_pool ro \<noteq> ds_next (pr_db p)" "pl_pool ad \<noteq> ds_next (pr_db p)" "pl_pool ad \<noteq> Suc (ds_next (pr_db p))" "pl_pool ro \<noteq> Suc (ds_next (pr_db p))"
    using pools(4-6) unfolding ds_wf_def by (metis less_irrefl less_Suc_eq)+
  then have dom: "dom (map_of (ds_open d')) = dom (map_of (ds_open (pr_db p))) - {pl_pool ro, pl_pool ad} \<union> {ds_next (pr_db p), Suc (ds_next (pr_db p))}"
    using ro(3,4) ad(4) pools(5,6) by (auto split: if_splits)
  have "{ds_next (pr_db p), Suc (ds_next (pr_db p))} \<inter> dom (map_of (ds_open (pr_db p))) = {}"
    using pools(4) unfolding ds_wf_def by (metis (no_types, lifting) Int_insert_left_if0 Int_empty_left Suc_lessD less_irrefl)
  then show ?thesis using run dom ro(3)
    by (intro exI[of _ ?p5] exI[of _ "ro\<lparr>pl_pool := ds_next (pr_db ?p3)\<rparr>"] exI[of _ "ad\<lparr>pl_pool := ds_next (pr_db ?p4)\<rparr>"]) simp
qed

text \<open>A started process of the example whose store is away.\<close>

definition ex_pool :: "nat \<Rightarrow> Pool" where
  "ex_pool i = \<lparr>pl_readOnly = i = 0, pl_allowUnsafeInternals = False, pl_URL = ''u'', pl_pool = i\<rparr>"

definition ex_running_db :: "unit db_state" where
  "ex_running_db = \<lparr>ds_attempts = 2, ds_waits = [], ds_next = 2, ds_open = [(0, \<lparr>pp_config = (), pp_ro = True, pp_unsafe = False\<rparr>), (1, \<lparr>pp_config = (), pp_ro = False, pp_unsafe = False\<rparr>)]\<rparr>"

definition ex_hup_http :: "unit httpServer" where
  "ex_hup_http = projr (http_New (he_host ex_host_env) ex_flags)"

definition ex_scanner_server :: "(list_vec, list_reg) scannerServer" where
  "ex_scanner_server = projr (scan_New (\<lambda>x r. Inr r) ex_flags ex_world)"

definition ex_no_hists :: hist_answers where
  "ex_no_hists = \<lparr>ans_names = Inr [], ans_get = (\<lambda>_. Inr None)\<rparr>"

definition ex_hup :: "(unit, list_vec, list_reg, int \<times> (string, cacheValue) gomap, nat \<times> (nat, task) gomap, unit) process" where
  "ex_hup = ex_process\<lparr>pr_db := ex_running_db, pr_conn := ex_conn\<lparr>conn_net := [Refused ''away'', Refused ''away'']\<rparr>, pr_admin := Some (ex_pool 1), pr_ro := Some (ex_pool 0),
     pr_http := Some ex_hup_http, pr_coll := Some (ex_server, Competing), pr_scan := Some ex_scanner_server\<rparr>"

theorem sighup_keeps_old_witness:
  "\<exists>p'. sighup ex_host_env ex_no_hists ex_hup = Some (Inr (), p')
    \<and> map_option (\<lambda>(s, ph). tally_of (RefreshErrors (s_refresh s)) ''metric_collector'') (pr_coll p') = Some (Suc (tally_of (RefreshErrors (s_refresh ex_server)) ''metric_collector''))
    \<and> 0 \<notin> dom (map_of (ds_open (pr_db p')))"
proof -
  have net: "conn_net (pr_conn ex_hup) = [Refused ''away'', Refused ''away'']" by (simp add: ex_hup_def)
  have co: "pr_coll ex_hup = Some (ex_server, Competing)" "s_world ex_server = pr_world ex_hup" "s_scheduler ex_server = Some (pr_sched ex_hup)"
    by (simp_all add: ex_hup_def ex_server_fields ex_process_def)
  have sc: "pr_scan ex_hup = Some ex_scanner_server" "ss_world ex_scanner_server = pr_world ex_hup"
    by (simp_all add: ex_hup_def ex_scanner_server_def scan_New_def ex_flags_def ex_config_def ex_process_def)
  have ht: "pr_http ex_hup = Some ex_hup_http" "fst (http_Refresh (he_host ex_host_env) (he_compile ex_host_env) ex_no_hists ex_hup_http) \<noteq> Inl (Panic x)" for x
    by (simp_all add: ex_hup_def ex_hup_http_def http_New_def Let_def ex_flags_def ex_config_def http_Refresh_def http_refresh_def kp_load_def ct_load_def)
  have po: "pr_ro ex_hup = Some (ex_pool 0)" "pr_admin ex_hup = Some (ex_pool 1)" "pl_pool (ex_pool 0) \<noteq> pl_pool (ex_pool 1)" "ds_wf (pr_db ex_hup)"
      "pl_pool (ex_pool 0) \<in> dom (map_of (ds_open (pr_db ex_hup)))" "pl_pool (ex_pool 1) \<in> dom (map_of (ds_open (pr_db ex_hup)))"
    by (auto simp: ex_hup_def ex_pool_def ex_running_db_def ds_wf_def split: if_splits)
  have up: "db_up (he_driver ex_host_env) u" for u by (rule ex_host_env_ok(2))
  obtain p' and ro' ad' :: Pool where p': "sighup ex_host_env ex_no_hists ex_hup = Some (Inr (), p')"
      "pr_coll p' = Some (ex_server\<lparr>s_refresh := (s_refresh ex_server)\<lparr>RefreshErrors := inc ''metric_collector'' (RefreshErrors (s_refresh ex_server))\<rparr>\<rparr>, Competing)"
      "dom (map_of (ds_open (pr_db p'))) = dom (map_of (ds_open (pr_db ex_hup))) - {pl_pool (ex_pool 0), pl_pool (ex_pool 1)} \<union> {pl_pool ro', pl_pool ad'}"
      "{pl_pool ro', pl_pool ad'} \<inter> dom (map_of (ds_open (pr_db ex_hup))) = {}"
    using sighup_keeps_old[OF net co sc ht po up up] by (elim exE conjE) (rule that, assumption+)
  have "pl_pool (ex_pool 0) \<notin> dom (map_of (ds_open (pr_db p')))" using p'(3,4) po(5) by blast
  then have "0 \<notin> dom (map_of (ds_open (pr_db p')))" by (simp add: ex_pool_def)
  then show ?thesis using p'(1) by (intro exI[of _ p']) (simp add: p'(2))
qed

end
