(* ===== verification/Process_Frames.thy ===== *)
theory Process_Frames
  imports Collector_Server Scanner_Server Store_Sql
begin

text \<open>
  What the steps of a server leave alone, whatever they meet: a refresh only reads the store, also
  when the connection is refused or lost on the way, and the collector server removes no job of the
  scheduler but its own.
\<close>

section \<open>Reads\<close>

definition keeps_db :: "(conn, 'a) op \<Rightarrow> bool" where
  "keeps_db f = (\<forall>c. conn_db (snd (f c)) = conn_db c)"

lemma take_net_db: "take_net c = (o1, c1) \<Longrightarrow> conn_db c1 = conn_db c"
  by (auto simp: take_net_def split: list.splits)

lemma keeps_db_query: "keeps_db (conn_Query q)" "keeps_db (conn_QueryRow q')"
  by (auto simp: keeps_db_def conn_Query_def conn_QueryRow_def dest: take_net_db split: prod.splits outcome.splits sum.splits)

lemma keeps_db_bind: "keeps_db f \<Longrightarrow> (\<And>x. keeps_db (g x)) \<Longrightarrow> keeps_db (op_bind f g)"
  unfolding keeps_db_def op_bind_def by (auto split: prod.splits sum.splits) (metis snd_conv)+

lemma keeps_db_return: "keeps_db (op_return x)" "keeps_db (rows_loop r)"
  by (simp_all add: keeps_db_def op_return_def rows_loop_def)

lemma keeps_db_at: "(\<And>c. keeps_db (f c)) \<Longrightarrow> keeps_db (\<lambda>c. f c c)"
  by (simp add: keeps_db_def)

lemmas keeps_db_intros = keeps_db_query keeps_db_bind keeps_db_return

lemma keeps_db_rows: "keeps_db (\<lambda>c. op_bind (conn_Query (q c)) rows_loop c)"
  by (rule keeps_db_at) (intro keeps_db_intros)

lemma sql_reads_keep_db:
  "keeps_db sql_GetCollectionNames" "keeps_db (sql_GetCollection n)" "keeps_db sql_GetScanNames" "keeps_db (sql_GetScan n)"
proof -
  show "keeps_db sql_GetCollectionNames" "keeps_db sql_GetScanNames"
    unfolding sql_GetCollectionNames_def[abs_def] sql_GetScanNames_def[abs_def] by (rule keeps_db_rows)+
  have "keeps_db (sql_GetMetrics n)" "keeps_db (sql_GetScanPatterns n)"
    unfolding sql_GetMetrics_def[abs_def] sql_GetScanPatterns_def[abs_def] by (rule keeps_db_rows)+
  then show "keeps_db (sql_GetCollection n)" "keeps_db (sql_GetScan n)"
    unfolding sql_GetCollection_def sql_GetScan_def by (auto intro!: keeps_db_intros split: option.splits)
qed

text \<open>A refresh only reads the store.\<close>

definition store_reads :: "('st, 'a) conf_store \<Rightarrow> ('st \<Rightarrow> 'b) \<Rightarrow> bool" where
  "store_reads CS f = (\<forall>st n. f (snd (cs_names CS st)) = f st \<and> f (snd (cs_get CS n st)) = f st)"

lemma store_readsD:
  assumes "store_reads CS f"
  shows "cs_names CS st = (r, st') \<Longrightarrow> f st' = f st" "cs_get CS n st = (r', st') \<Longrightarrow> f st' = f st"
  using assms unfolding store_reads_def by (metis snd_conv)+

lemma refresh_one_reads:
  assumes "store_reads (d_store D) f" "refresh_one D n (s, st, keep) = (r, (s', st', keep'))"
  shows "f st' = f st"
proof -
  obtain x st1 where g: "cs_get (d_store D) n st = (x, st1)" by fastforce
  then have "st' = st1" using assms(2) by (auto simp: refresh_one_def split: sum.splits fault.splits option.splits if_splits prod.splits)
  then show ?thesis using store_readsD(2)[OF assms(1) g] by simp
qed

lemma lockedRefresh_reads:
  assumes "store_reads (d_store D) f" "lockedRefresh D (s, st) = (r, (s', st'))"
  shows "f st' = f st"
proof -
  obtain x st1 where n: "cs_names (d_store D) st = (x, st1)" by fastforce
  note f1 = store_readsD(1)[OF assms(1) n]
  show ?thesis
  proof (cases x)
    case (Inl e)
    then show ?thesis using assms(2) n f1 by (auto simp: lockedRefresh_def)
  next
    case (Inr names)
    obtain y s2 st2 keep where l: "for_each (refresh_one D) names (s, st1, {}) = (y, (s2, st2, keep))" by (metis surj_pair)
    let ?P = "\<lambda>(s, st, keep). f st = f st1"
    have "?P (s2, st2, keep)"
    proof (rule for_each_inv[OF _ _ l, where P = ?P])
      fix n z r z' assume "?P z" "refresh_one D n z = (r, z')"
      then show "?P z'" by (cases z; cases z') (auto dest: refresh_one_reads[OF assms(1)])
    qed simp
    moreover have "st' = st2" using assms(2) n Inr l by (auto simp: lockedRefresh_def split: sum.splits prod.splits)
    ultimately show ?thesis using f1 by simp
  qed
qed

lemma scan_one_reads:
  assumes "store_reads (sd_store D) f" "scan_one D n (s, st, keep) = (r, (s', st', keep'))"
  shows "f st' = f st"
proof -
  obtain x st1 where g: "cs_get (sd_store D) n st = (x, st1)" by fastforce
  then have "st' = st1" using assms(2) by (auto simp: scan_one_def split: sum.splits fault.splits option.splits if_splits prod.splits)
  then show ?thesis using store_readsD(2)[OF assms(1) g] by simp
qed

lemma scan_Refresh_reads:
  assumes "store_reads (sd_store D) f" "scan_Refresh D (s, st) = (r, (s', st'))"
  shows "f st' = f st"
proof -
  obtain x st1 where n: "cs_names (sd_store D) st = (x, st1)" by fastforce
  note f1 = store_readsD(1)[OF assms(1) n]
  show ?thesis
  proof (cases x)
    case (Inl e)
    then show ?thesis using assms(2) n f1 by (cases e) (auto simp: scan_Refresh_def scan_refresh_def)
  next
    case (Inr names)
    obtain y s2 st2 keep where l: "for_each (scan_one D) names (s, st1, {}) = (y, (s2, st2, keep))" by (metis surj_pair)
    let ?P = "\<lambda>(s, st, keep). f st = f st1"
    have "?P (s2, st2, keep)"
    proof (rule for_each_inv[OF _ _ l, where P = ?P])
      fix n z r z' assume "?P z" "scan_one D n z = (r, z')"
      then show "?P z'" by (cases z; cases z') (auto dest: scan_one_reads[OF assms(1)])
    qed simp
    moreover have "st' = st2" using assms(2) n Inr l by (cases y) (auto simp: scan_Refresh_def scan_refresh_def split: sum.splits fault.splits)
    ultimately show ?thesis using f1 by simp
  qed
qed

section \<open>The jobs of the other parts\<close>

text \<open>The collector server removes no job but its own.\<close>

definition jobs_kept :: "('v, 'r, 'c, 'q, 'st) deps \<Rightarrow> ('v, 'r, 'c, 'q) serverImpl \<Rightarrow> ('v, 'r, 'c, 'q) serverImpl \<Rightarrow> bool" where
  "jobs_kept D s s' = (\<forall>j t. live D s j = Some t \<longrightarrow> (\<forall>i. t \<noteq> CollectTask i) \<longrightarrow> live D s' j = Some t)"

lemma jobs_kept_trans: "jobs_kept D s s' \<Longrightarrow> jobs_kept D s' s'' \<Longrightarrow> jobs_kept D s s''"
  by (auto simp: jobs_kept_def)

lemma jobs_kept_live: "live D s' = live D s \<Longrightarrow> jobs_kept D s s'"
  by (simp add: jobs_kept_def)

lemma live_used: "sched_laws (d_sched D) \<Longrightarrow> live D s j = Some t \<Longrightarrow> j \<in> used D s"
  by (auto simp: live_def used_def split: option.splits intro: sch_live_used)

lemma reschedule_kept:
  assumes laws: "sched_laws (d_sched D)" and inv: "jobs_inv D s" and r: "reschedule D coll s = (r, s')"
  shows "jobs_kept D s s'"
proof (cases "entry s (coll_Name coll)")
  case None
  then have "schedule D coll s = (r, s')" using r by (simp add: reschedule_def lockedGetJob_def entry_def)
  from schedule_inv[OF laws inv _ this] None show ?thesis using live_used[OF laws] by (auto simp: jobs_kept_def)
next
  case (Some ex)
  show ?thesis
  proof (cases "GetLastModified (s_collectors s ! sj_collector ex) < coll_LastModified coll")
    case False
    then show ?thesis using r Some by (simp add: reschedule_def lockedGetJob_def entry_def jobs_kept_def)
  next
    case True
    obtain s1 where s1: "removeJob D (sj_job ex) s = (Inr (), s1)" "jobs_inv D s1" "entry s1 = entry s" "live D s1 = (live D s)(sj_job ex := None)"
      using removeJob_effect[OF laws inv, of "sj_job ex"] by metis
    have sc: "schedule D coll s1 = (r, s')"
      using r Some True s1(1) by (simp add: reschedule_def lockedGetJob_def entry_def op_bind_def)
    have "jobs_kept D s s1" using jobs_invD(5)[OF inv Some] by (auto simp: jobs_kept_def s1(4))
    moreover have "live D s1 (sj_job sj) = None" if "entry s1 (coll_Name coll) = Some sj" for sj using that Some by (simp add: s1)
    then have "jobs_kept D s1 s'" using schedule_inv[OF laws s1(2) _ sc] live_used[OF laws] by (auto simp: jobs_kept_def)
    ultimately show ?thesis by (rule jobs_kept_trans)
  qed
qed

lemma cleanup_job_live:
  assumes "sched_laws (d_sched D)" "cleanup_job D keep (k, sj) s = (r, s')" "j \<noteq> sj_job sj"
  shows "live D s' j = live D s j"
  using assms(2,3) sch_Remove_laws[OF assms(1)]
  by (auto simp: cleanup_job_def op_bind_def removeJob_def live_def split: if_splits option.splits)

lemma lockedCleanupJobs_kept:
  assumes "sched_laws (d_sched D)" "jobs_inv D s" "lockedCleanupJobs D keep s = (r, s')"
  shows "jobs_kept D s s'"
proof -
  let ?J = "sj_job ` snd ` set (s_scheduledJobs s)"
  have "\<forall>j. j \<notin> ?J \<longrightarrow> live D s' j = live D s j"
  proof (rule for_each_inv[OF _ _ assms(3)[unfolded lockedCleanupJobs_def], where P = "\<lambda>s'. \<forall>j. j \<notin> ?J \<longrightarrow> live D s' j = live D s j"])
    fix x y r y' assume x: "x \<in> set (s_scheduledJobs s)" and y: "\<forall>j. j \<notin> ?J \<longrightarrow> live D y j = live D s j" and c: "cleanup_job D keep x y = (r, y')"
    obtain k sj where k: "x = (k, sj)" by fastforce
    then have "sj_job sj \<in> ?J" using x by force
    then show "\<forall>j. j \<notin> ?J \<longrightarrow> live D y' j = live D s j" using y cleanup_job_live[OF assms(1) c[unfolded k]] by metis
  qed simp
  moreover have "live D s j \<noteq> Some t" if "j \<in> ?J" "\<forall>i. t \<noteq> CollectTask i" for j t
  proof -
    obtain k sj where "(k, sj) \<in> set (s_scheduledJobs s)" "j = sj_job sj" using \<open>j \<in> ?J\<close> by force
    then have "entry s k = Some sj" using wf_map_in_set[OF jobs_invD(2)[OF assms(2)]] by (simp add: entry_def)
    then show ?thesis using jobs_invD(5)[OF assms(2)] \<open>j = sj_job sj\<close> that(2) by fastforce
  qed
  ultimately show ?thesis unfolding jobs_kept_def by metis
qed

lemma refresh_one_kept:
  assumes "sched_laws (d_sched D)" "jobs_inv D s" "refresh_one D n (s, st, keep) = (r, (s', st', keep'))"
  shows "jobs_kept D s s'"
  using assms(3) reschedule_kept[OF assms(1,2)]
  by (auto simp: refresh_one_def jobs_kept_live split: prod.splits sum.splits fault.splits option.splits if_splits)

lemma lockedRefresh_kept:
  assumes laws: "sched_laws (d_sched D)" and inv: "jobs_inv D s" and r: "lockedRefresh D (s, st) = (r, (s', st'))"
  shows "jobs_kept D s s'"
proof -
  obtain x st1 where n: "cs_names (d_store D) st = (x, st1)" by fastforce
  show ?thesis
  proof (cases x)
    case (Inl e)
    then show ?thesis using r n by (auto simp: lockedRefresh_def live_def intro!: jobs_kept_live)
  next
    case (Inr names)
    obtain y s2 st2 keep where l: "for_each (refresh_one D) names (s, st1, {}) = (y, (s2, st2, keep))" by (metis surj_pair)
    let ?P = "\<lambda>(s1, st, keep). jobs_inv D s1 \<and> jobs_kept D s s1"
    have "?P (s2, st2, keep)"
    proof (rule for_each_inv[OF _ _ l, where P = ?P])
      fix n z r z' assume "?P z" "refresh_one D n z = (r, z')"
      then show "?P z'" by (cases z; cases z') (auto dest: refresh_one_kept[OF laws] refresh_one_inv[OF laws] intro: jobs_kept_trans)
    qed (simp add: inv jobs_kept_live)
    then have p2: "jobs_inv D s2" "jobs_kept D s s2" by simp_all
    obtain z s3 where c: "lockedCleanupJobs D keep s2 = (z, s3)" by fastforce
    have "jobs_kept D s s3" by (rule jobs_kept_trans[OF p2(2) lockedCleanupJobs_kept[OF laws p2(1) c]])
    moreover have "s' = s2 \<or> live D s' = live D s3"
      using r n Inr l c by (auto simp: lockedRefresh_def live_def split: sum.splits)
    ultimately show ?thesis using p2(2) by (auto simp: jobs_kept_def)
  qed
qed

section \<open>The steps of the collector server\<close>

lemma maybeRefresh_frame:
  assumes "sched_laws (d_sched D)" "store_reads (d_store D) f" "jobs_inv D s" "maybeRefresh D busy (s, st) = (r, (s', st'))"
  shows "f st' = f st" "jobs_kept D s s'"
  using assms lockedRefresh_reads[OF assms(2)] lockedRefresh_kept[OF assms(1,3)]
  by (auto simp: maybeRefresh_def jobs_kept_live split: if_splits)

lemma live_setLeaseHolder: "live D (setLeaseHolder b s) = live D s"
  by (simp add: fun_eq_iff live_def setLeaseHolder_def)

lemma lease_refresh_frame:
  assumes "sched_laws (d_sched D)" "store_reads (d_store D) f" "jobs_inv D s" "maybeRefresh D busy (setLeaseHolder b s, st) = (r, (s', st'))"
  shows "f st' = f st \<and> jobs_kept D s s'"
  using maybeRefresh_frame[OF assms(1,2) _ assms(4)] assms(3) by (simp add: setLeaseHolder_inv jobs_kept_def live_setLeaseHolder)

lemma lease_step_frame:
  assumes laws: "sched_laws (d_sched D)" and reads: "store_reads (d_store D) f" and inv: "jobs_inv D s"
    and step: "lease_step D stopping (s, st, ph) (s', st', ph')"
  shows "f st' = f st \<and> jobs_kept D s s'"
proof -
  obtain busy b where m: "(\<exists>r. maybeRefresh D busy (setLeaseHolder b s, st) = (r, (s', st'))) \<or> (s' = setLeaseHolder b s \<and> st' = st)"
    using step
    by (cases rule: lease_step.cases)
       (auto simp: lease_acquired_def lease_done_def lease_released_def split: prod.splits sum.splits fault.splits if_splits)
  then show ?thesis using lease_refresh_frame[OF laws reads inv] by (auto simp: jobs_kept_live live_setLeaseHolder)
qed

lemma job_step_frame:
  assumes laws: "sched_laws (d_sched D)" and reads: "store_reads (d_store D) f" and inv: "jobs_inv D s"
    and step: "job_step D t (s, st, ph) (s', st', ph')"
  shows "f st' = f st \<and> jobs_kept D s s'"
  using step
proof (cases rule: job_step.cases)
  case (tick busy r)
  then show ?thesis using maybeRefresh_frame[OF laws reads inv] tick by simp
next
  case (run q as now elapsed i)
  then have "live D s' = live D s"
    by (auto simp: run_job_def Let_def live_def fun_eq_iff split: prod.splits sum.splits fault.splits if_splits)
  then show ?thesis using run by (simp add: jobs_kept_live)
qed

end
