(* ===== verification/Server_Process.thy ===== *)
theory Server_Process
  imports Cmd_Server Process_Frames
begin

text \<open>
  The process that \<^verbatim>\<open>internal/cmd/server/server.go\<close> starts, as a transition system: the jobs of the
  scheduler, the routine of the lease, the routine that waits for \<^verbatim>\<open>SIGHUP\<close>, the scanners, the stop
  request of \<^verbatim>\<open>main.go\<close> and the routines that wait for it interleave in any order, while other
  processes use the same database.  A job or a routine that panics ends the process, so the step has
  no successor.  The steps of different routines are atomic as far as the code makes them so: a
  refresh of a server or of a pool runs under the mutex of that server or pool.
\<close>

section \<open>State\<close>

text \<open>The five refreshes of a round, in the order of the code, and where the routine for \<^verbatim>\<open>SIGHUP\<close> stands.\<close>

datatype hup_part = CollPart | ScanPart | HttpPart | RoPart | AdminPart
datatype hup_pc = HupWaiting | HupRefreshing "hup_part list" | HupReturned

definition hup_parts :: "hup_part list" where
  "hup_parts = [CollPart, ScanPart, HttpPart, RoPart, AdminPart]"

fun hup_refresh :: "('cfg, 'v, 'r, 'c, 'q, 'cert) host_env \<Rightarrow> hist_answers \<Rightarrow> hup_part \<Rightarrow> ('cfg, 'v, 'r, 'c, 'q, 'cert, unit) pop" where
  "hup_refresh H A CollPart = hup_coll H"
| "hup_refresh H A ScanPart = hup_scan H"
| "hup_refresh H A HttpPart = hup_http H A"
| "hup_refresh H A RoPart = hup_ro H"
| "hup_refresh H A AdminPart = hup_admin H"

text \<open>
  Besides the process: the routine for \<^verbatim>\<open>SIGHUP\<close> and its channel, which holds one signal; whether the
  stopper is stopping and whether its context has been cancelled; whether the scheduler runs, what
  the routine that removes the node has returned, whether the endpoint is served; the lines the
  scanners could not parse.
\<close>

record ('cfg, 'v, 'r, 'c, 'q, 'cert) running =
  rn_proc :: "('cfg, 'v, 'r, 'c, 'q, 'cert) process"
  rn_hup :: hup_pc
  rn_pending :: bool
  rn_stopping :: bool
  rn_cancelled :: bool
  rn_scheduler :: bool
  rn_removed :: "unit result option"
  rn_listening :: bool
  rn_lineErrors :: tally

definition started :: "('cfg, 'v, 'r, 'c, 'q, 'cert) process \<Rightarrow> ('cfg, 'v, 'r, 'c, 'q, 'cert) running" where
  "started p = \<lparr>rn_proc = p, rn_hup = HupWaiting, rn_pending = False, rn_stopping = False, rn_cancelled = False,
     rn_scheduler = True, rn_removed = None, rn_listening = True, rn_lineErrors = []\<rparr>"

section \<open>Steps\<close>

text \<open>\<^verbatim>\<open>signal.Notify\<close> does not wait for room in the channel.\<close>

definition signal_hup :: "('cfg, 'v, 'r, 'c, 'q, 'cert) running \<Rightarrow> ('cfg, 'v, 'r, 'c, 'q, 'cert) running" where
  "signal_hup r = (if rn_hup r = HupReturned then r else r\<lparr>rn_pending := True\<rparr>)"

text \<open>
  The loop of the routine: \<^verbatim>\<open>select\<close> takes a signal or returns when the stopper is stopping (if both
  are ready, either); a round runs its refreshes one after the other.
\<close>

definition receive_hup :: "('cfg, 'v, 'r, 'c, 'q, 'cert) running \<Rightarrow> ('cfg, 'v, 'r, 'c, 'q, 'cert) running" where
  "receive_hup r = (if rn_hup r = HupWaiting \<and> rn_pending r then r\<lparr>rn_pending := False, rn_hup := HupRefreshing hup_parts\<rparr> else r)"

definition return_hup :: "('cfg, 'v, 'r, 'c, 'q, 'cert) running \<Rightarrow> ('cfg, 'v, 'r, 'c, 'q, 'cert) running" where
  "return_hup r = (if rn_hup r = HupWaiting \<and> rn_stopping r then r\<lparr>rn_hup := HupReturned\<rparr> else r)"

definition continue_hup :: "('cfg, 'v, 'r, 'c, 'q, 'cert) host_env \<Rightarrow> hist_answers \<Rightarrow> ('cfg, 'v, 'r, 'c, 'q, 'cert) running
    \<Rightarrow> (unit result \<times> ('cfg, 'v, 'r, 'c, 'q, 'cert) running) option" where
  "continue_hup H A r = (case rn_hup r of
      HupRefreshing (x # xs) \<Rightarrow> map_option (\<lambda>(e, p). (e, r\<lparr>rn_proc := p, rn_hup := (if xs = [] then HupWaiting else HupRefreshing xs)\<rparr>))
        (hup_refresh H A x (rn_proc r))
    | _ \<Rightarrow> Some (Inr (), r))"

text \<open>The routine of \<^verbatim>\<open>main.go\<close> that waits for \<^verbatim>\<open>SIGTERM\<close> or \<^verbatim>\<open>SIGINT\<close>, and the end of the grace period.\<close>

definition interrupt :: "('cfg, 'v, 'r, 'c, 'q, 'cert) running \<Rightarrow> ('cfg, 'v, 'r, 'c, 'q, 'cert) running" where
  "interrupt r = r\<lparr>rn_stopping := True\<rparr>"

definition cancel_context :: "('cfg, 'v, 'r, 'c, 'q, 'cert) running \<Rightarrow> ('cfg, 'v, 'r, 'c, 'q, 'cert) running" where
  "cancel_context r = (if rn_stopping r then r\<lparr>rn_cancelled := True\<rparr> else r)"

text \<open>The routines that wait until the stopper is stopping.\<close>

definition stop_scheduler :: "('cfg, 'v, 'r, 'c, 'q, 'cert) running \<Rightarrow> ('cfg, 'v, 'r, 'c, 'q, 'cert) running" where
  "stop_scheduler r = (if rn_stopping r then r\<lparr>rn_scheduler := False\<rparr> else r)"

definition remove_node :: "('cfg, 'v, 'r, 'c, 'q, 'cert) running \<Rightarrow> ('cfg, 'v, 'r, 'c, 'q, 'cert) running" where
  "remove_node r = (case pr_nodeID (rn_proc r) of None \<Rightarrow> r
     | Some i \<Rightarrow> if rn_stopping r \<and> rn_removed r = None
         then r\<lparr>rn_proc := deregister (rn_proc r), rn_removed := Some (fst (sql_DeleteNode i (pr_conn (rn_proc r))))\<rparr> else r)"

definition shutdown_http :: "('cfg, 'v, 'r, 'c, 'q, 'cert) running \<Rightarrow> ('cfg, 'v, 'r, 'c, 'q, 'cert) running" where
  "shutdown_http r = (if rn_stopping r then r\<lparr>rn_listening := False\<rparr> else r)"

definition halt_scanner :: "nat \<Rightarrow> ('cfg, 'v, 'r, 'c, 'q, 'cert) running \<Rightarrow> ('cfg, 'v, 'r, 'c, 'q, 'cert) running" where
  "halt_scanner i r = (if rn_stopping r
     then r\<lparr>rn_proc := (rn_proc r)\<lparr>pr_scan := map_option (stop_object i) (pr_scan (rn_proc r))\<rparr>\<rparr> else r)"

text \<open>The collector server as its routines see it: it shares the scheduler and the registry.\<close>

definition coll_view :: "('cfg, 'v, 'r, 'c, 'q, 'cert) process \<Rightarrow> ('v, 'r, 'c, 'q) serverImpl \<times> phase \<Rightarrow> ('v, 'r, 'c, 'q, conn) node" where
  "coll_view p = (\<lambda>(s, ph). (s\<lparr>s_world := pr_world p, s_scheduler := Some (pr_sched p)\<rparr>, pr_conn p, ph))"

definition coll_put :: "('v, 'r, 'c, 'q, conn) node \<Rightarrow> ('cfg, 'v, 'r, 'c, 'q, 'cert) process \<Rightarrow> ('cfg, 'v, 'r, 'c, 'q, 'cert) process" where
  "coll_put = (\<lambda>(s, c, ph) p. p\<lparr>pr_conn := c, pr_coll := Some (s, ph), pr_world := s_world s,
     pr_sched := (case s_scheduler s of None \<Rightarrow> pr_sched p | Some q \<Rightarrow> q)\<rparr>)"

definition scheduled_task :: "('cfg, 'v, 'r, 'c, 'q, 'cert) host_env \<Rightarrow> ('cfg, 'v, 'r, 'c, 'q, 'cert) running \<Rightarrow> task \<Rightarrow> bool" where
  "scheduled_task H r t = (rn_scheduler r \<and> t \<in> ran (sch_live (he_sched H) (pr_sched (rn_proc r))))"

text \<open>
  The steps of the process itself: signals and the routine for \<^verbatim>\<open>SIGHUP\<close>; the jobs of the scheduler;
  the routine of the lease; a scanner that opens its file, reads lines, or is stopped; the stop
  request and what waits for it.
\<close>

inductive proc_step :: "('cfg, 'v, 'r, 'c, 'q, 'cert) host_env \<Rightarrow> ('cfg, 'v, 'r, 'c, 'q, 'cert) running \<Rightarrow> ('cfg, 'v, 'r, 'c, 'q, 'cert) running \<Rightarrow> bool" for H where
  hup_arrives: "proc_step H r (signal_hup r)"
| hup_taken: "proc_step H r (receive_hup r)"
| hup_refreshed: "continue_hup H A r = Some (Inr (), r') \<Longrightarrow> proc_step H r r'"
| hup_returns: "proc_step H r (return_hup r)"
| heartbeat: "scheduled_task H r HeartbeatTask \<Longrightarrow> proc_step H r (r\<lparr>rn_proc := heartbeat_job (rn_cancelled r) (rn_proc r)\<rparr>)"
| refresh_http: "scheduled_task H r (RefreshTask ''http_server'') \<Longrightarrow> hup_http H A (rn_proc r) = Some (Inr (), p') \<Longrightarrow> proc_step H r (r\<lparr>rn_proc := p'\<rparr>)"
| refresh_scan: "scheduled_task H r (RefreshTask ''scanners'') \<Longrightarrow> hup_scan H (rn_proc r) = Some (Inr (), p') \<Longrightarrow> proc_step H r (r\<lparr>rn_proc := p'\<rparr>)"
| collector: "scheduled_task H r t \<Longrightarrow> pr_coll (rn_proc r) = Some x \<Longrightarrow> job_step (coll_deps H) t (coll_view (rn_proc r) x) y
    \<Longrightarrow> proc_step H r (r\<lparr>rn_proc := coll_put y (rn_proc r)\<rparr>)"
| lease: "pr_coll (rn_proc r) = Some x \<Longrightarrow> lease_step (coll_deps H) (rn_stopping r) (coll_view (rn_proc r) x) y
    \<Longrightarrow> proc_step H r (r\<lparr>rn_proc := coll_put y (rn_proc r)\<rparr>)"
| scan_opens: "pr_scan (rn_proc r) = Some s \<Longrightarrow> proc_step H r (r\<lparr>rn_proc := (rn_proc r)\<lparr>pr_scan := Some (run_routine tailFile i s)\<rparr>\<rparr>)"
| scan_reads: "pr_scan (rn_proc r) = Some s \<Longrightarrow> i < length (ss_objects s)
    \<Longrightarrow> sc_parse U (he_libs H) (ss_objects s ! i) fname lines (pr_world (rn_proc r), rn_lineErrors r) = (Inr (), (w, t))
    \<Longrightarrow> proc_step H r (r\<lparr>rn_proc := (rn_proc r)\<lparr>pr_world := w\<rparr>, rn_lineErrors := t\<rparr>)"
| scan_halts: "proc_step H r (halt_scanner i r)"
| listen_fails: "proc_step H r (r\<lparr>rn_listening := False\<rparr>)"
| interrupted: "proc_step H r (interrupt r)"
| cancelled: "proc_step H r (cancel_context r)"
| scheduler_stops: "proc_step H r (stop_scheduler r)"
| node_removed: "proc_step H r (remove_node r)"
| http_stops: "proc_step H r (shutdown_http r)"

text \<open>
  Other users of the database may change it as they like and delete the row of this node, but
  they do not write it: a row is written with its identity only by the node that was given it.
  The connection may fail or recover.
\<close>

definition row_rely :: "int \<Rightarrow> conn \<Rightarrow> conn \<Rightarrow> bool" where
  "row_rely i c c' = (sql_node_reg c' i \<in> {None, sql_node_reg c i})"

inductive sys_step :: "('cfg, 'v, 'r, 'c, 'q, 'cert) host_env \<Rightarrow> ('cfg, 'v, 'r, 'c, 'q, 'cert) running \<Rightarrow> ('cfg, 'v, 'r, 'c, 'q, 'cert) running \<Rightarrow> bool" for H where
  own: "proc_step H r r' \<Longrightarrow> sys_step H r r'"
| other: "pr_nodeID (rn_proc r) = Some i \<Longrightarrow> row_rely i (pr_conn (rn_proc r)) c \<Longrightarrow> sys_step H r (r\<lparr>rn_proc := (rn_proc r)\<lparr>pr_conn := c\<rparr>\<rparr>)"

section \<open>The rows of the nodes\<close>

text \<open>What a process with the row \<open>i\<close> does to the database: nothing to any other row or table, and it does not bring its row back.\<close>

definition node_guar :: "int \<Rightarrow> conn \<Rightarrow> conn \<Rightarrow> bool" where
  "node_guar i c c' = ((\<forall>j. j \<noteq> i \<longrightarrow> sql_node_reg c' j = sql_node_reg c j) \<and> (sql_node_reg c i = None \<longrightarrow> sql_node_reg c' i = None)
     \<and> map_option (tbl_node_update (\<lambda>_. [])) (conn_db c') = map_option (tbl_node_update (\<lambda>_. [])) (conn_db c))"

lemma node_guar_same: "conn_db c' = conn_db c \<Longrightarrow> node_guar i c c'"
  by (simp add: node_guar_def sql_node_reg_def)

lemma conn_Exec_db:
  assumes "conn_Exec st c = (r, c')"
  shows "(conn_db c' = conn_db c \<and> r \<noteq> Inr ()) \<or> (\<exists>db db'. conn_db c = Some db \<and> st (conn_now c) db = Inr db' \<and> conn_db c' = Some db')"
proof -
  obtain o1 c1 where t: "take_net c = (o1, c1)" by fastforce
  have "conn_db c1 = conn_db c" "conn_now c1 = conn_now c" using t by (auto simp: take_net_def split: list.splits)
  then show ?thesis using assms t
    by (auto simp: conn_Exec_def on_schema_def split: outcome.splits option.splits sum.splits)
qed

lemma Heartbeat_guar: "node_guar i c (snd (sql_Heartbeat i c))"
proof -
  obtain r c' where e: "sql_Heartbeat i c = (r, c')" by fastforce
  from conn_Exec_db[OF e[unfolded sql_Heartbeat_def]] consider "conn_db c' = conn_db c"
    | db where "conn_db c = Some db" "conn_db c' = Some (db\<lparr>tbl_node := map (\<lambda>(k, n). (k, if k = i then beat (conn_now c) n else n)) (tbl_node db)\<rparr>)"
    by (auto simp: heartbeatNodeStmt_def)
  then show ?thesis
  proof cases
    case 1
    then show ?thesis by (simp add: e node_guar_same)
  next
    case 2
    then show ?thesis by (simp add: e node_guar_def sql_node_reg_def map_of_map_beat)
  qed
qed

lemma DeleteNode_guar: "node_guar i c (snd (sql_DeleteNode i c)) \<and> (fst (sql_DeleteNode i c) = Inr () \<longrightarrow> sql_node_reg (snd (sql_DeleteNode i c)) i = None)"
proof -
  obtain r c' where e: "sql_DeleteNode i c = (r, c')" by fastforce
  from conn_Exec_db[OF e[unfolded sql_DeleteNode_def]] consider "conn_db c' = conn_db c" "r \<noteq> Inr ()"
    | db where "conn_db c = Some db" "conn_db c' = Some (db\<lparr>tbl_node := AList.delete i (tbl_node db)\<rparr>)"
    by (auto simp: deleteNodeStmt_def)
  then show ?thesis
  proof cases
    case 1
    then show ?thesis by (simp add: e node_guar_same)
  next
    case 2
    then show ?thesis by (simp add: e node_guar_def sql_node_reg_def)
  qed
qed

text \<open>
  The processes of a cluster share the table of the nodes.  What each of them guarantees is what
  the others rely on, so any sequence of their steps is, for one of them, a step of the others.
\<close>

locale row_protocol =
  fixes guar :: "'i \<Rightarrow> 'c \<Rightarrow> 'c \<Rightarrow> bool"
    and rely :: "'i \<Rightarrow> 'c \<Rightarrow> 'c \<Rightarrow> bool"
  assumes guar_rely: "guar i c c' \<Longrightarrow> i \<noteq> k \<Longrightarrow> rely k c c'"
    and rely_refl: "rely k c c"
    and rely_trans: "rely k c c' \<Longrightarrow> rely k c' c'' \<Longrightarrow> rely k c c''"
begin

lemma others_rely:
  assumes "(\<lambda>c c'. \<exists>i. i \<noteq> k \<and> guar i c c')\<^sup>*\<^sup>* c c'"
  shows "rely k c c'"
  using assms by (induction rule: rtranclp_induct) (auto intro: rely_refl rely_trans dest: guar_rely)

end

interpretation node_rows: row_protocol node_guar row_rely
  by unfold_locales (auto simp: node_guar_def row_rely_def)

lemma others_step:
  assumes "pr_nodeID (rn_proc r) = Some k" "(\<lambda>c c'. \<exists>i. i \<noteq> k \<and> node_guar i c c')\<^sup>*\<^sup>* (pr_conn (rn_proc r)) c"
  shows "sys_step H r (r\<lparr>rn_proc := (rn_proc r)\<lparr>pr_conn := c\<rparr>\<rparr>)"
  by (rule sys_step.other[OF assms(1) node_rows.others_rely[OF assms(2)]])

section \<open>The pools\<close>

text \<open>The pool is open, with the settings it was made with.\<close>

definition pool_open :: "'cfg driver \<Rightarrow> 'cfg db_state \<Rightarrow> Pool \<Rightarrow> bool" where
  "pool_open D d a = (\<exists>cfg. drv_ParseConfig D (pl_URL a) = Inr cfg
     \<and> map_of (ds_open d) (pl_pool a) = Some \<lparr>pp_config = cfg, pp_ro = pl_readOnly a, pp_unsafe = pl_allowUnsafeInternals a\<rparr>)"

definition same_settings :: "Pool \<Rightarrow> Pool \<Rightarrow> bool" where
  "same_settings a b = (pl_readOnly b = pl_readOnly a \<and> pl_allowUnsafeInternals b = pl_allowUnsafeInternals a \<and> pl_URL b = pl_URL a)"

text \<open>Opening a pool adds it, or adds none.\<close>

lemma pgxPool_frame:
  assumes "pgxPool D URL ro unsafe d = Some (r, d')" "ds_wf d"
  shows "ds_wf d' \<and> (case r of Inl e \<Rightarrow> ds_open d' = ds_open d
    | Inr i \<Rightarrow> i \<notin> dom (map_of (ds_open d)) \<and> (\<exists>cfg. drv_ParseConfig D URL = Inr cfg \<and> ds_open d' = (i, \<lparr>pp_config = cfg, pp_ro = ro, pp_unsafe = unsafe\<rparr>) # ds_open d))"
proof (cases "drv_ParseConfig D URL")
  case (Inl e)
  then show ?thesis using assms by (auto simp: pgxPool_def)
next
  case (Inr cfg)
  have "connect_loop D \<lparr>pp_config = cfg, pp_ro = ro, pp_unsafe = unsafe\<rparr> (backoff 0) d = Some (r, d')"
    using assms(1) pgxPool_loop[OF Inr] by simp
  from loop_frame[OF this assms(2)] Inr show ?thesis by (auto split: sum.splits)
qed

lemma db_new_opens:
  assumes "db_new D URL ro unsafe d = Some (Inr a, d')" "ds_wf d"
  shows "ds_wf d'" "pool_open D d' a" "same_settings \<lparr>pl_readOnly = ro, pl_allowUnsafeInternals = unsafe, pl_URL = URL, pl_pool = 0\<rparr> a"
    "\<And>b. pool_open D d b \<Longrightarrow> pool_open D d' b \<and> pl_pool b \<noteq> pl_pool a"
proof -
  obtain i where p: "pgxPool D URL ro unsafe d = Some (Inr i, d')" and a: "a = \<lparr>pl_readOnly = ro, pl_allowUnsafeInternals = unsafe, pl_URL = URL, pl_pool = i\<rparr>"
    using assms(1) by (auto simp: db_new_def split: sum.splits) (metis sum.exhaust)
  note F = pgxPool_frame[OF p assms(2)]
  show "ds_wf d'" "pool_open D d' a" "same_settings \<lparr>pl_readOnly = ro, pl_allowUnsafeInternals = unsafe, pl_URL = URL, pl_pool = 0\<rparr> a"
    using F by (auto simp: pool_open_def a same_settings_def)
  fix b assume "pool_open D d b"
  then show "pool_open D d' b \<and> pl_pool b \<noteq> pl_pool a" using F by (auto simp: pool_open_def a)
qed

lemma Pool_Refresh_open:
  assumes "Pool_Refresh D a d = Some (r, a', d')" "ds_wf d" "pool_open D d a"
  shows "ds_wf d'" "pool_open D d' a'" "same_settings a a'"
    "\<And>b. pool_open D d b \<Longrightarrow> pl_pool b \<noteq> pl_pool a \<Longrightarrow> pool_open D d' b \<and> pl_pool b \<noteq> pl_pool a'"
proof -
  obtain x d1 where p: "pgxPool D (pl_URL a) (pl_readOnly a) (pl_allowUnsafeInternals a) d = Some (x, d1)"
    using assms(1) by (auto simp: Pool_Refresh_def split: option.splits)
  note F = pgxPool_frame[OF p assms(2)]
  have "ds_wf d' \<and> pool_open D d' a' \<and> same_settings a a' \<and> (\<forall>b. pool_open D d b \<longrightarrow> pl_pool b \<noteq> pl_pool a \<longrightarrow> pool_open D d' b \<and> pl_pool b \<noteq> pl_pool a')"
  proof (cases x)
    case (Inl e)
    then have "a' = a" "d' = d1" using assms(1) p by (auto simp: Pool_Refresh_def)
    then show ?thesis using F Inl assms(3) by (simp add: pool_open_def same_settings_def)
  next
    case (Inr i)
    then have "a' = a\<lparr>pl_pool := i\<rparr>" "d' = d1\<lparr>ds_open := AList.delete (pl_pool a) (ds_open d1)\<rparr>" using assms(1) p by (auto simp: Pool_Refresh_def Let_def)
    then show ?thesis using F Inr assms(3) by (auto simp: pool_open_def same_settings_def ds_wf_def)
  qed
  then show "ds_wf d'" "pool_open D d' a'" "same_settings a a'"
    "\<And>b. pool_open D d b \<Longrightarrow> pl_pool b \<noteq> pl_pool a \<Longrightarrow> pool_open D d' b \<and> pl_pool b \<noteq> pl_pool a'" by blast+
qed

lemma sql_stores_read: "store_reads sql_collections_store conn_db" "store_reads sql_scans_store conn_db"
  using sql_reads_keep_db by (simp_all add: store_reads_def sql_collections_store_def sql_scans_store_def keeps_db_def)

section \<open>The invariant of the process\<close>

text \<open>
  Both pools are there, open, different, and with the settings of the start: the collectors get
  follower reads and the others do not.
\<close>

definition pools_inv :: "('cfg, 'v, 'r, 'c, 'q, 'cert) host_env \<Rightarrow> Config \<Rightarrow> ('cfg, 'v, 'r, 'c, 'q, 'cert) process \<Rightarrow> bool" where
  "pools_inv H cfg p = (\<exists>ad ro. pr_admin p = Some ad \<and> pr_ro p = Some ro \<and> ds_wf (pr_db p) \<and> pl_pool ad \<noteq> pl_pool ro
     \<and> pool_open (he_driver H) (pr_db p) ad \<and> pool_open (he_driver H) (pr_db p) ro
     \<and> same_settings \<lparr>pl_readOnly = False, pl_allowUnsafeInternals = False, pl_URL = cfg_URL cfg, pl_pool = 0\<rparr> ad
     \<and> same_settings \<lparr>pl_readOnly = True, pl_allowUnsafeInternals = cfg_AllowUnsafeInternals cfg, pl_URL = cfg_URL cfg, pl_pool = 0\<rparr> ro)"

definition coll_inv :: "('cfg, 'v, 'r, 'c, 'q, 'cert) host_env \<Rightarrow> ('cfg, 'v, 'r, 'c, 'q, 'cert) process \<Rightarrow> bool" where
  "coll_inv H p = (\<exists>x. pr_coll p = Some x \<and> node_inv (coll_deps H) (coll_view p x))"

text \<open>\<open>J\<close> are the jobs of the start; none of them runs a collector.\<close>

definition start_jobs :: "(nat \<Rightarrow> task option) \<Rightarrow> bool" where
  "start_jobs J = (\<forall>j i. J j \<noteq> Some (CollectTask i))"

definition proc_inv :: "('cfg, 'v, 'r, 'c, 'q, 'cert) host_env \<Rightarrow> Config \<Rightarrow> int \<Rightarrow> (nat \<Rightarrow> task option) \<Rightarrow> ('cfg, 'v, 'r, 'c, 'q, 'cert) process \<Rightarrow> bool" where
  "proc_inv H cfg i J p = (pr_nodeID p = Some i \<and> pools_inv H cfg p \<and> coll_inv H p \<and> J \<subseteq>\<^sub>m sch_live (he_sched H) (pr_sched p))"

lemma same_settings_trans: "same_settings a b \<Longrightarrow> same_settings b c \<Longrightarrow> same_settings a c"
  by (simp add: same_settings_def)

lemma hup_ro_pools:
  assumes "hup_ro H p = Some (e, p')" "pools_inv H cfg p"
  shows "pools_inv H cfg p'"
proof -
  obtain ad ro where a: "pr_admin p = Some ad" "pr_ro p = Some ro" "ds_wf (pr_db p)" "pl_pool ad \<noteq> pl_pool ro"
      "pool_open (he_driver H) (pr_db p) ad" "pool_open (he_driver H) (pr_db p) ro"
      "same_settings \<lparr>pl_readOnly = False, pl_allowUnsafeInternals = False, pl_URL = cfg_URL cfg, pl_pool = 0\<rparr> ad"
      "same_settings \<lparr>pl_readOnly = True, pl_allowUnsafeInternals = cfg_AllowUnsafeInternals cfg, pl_URL = cfg_URL cfg, pl_pool = 0\<rparr> ro"
    using assms(2) unfolding pools_inv_def by blast
  obtain r ro' d where r: "Pool_Refresh (he_driver H) ro (pr_db p) = Some (r, ro', d)" "p' = p\<lparr>pr_ro := Some ro', pr_db := d\<rparr>"
    using assms(1) a(2) by (auto simp: hup_ro_def)
  note R = Pool_Refresh_open[OF r(1) a(3) a(6)]
  show ?thesis unfolding pools_inv_def
    using a(1) r(2) R(1,2) R(4)[OF a(5,4)] a(7) same_settings_trans[OF a(8) R(3)] by (intro exI[of _ ad] exI[of _ ro']) simp
qed

lemma hup_admin_pools:
  assumes "hup_admin H p = Some (e, p')" "pools_inv H cfg p"
  shows "pools_inv H cfg p'"
proof -
  obtain ad ro where a: "pr_admin p = Some ad" "pr_ro p = Some ro" "ds_wf (pr_db p)" "pl_pool ad \<noteq> pl_pool ro"
      "pool_open (he_driver H) (pr_db p) ad" "pool_open (he_driver H) (pr_db p) ro"
      "same_settings \<lparr>pl_readOnly = False, pl_allowUnsafeInternals = False, pl_URL = cfg_URL cfg, pl_pool = 0\<rparr> ad"
      "same_settings \<lparr>pl_readOnly = True, pl_allowUnsafeInternals = cfg_AllowUnsafeInternals cfg, pl_URL = cfg_URL cfg, pl_pool = 0\<rparr> ro"
    using assms(2) unfolding pools_inv_def by blast
  obtain r ad' d where r: "Pool_Refresh (he_driver H) ad (pr_db p) = Some (r, ad', d)" "p' = p\<lparr>pr_admin := Some ad', pr_db := d\<rparr>"
    using assms(1) a(1) by (auto simp: hup_admin_def)
  note R = Pool_Refresh_open[OF r(1) a(3) a(5)]
  show ?thesis unfolding pools_inv_def
    using a(2) r(2) R(1,2) R(4)[OF a(6) a(4)[symmetric]] a(8) same_settings_trans[OF a(7) R(3)] by (intro exI[of _ ad'] exI[of _ ro]) auto
qed

text \<open>The invariant of the collector server is about its table and the scheduler.\<close>

lemma coll_inv_frame:
  assumes "coll_inv H p" "pr_coll p' = pr_coll p" "pr_sched p' = pr_sched p"
  shows "coll_inv H p'"
proof -
  obtain s ph where x: "pr_coll p = Some (s, ph)" "node_inv (coll_deps H) (coll_view p (s, ph))" using assms(1) unfolding coll_inv_def by auto
  have "node_inv (coll_deps H) (coll_view p' (s, ph)) = node_inv (coll_deps H) (coll_view p (s, ph))"
    using assms(3) by (simp add: coll_view_def node_inv_def jobs_inv_def entry_def live_def used_def)
  then show ?thesis using x assms(2,3) unfolding coll_inv_def by simp
qed

lemma coll_put_inv:
  assumes inv: "proc_inv H cfg i J p" and J: "start_jobs J" and x: "pr_coll p = Some x" "coll_view p x = (s, c, ph)"
    and y: "node_inv (coll_deps H) (s', c', ph')" "jobs_kept (coll_deps H) s s'" "conn_db c' = conn_db c"
  shows "proc_inv H cfg i J (coll_put (s', c', ph') p)" "node_guar k (pr_conn p) (pr_conn (coll_put (s', c', ph') p))"
proof -
  have v: "c = pr_conn p" "s_scheduler s = Some (pr_sched p)" using x(2) by (auto simp: coll_view_def split: prod.splits)
  then show "node_guar k (pr_conn p) (pr_conn (coll_put (s', c', ph') p))" using y(3) by (auto simp: coll_put_def intro: node_guar_same)
  obtain q where q: "s_scheduler s' = Some q" using y(1) jobs_invD(1) by (fastforce simp: node_inv_def)
  have "coll_view (coll_put (s', c', ph') p) (s', ph') = (s', c', ph')" using q by (simp add: coll_view_def coll_put_def)
  then have c: "coll_inv H (coll_put (s', c', ph') p)" using y(1) by (simp add: coll_inv_def coll_put_def)
  have "sch_live (he_sched H) q j = Some t" if "J j = Some t" for j t
  proof -
    have "sch_live (he_sched H) (pr_sched p) j = Some t" using inv that unfolding proc_inv_def map_le_def by (metis domI)
    then have "live (coll_deps H) s j = Some t" by (simp add: live_def v(2) coll_deps_def)
    moreover have "\<forall>i. t \<noteq> CollectTask i" using J that unfolding start_jobs_def by blast
    ultimately have "live (coll_deps H) s' j = Some t" using y(2) unfolding jobs_kept_def by blast
    then show ?thesis by (simp add: live_def q coll_deps_def)
  qed
  then have "J \<subseteq>\<^sub>m sch_live (he_sched H) q" by (auto simp: map_le_def)
  moreover have "pools_inv H cfg (coll_put (s', c', ph') p)" using inv by (simp add: proc_inv_def pools_inv_def coll_put_def)
  ultimately show "proc_inv H cfg i J (coll_put (s', c', ph') p)" using inv c by (simp add: proc_inv_def coll_put_def q)
qed

lemma coll_reads: "store_reads (d_store (coll_deps H)) conn_db" "sched_laws (he_sched H) \<Longrightarrow> sched_laws (d_sched (coll_deps H))"
  using sql_stores_read(1) by (simp_all add: coll_deps_def)

lemma proc_inv_frame:
  assumes "proc_inv H cfg i J p" "pr_nodeID p' = pr_nodeID p" "pr_admin p' = pr_admin p" "pr_ro p' = pr_ro p" "pr_db p' = pr_db p"
    "pr_coll p' = pr_coll p" "pr_sched p' = pr_sched p"
  shows "proc_inv H cfg i J p'"
  using assms coll_inv_frame[of H p p'] by (simp add: proc_inv_def pools_inv_def)

lemma hup_coll_view:
  assumes "hup_coll H p = Some (e, p')" "pr_coll p = Some x" "coll_view p x = (s, c, ph)"
  obtains r s' c' where "coll_Refresh (coll_deps H) (s, c) = (r, (s', c'))" "p' = coll_put (s', c', ph) p"
  using assms by (auto simp: hup_coll_def coll_view_def coll_put_def split: prod.splits)

text \<open>Every refresh keeps the invariant and writes nothing, whatever it meets.\<close>

lemma hup_refresh_inv:
  assumes laws: "sched_laws (he_sched H)" and J: "start_jobs J" and inv: "proc_inv H cfg i J p"
    and h: "hup_refresh H A x p = Some (e, p')"
  shows "proc_inv H cfg i J p' \<and> node_guar k (pr_conn p) (pr_conn p')"
proof (cases x)
  case CollPart
  obtain y where y: "pr_coll p = Some y" "node_inv (coll_deps H) (coll_view p y)" using inv unfolding proc_inv_def coll_inv_def by blast
  obtain s c ph where v: "coll_view p y = (s, c, ph)" by (metis surj_pair)
  obtain r s' c' where r: "coll_Refresh (coll_deps H) (s, c) = (r, (s', c'))" and p': "p' = coll_put (s', c', ph) p"
    by (rule hup_coll_view[OF h[unfolded CollPart hup_refresh.simps] y(1) v])
  have ni: "node_inv (coll_deps H) (s, c, ph)" "jobs_inv (coll_deps H) s" using y(2) v by (simp_all add: node_inv_def)
  note L = coll_reads(2)[OF laws] and R = r[unfolded coll_Refresh_def]
  from coll_put_inv[OF inv J y(1) v coll_Refresh_inv[OF L r ni(1)] lockedRefresh_kept[OF L ni(2) R] lockedRefresh_reads[OF coll_reads(1) R]]
  show ?thesis unfolding p' by blast
next
  case ScanPart
  show ?thesis
  proof (cases "pr_scan p")
    case None
    then show ?thesis using h ScanPart inv by (auto simp: hup_scan_def node_guar_same)
  next
    case (Some t)
    obtain r s' c' where r: "scan_Refresh (scanner_deps H) (t\<lparr>ss_world := pr_world p\<rparr>, pr_conn p) = (r, (s', c'))" by (metis surj_pair)
    then have p': "p' = p\<lparr>pr_conn := c', pr_scan := Some s', pr_world := ss_world s'\<rparr>" using h ScanPart Some by (simp add: hup_scan_def)
    have "conn_db c' = conn_db (pr_conn p)" by (rule scan_Refresh_reads[OF _ r]) (simp add: scanner_deps_def sql_stores_read)
    then show ?thesis using proc_inv_frame[OF inv, of p'] by (simp add: p' node_guar_same)
  qed
next
  case HttpPart
  then have "\<exists>s. p' = p\<lparr>pr_http := s\<rparr> \<or> p' = p" using h by (auto simp: hup_http_def split: option.splits prod.splits)
  then show ?thesis using proc_inv_frame[OF inv] inv by (auto simp: node_guar_same)
next
  case RoPart
  then have "pools_inv H cfg p'" using h hup_ro_pools inv by (auto simp: proc_inv_def)
  moreover obtain a d where "p' = p\<lparr>pr_ro := a, pr_db := d\<rparr> \<or> p' = p" using h RoPart by (auto simp: hup_ro_def split: option.splits)
  ultimately show ?thesis using inv coll_inv_frame[of H p p'] by (auto simp: proc_inv_def node_guar_same)
next
  case AdminPart
  then have "pools_inv H cfg p'" using h hup_admin_pools inv by (auto simp: proc_inv_def)
  moreover obtain a d where "p' = p\<lparr>pr_admin := a, pr_db := d\<rparr> \<or> p' = p" using h AdminPart by (auto simp: hup_admin_def split: option.splits)
  ultimately show ?thesis using inv coll_inv_frame[of H p p'] by (auto simp: proc_inv_def node_guar_same)
qed

lemma collector_step_inv:
  assumes laws: "sched_laws (he_sched H)" and J: "start_jobs J" and inv: "proc_inv H cfg i J p" and x: "pr_coll p = Some x"
    and y: "job_step (coll_deps H) t (coll_view p x) y \<or> lease_step (coll_deps H) b (coll_view p x) y"
  shows "proc_inv H cfg i J (coll_put y p) \<and> node_guar k (pr_conn p) (pr_conn (coll_put y p))"
proof -
  obtain s c ph where v: "coll_view p x = (s, c, ph)" by (metis surj_pair)
  obtain s' c' ph' where y': "y = (s', c', ph')" by (metis surj_pair)
  have ni: "node_inv (coll_deps H) (s, c, ph)" using inv x v unfolding proc_inv_def coll_inv_def by auto
  then have j: "jobs_inv (coll_deps H) s" by (simp add: node_inv_def)
  note L = coll_reads(2)[OF laws]
  have "conn_db c' = conn_db c \<and> jobs_kept (coll_deps H) s s'"
    using y[unfolded v y'] lease_step_frame[OF L coll_reads(1) j] job_step_frame[OF L coll_reads(1) j] by blast
  moreover have "node_inv (coll_deps H) y" using y[unfolded v] ni lease_step_inv[OF L] job_step_inv[OF L] by blast
  ultimately show ?thesis using coll_put_inv[OF inv J x v] unfolding y' by blast
qed

lemma deregister_inv: "proc_inv H cfg i J p \<Longrightarrow> proc_inv H cfg i J (deregister p) \<and> pr_conn (deregister p) = snd (sql_DeleteNode i (pr_conn p))"
  using proc_inv_frame[of H cfg i J p "deregister p"] by (auto simp: deregister_def proc_inv_def)

lemma heartbeat_inv: "proc_inv H cfg i J p \<Longrightarrow> proc_inv H cfg i J (heartbeat_job b p) \<and> node_guar i (pr_conn p) (pr_conn (heartbeat_job b p))"
  using proc_inv_frame[of H cfg i J p "heartbeat_job b p"] Heartbeat_guar[of i "pr_conn p"]
  by (auto simp: heartbeat_job_def proc_inv_def node_guar_same)

section \<open>The invariant of the running system\<close>

text \<open>Once the removal has succeeded the row is gone; nothing ends before the stop request.\<close>

definition run_inv :: "('cfg, 'v, 'r, 'c, 'q, 'cert) host_env \<Rightarrow> Config \<Rightarrow> int \<Rightarrow> (nat \<Rightarrow> task option) \<Rightarrow> ('cfg, 'v, 'r, 'c, 'q, 'cert) running \<Rightarrow> bool" where
  "run_inv H cfg i J r = (proc_inv H cfg i J (rn_proc r)
     \<and> (rn_removed r = Some (Inr ()) \<longrightarrow> sql_node_reg (pr_conn (rn_proc r)) i = None)
     \<and> (rn_removed r \<noteq> None \<or> \<not> rn_scheduler r \<or> rn_cancelled r \<or> rn_hup r = HupReturned \<longrightarrow> rn_stopping r))"

text \<open>A step that changes the process and the flags of the routines by one of these is safe.\<close>

lemma run_inv_proc:
  assumes "run_inv H cfg i J r" "proc_inv H cfg i J p" "node_guar i (pr_conn (rn_proc r)) (pr_conn p)"
    and "rn_proc r' = p" "rn_removed r' = rn_removed r" "rn_scheduler r' = rn_scheduler r" "rn_cancelled r' = rn_cancelled r" "rn_stopping r' = rn_stopping r"
    and "rn_hup r' = HupReturned \<Longrightarrow> rn_hup r = HupReturned"
  shows "run_inv H cfg i J r'"
  using assms by (auto simp: run_inv_def node_guar_def)

lemma proc_step_inv:
  assumes laws: "sched_laws (he_sched H)" and J: "start_jobs J" and step: "proc_step H r r'" and inv: "run_inv H cfg i J r"
  shows "run_inv H cfg i J r' \<and> node_guar i (pr_conn (rn_proc r)) (pr_conn (rn_proc r'))"
proof -
  have pi: "proc_inv H cfg i J (rn_proc r)" using inv by (simp add: run_inv_def)
  have same: "node_guar i c c" for c by (simp add: node_guar_same)
  note hup = hup_refresh_inv[OF laws J pi]
  from step show ?thesis
  proof cases
    case (hup_refreshed A)
    show ?thesis
    proof (cases "\<exists>x xs. rn_hup r = HupRefreshing (x # xs)")
      case True
      then obtain x xs p where "hup_refresh H A x (rn_proc r) = Some (Inr (), p)" "r' = r\<lparr>rn_proc := p, rn_hup := (if xs = [] then HupWaiting else HupRefreshing xs)\<rparr>"
        using hup_refreshed by (auto simp: continue_hup_def)
      then show ?thesis using hup[of A x "Inr ()" p i] run_inv_proc[OF inv, of p r'] by (auto split: if_splits)
    next
      case False
      then show ?thesis using hup_refreshed inv same by (auto simp: continue_hup_def split: hup_pc.splits list.splits)
    qed
  next
    case heartbeat
    then show ?thesis using heartbeat_inv[OF pi] run_inv_proc[OF inv, of "rn_proc r'" r'] by auto
  next
    case (refresh_http A p')
    then show ?thesis using hup[of A HttpPart "Inr ()" p' i] run_inv_proc[OF inv, of p' r'] by auto
  next
    case (refresh_scan p')
    then show ?thesis using hup[of undefined ScanPart "Inr ()" p' i] run_inv_proc[OF inv, of p' r'] by auto
  next
    case (collector t x y)
    then show ?thesis using collector_step_inv[OF laws J pi collector(3) disjI1[OF collector(4)]] run_inv_proc[OF inv, of "coll_put y (rn_proc r)" r'] by auto
  next
    case (lease x y)
    then show ?thesis using collector_step_inv[OF laws J pi lease(2) disjI2[OF lease(3)]] run_inv_proc[OF inv, of "coll_put y (rn_proc r)" r'] by auto
  next
    case (scan_opens s tailFile j)
    then show ?thesis using proc_inv_frame[OF pi, of "rn_proc r'"] run_inv_proc[OF inv, of "rn_proc r'" r'] by (auto simp: same)
  next
    case (scan_reads s j U fname lines w t)
    then show ?thesis using proc_inv_frame[OF pi, of "rn_proc r'"] run_inv_proc[OF inv, of "rn_proc r'" r'] by (auto simp: same)
  next
    case (scan_halts j)
    then show ?thesis using proc_inv_frame[OF pi, of "rn_proc r'"] run_inv_proc[OF inv, of "rn_proc r'" r'] by (auto simp: same halt_scanner_def)
  next
    case node_removed
    have "pr_nodeID (rn_proc r) = Some i" using pi by (simp add: proc_inv_def)
    then show ?thesis using node_removed deregister_inv[OF pi] DeleteNode_guar[of i "pr_conn (rn_proc r)"] inv same
      by (auto simp: remove_node_def run_inv_def)
  qed (use inv same in \<open>auto simp: run_inv_def signal_hup_def receive_hup_def return_hup_def interrupt_def cancel_context_def
      stop_scheduler_def shutdown_http_def\<close>)
qed

lemma sys_step_inv:
  assumes "sched_laws (he_sched H)" "start_jobs J" "sys_step H r r'" "run_inv H cfg i J r"
  shows "run_inv H cfg i J r'"
  using assms(3)
proof cases
  case own
  then show ?thesis using proc_step_inv[OF assms(1,2) _ assms(4)] by blast
next
  case (other k c)
  moreover have "proc_inv H cfg i J (rn_proc r)" using assms(4) by (simp add: run_inv_def)
  ultimately show ?thesis using proc_inv_frame[of H cfg i J "rn_proc r" "rn_proc r'"] assms(4)
    by (auto simp: run_inv_def row_rely_def proc_inv_def)
qed

lemma sys_steps_inv:
  assumes "sched_laws (he_sched H)" "start_jobs J" "(sys_step H)\<^sup>*\<^sup>* r r'" "run_inv H cfg i J r"
  shows "run_inv H cfg i J r'"
  using assms(3,4) by (induction rule: rtranclp_induct) (auto intro: sys_step_inv[OF assms(1,2)])

section \<open>The start\<close>

lemma then_do_Inr_iff: "then_do f g s = Some (Inr (), s'') \<longleftrightarrow> (\<exists>s'. f s = Some (Inr (), s') \<and> g s' = Some (Inr (), s''))"
  by (auto simp: then_do_def split: option.splits prod.splits sum.splits)

lemma connect_pools:
  assumes "connect_admin H cfg p = Some (Inr (), p1)" "connect_ro H cfg p1 = Some (Inr (), p2)" "ds_wf (pr_db p)"
  shows "pools_inv H cfg p2" "pr_sched p2 = pr_sched p"
proof -
  obtain ad d1 where a: "db_new (he_driver H) (cfg_URL cfg) False False (pr_db p) = Some (Inr ad, d1)" "p1 = p\<lparr>pr_db := d1, pr_admin := Some ad\<rparr>"
    using assms(1) by (auto simp: connect_admin_def db_New_def split: option.splits prod.splits sum.splits)
  note A = db_new_opens[OF a(1) assms(3)]
  obtain ro d2 where r: "db_new (he_driver H) (cfg_URL cfg) True (cfg_AllowUnsafeInternals cfg) d1 = Some (Inr ro, d2)" "p2 = p1\<lparr>pr_db := d2, pr_ro := Some ro\<rparr>"
    using assms(2) a(2) by (auto simp: connect_ro_def ReadOnly_def split: option.splits prod.splits sum.splits)
  note R = db_new_opens[OF r(1) A(1)]
  show "pools_inv H cfg p2" using R(1-3) R(4)[OF A(2)] A(3) by (simp add: pools_inv_def r(2) a(2))
  show "pr_sched p2 = pr_sched p" by (simp add: r(2) a(2))
qed

text \<open>A job of another part does not concern the table of the collector server.\<close>

lemma jobs_inv_foreign:
  assumes inv: "jobs_inv D s" and q: "s_scheduler s = Some q" and t: "\<And>i. t \<noteq> CollectTask i"
    and q': "j \<notin> sch_used (d_sched D) q" "sch_used (d_sched D) q' = insert j (sch_used (d_sched D) q)" "sch_live (d_sched D) q' = (sch_live (d_sched D) q)(j \<mapsto> t)"
  shows "jobs_inv D (s\<lparr>s_world := w, s_scheduler := Some q'\<rparr>)" (is "jobs_inv D ?s")
proof -
  have e: "entry ?s = entry s" and l: "live D ?s = (live D s)(j \<mapsto> t)" and u: "used D ?s = insert j (used D s)"
    using q q'(2,3) by (simp_all add: fun_eq_iff entry_def live_def used_def)
  have j: "j \<notin> used D s" using q q'(1) by (simp add: used_def)
  note I = jobs_invD[OF inv]
  show ?thesis unfolding jobs_inv_def e l u
  proof (intro conjI allI impI)
    fix n sj assume n: "entry s n = Some sj"
    show "sj_collector sj < length (s_collectors ?s)" using I(3)[OF n] by simp
    show "sj_job sj \<in> insert j (used D s)" using I(4)[OF n] by simp
    show "((live D s)(j \<mapsto> t)) (sj_job sj) \<in> {None, Some (CollectTask (sj_collector sj))}" using I(4,5)[OF n] j by auto
  next
    fix n m sj sj' assume "entry s n = Some sj" "entry s m = Some sj'" "n \<noteq> m"
    then show "sj_job sj \<noteq> sj_job sj'" by (rule I(6))
  next
    fix k i assume "((live D s)(j \<mapsto> t)) k = Some (CollectTask i)"
    then show "\<exists>n. entry s n = Some \<lparr>sj_collector = i, sj_job = k\<rparr>" using I(7) t by (auto split: if_splits)
  qed (use I(2) in simp_all)
qed

text \<open>What a part of the start does to the scheduler.\<close>

definition adds_job :: "'q sched_api \<Rightarrow> task \<Rightarrow> 'q \<Rightarrow> 'q \<Rightarrow> bool" where
  "adds_job S t q q' = (\<exists>j. scheduled S q t j q')"

lemma sch_Do_adds: "sched_laws S \<Longrightarrow> sch_Do S i t q = (Inr j, q') \<Longrightarrow> adds_job S t q q'"
  using sch_Do_Inr[of S i t q j q'] by (auto simp: adds_job_def scheduled_def)

lemma adds_job_start:
  assumes "sched_laws S" "adds_job S t q q'" "J \<subseteq>\<^sub>m sch_live S q" "start_jobs J" "\<And>i. t \<noteq> CollectTask i"
  shows "\<exists>j. start_jobs (J(j \<mapsto> t)) \<and> J(j \<mapsto> t) \<subseteq>\<^sub>m sch_live S q' \<and> ran (J(j \<mapsto> t)) = insert t (ran J)"
proof -
  obtain j where j: "scheduled S q t j q'" using assms(2) by (auto simp: adds_job_def)
  then have n: "J j = None" using assms(1,3) sch_live_used[OF assms(1)] by (metis domI domIff map_le_def scheduled_def not_None_eq)
  have "J(j \<mapsto> t) \<subseteq>\<^sub>m sch_live S q'" using assms(3) j by (auto simp: scheduled_def map_le_def)
  then show ?thesis using assms(4,5) n by (intro exI[of _ j]) (auto simp: start_jobs_def ran_map_upd)
qed

definition no_collectors :: "'q sched_api \<Rightarrow> 'q \<Rightarrow> bool" where
  "no_collectors S q = (\<forall>j i. sch_live S q j \<noteq> Some (CollectTask i))"

lemma no_collectors_adds: "no_collectors S q \<Longrightarrow> adds_job S t q q' \<Longrightarrow> (\<And>i. t \<noteq> CollectTask i) \<Longrightarrow> no_collectors S q'"
  by (auto simp: no_collectors_def adds_job_def scheduled_def split: if_splits)

lemma schedule_heartbeat_adds:
  assumes "sched_laws (he_sched H)" "schedule_heartbeat H p = Some (Inr (), p')"
  shows "\<exists>q. p' = p\<lparr>pr_sched := q\<rparr> \<and> adds_job (he_sched H) HeartbeatTask (pr_sched p) q"
  using assms(2) sch_Do_adds[OF assms(1)] by (fastforce simp: schedule_heartbeat_def split: prod.splits sum.splits)

lemma start_http_adds:
  assumes "sched_laws (he_sched H)" "start_http H cfg p = Some (Inr (), p')"
  shows "adds_job (he_sched H) (RefreshTask ''http_server'') (pr_sched p) (pr_sched p') \<and> pr_nodeID p' = pr_nodeID p
    \<and> pr_admin p' = pr_admin p \<and> pr_ro p' = pr_ro p \<and> pr_db p' = pr_db p"
  using assms(2) sch_Do_adds[OF assms(1)]
  by (fastforce simp: start_http_def http_Start_def split: prod.splits sum.splits)

lemma start_collector_adds:
  assumes laws: "sched_laws (he_sched H)" and q: "no_collectors (he_sched H) (pr_sched p)" and st: "start_collector H cfg p = Some (Inr (), p')"
  shows "adds_job (he_sched H) (RefreshTask ''metric_collector'') (pr_sched p) (pr_sched p') \<and> coll_inv H p' \<and> pr_nodeID p' = pr_nodeID p
    \<and> pr_admin p' = pr_admin p \<and> pr_ro p' = pr_ro p \<and> pr_db p' = pr_db p"
proof -
  obtain s s' c ph where s: "coll_New (he_register H) cfg (Some (pr_sched p)) (pr_world p) = Inr s"
      "start (coll_deps H) (he_lease H) (s, pr_conn p, NotStarted) = (Inr (), (s', c, ph))" "p' = coll_put (s', c, ph) p"
    using st by (auto simp: start_collector_def coll_put_def split: sum.splits prod.splits)
  have ni: "node_inv (coll_deps H) (s', c, ph)"
    by (rule start_inv[OF coll_reads(2)[OF laws] s(1) _ s(2)]) (use q in \<open>simp add: no_collectors_def coll_deps_def\<close>)
  have "s_scheduler s = Some (pr_sched p)" using s(1) by (auto simp: coll_New_def Let_def split: prod.splits sum.splits)
  then obtain q' where q': "s_scheduler s' = Some q'" "adds_job (he_sched H) (RefreshTask ''metric_collector'') (pr_sched p) q'"
    using s(2) sch_Do_adds[OF laws] by (fastforce simp: start_def coll_deps_def split: option.splits prod.splits sum.splits)
  have "coll_view p' (s', ph) = (s', c, ph)" using q'(1) by (simp add: s(3) coll_view_def coll_put_def)
  then have "coll_inv H p'" using ni by (simp add: coll_inv_def s(3) coll_put_def)
  then show ?thesis using q' by (simp add: s(3) coll_put_def)
qed

lemma start_scanners_adds:
  assumes laws: "sched_laws (he_sched H)" and inv: "coll_inv H p" and st: "start_scanners H cfg p = Some (Inr (), p')"
  shows "adds_job (he_sched H) (RefreshTask ''scanners'') (pr_sched p) (pr_sched p') \<and> coll_inv H p' \<and> pr_nodeID p' = pr_nodeID p
    \<and> pr_admin p' = pr_admin p \<and> pr_ro p' = pr_ro p \<and> pr_db p' = pr_db p"
proof -
  obtain s j q' where d: "sch_Do (he_sched H) (Duration (cfg_Refresh (ss_config s))) (RefreshTask ''scanners'') (pr_sched p) = (Inr j, q')"
      "p' = p\<lparr>pr_scan := Some s, pr_world := ss_world s, pr_sched := q'\<rparr>"
    using st by (auto simp: start_scanners_def scan_Start_def split: prod.splits sum.splits)
  obtain sc ph where c: "pr_coll p = Some (sc, ph)" "node_inv (coll_deps H) (coll_view p (sc, ph))" using inv unfolding coll_inv_def by auto
  let ?s = "sc\<lparr>s_world := pr_world p, s_scheduler := Some (pr_sched p)\<rparr>"
  have "jobs_inv (coll_deps H) (?s\<lparr>s_world := ss_world s, s_scheduler := Some q'\<rparr>)"
    by (rule jobs_inv_foreign[where q = "pr_sched p" and t = "RefreshTask ''scanners''" and j = j])
       (use c(2) sch_Do_Inr[OF laws d(1)] in \<open>simp_all add: node_inv_def coll_view_def coll_deps_def\<close>)
  then have "node_inv (coll_deps H) (coll_view p' (sc, ph))" using c(2) by (simp add: node_inv_def coll_view_def d(2))
  then show ?thesis using sch_Do_adds[OF laws d(1)] c(1) d(2) by (auto simp: coll_inv_def)
qed

text \<open>The tasks a start leaves in the scheduler.\<close>

definition start_tasks :: "task set" where
  "start_tasks = {HeartbeatTask, RefreshTask ''http_server'', RefreshTask ''metric_collector'', RefreshTask ''scanners''}"

lemma RunE_inv:
  assumes laws: "sched_laws (he_sched H)" and wf: "ds_wf (pr_db p)" and nc: "no_collectors (he_sched H) (pr_sched p)"
    and run: "RunE H cfg p = Some (Inr (), p')"
  shows "\<exists>i J. start_jobs J \<and> ran J = start_tasks \<and> run_inv H cfg i J (started p')"
proof -
  obtain p1 p2 p3 p4 p5 p6 p7 where st: "connect_admin H cfg p = Some (Inr (), p1)" "connect_ro H cfg p1 = Some (Inr (), p2)"
      "register_own H p2 = Some (Inr (), p3)" "register_node H p3 = Some (Inr (), p4)" "schedule_heartbeat H p4 = Some (Inr (), p5)"
      "start_http H cfg p5 = Some (Inr (), p6)" "start_collector H cfg p6 = Some (Inr (), p7)" "start_scanners H cfg p7 = Some (Inr (), p')"
    using run by (auto simp: RunE_def then_do_Inr_iff check_flags_def split: if_splits)
  have p3: "pools_inv H cfg p3" "pr_sched p3 = pr_sched p"
    using connect_pools[OF st(1,2) wf] st(3) by (auto simp: register_own_def pools_inv_def split: prod.splits)
  obtain c i where p4: "p4 = p3\<lparr>pr_conn := c, pr_nodeID := Some i\<rparr>"
    using st(4) by (auto simp: register_node_def Let_def split: prod.splits sum.splits fault.splits)
  obtain q5 where p5: "p5 = p4\<lparr>pr_sched := q5\<rparr>" "adds_job (he_sched H) HeartbeatTask (pr_sched p) q5"
    using schedule_heartbeat_adds[OF laws st(5)] p4 p3(2) by auto
  have i5: "pools_inv H cfg p5" "pr_nodeID p5 = Some i" "no_collectors (he_sched H) (pr_sched p5)"
    using p3(1) p4 p5 no_collectors_adds[OF nc p5(2)] by (simp_all add: pools_inv_def)
  note h = start_http_adds[OF laws st(6)]
  have i6: "no_collectors (he_sched H) (pr_sched p6)" using no_collectors_adds[OF i5(3)] h by blast
  note co = start_collector_adds[OF laws i6 st(7)]
  note sc = start_scanners_adds[OF laws conjunct1[OF conjunct2[OF co]] st(8)]
  have e: "Map.empty \<subseteq>\<^sub>m sch_live (he_sched H) (pr_sched p)" "start_jobs Map.empty" by (simp_all add: start_jobs_def)
  obtain J1 where J1: "start_jobs J1" "J1 \<subseteq>\<^sub>m sch_live (he_sched H) q5" "ran J1 = {HeartbeatTask}" using adds_job_start[OF laws p5(2) e] by auto
  obtain J2 where J2: "start_jobs J2" "J2 \<subseteq>\<^sub>m sch_live (he_sched H) (pr_sched p6)" "ran J2 = {HeartbeatTask, RefreshTask ''http_server''}"
    using adds_job_start[OF laws conjunct1[OF h], of J1] J1 p5(1) by auto
  obtain J3 where J3: "start_jobs J3" "J3 \<subseteq>\<^sub>m sch_live (he_sched H) (pr_sched p7)" "ran J3 = insert (RefreshTask ''metric_collector'') (ran J2)"
    using adds_job_start[OF laws conjunct1[OF co] J2(2,1)] by auto
  obtain J4 where J4: "start_jobs J4" "J4 \<subseteq>\<^sub>m sch_live (he_sched H) (pr_sched p')" "ran J4 = insert (RefreshTask ''scanners'') (ran J3)"
    using adds_job_start[OF laws conjunct1[OF sc] J3(2,1)] by auto
  have "proc_inv H cfg i J4 p'" using i5(1,2) h co sc J4(2) by (simp add: proc_inv_def pools_inv_def)
  moreover have "ran J4 = start_tasks" using J2(3) J3(3) J4(3) by (auto simp: start_tasks_def)
  ultimately show ?thesis using J4(1) by (intro exI[of _ i] exI[of _ J4]) (simp add: run_inv_def started_def)
qed

section \<open>Theorems\<close>

text \<open>
  C13: in every state a started process can reach, whatever fails, whatever the other users of the
  database do, and however refreshes, signals and the stop request interleave, both pools are open
  and different; the pool of the collectors has follower reads set and the unsafe internals as
  configured, the pool of the store has neither, and both have the configured address.
\<close>

theorem process_keeps_pools:
  assumes "sched_laws (he_sched H)" "ds_wf (pr_db p)" "no_collectors (he_sched H) (pr_sched p)" "RunE H cfg p = Some (Inr (), p')"
    and "(sys_step H)\<^sup>*\<^sup>* (started p') r"
  shows "\<exists>ad ro c. pr_admin (rn_proc r) = Some ad \<and> pr_ro (rn_proc r) = Some ro \<and> pl_pool ad \<noteq> pl_pool ro
    \<and> drv_ParseConfig (he_driver H) (cfg_URL cfg) = Inr c
    \<and> map_of (ds_open (pr_db (rn_proc r))) (pl_pool ad) = Some \<lparr>pp_config = c, pp_ro = False, pp_unsafe = False\<rparr>
    \<and> map_of (ds_open (pr_db (rn_proc r))) (pl_pool ro) = Some \<lparr>pp_config = c, pp_ro = True, pp_unsafe = cfg_AllowUnsafeInternals cfg\<rparr>"
proof -
  obtain i J where J: "start_jobs J" "run_inv H cfg i J (started p')" using RunE_inv[OF assms(1-4)] by blast
  have "pools_inv H cfg (rn_proc r)" using sys_steps_inv[OF assms(1) J(1) assms(5) J(2)] by (simp add: run_inv_def proc_inv_def)
  then show ?thesis unfolding pools_inv_def same_settings_def pool_open_def
    by auto
qed

text \<open>
  C11: in every state a started process can reach the four jobs of the start are still in the
  scheduler, which runs until the stop request: no refresh and no loss of the lease removes the
  heartbeat or the refresh of a server.  Every other job runs a collector and is the job of exactly
  one entry of the table of the collector server; the flag of the lease is set while the lease is held.
\<close>

theorem process_keeps_jobs:
  assumes "sched_laws (he_sched H)" "ds_wf (pr_db p)" "no_collectors (he_sched H) (pr_sched p)" "RunE H cfg p = Some (Inr (), p')"
    and "(sys_step H)\<^sup>*\<^sup>* (started p') r"
  shows "(\<forall>t \<in> start_tasks. t \<in> ran (sch_live (he_sched H) (pr_sched (rn_proc r))) \<and> (\<not> rn_stopping r \<longrightarrow> scheduled_task H r t))
    \<and> (\<exists>s ph. pr_coll (rn_proc r) = Some (s, ph) \<and> (ph = Holding \<longrightarrow> s_leaseHolder s) \<and> (ph = Cancelled \<longrightarrow> \<not> s_leaseHolder s)
        \<and> (\<forall>j i. sch_live (he_sched H) (pr_sched (rn_proc r)) j = Some (CollectTask i) \<longrightarrow> (\<exists>!n. \<exists>sj. entry s n = Some sj \<and> sj_job sj = j)))"
proof -
  obtain i J where J: "start_jobs J" "ran J = start_tasks" "run_inv H cfg i J (started p')" using RunE_inv[OF assms(1-4)] by blast
  have inv: "run_inv H cfg i J r" by (rule sys_steps_inv[OF assms(1) J(1) assms(5) J(3)])
  then have "J \<subseteq>\<^sub>m sch_live (he_sched H) (pr_sched (rn_proc r))" by (simp add: run_inv_def proc_inv_def)
  then have "ran J \<subseteq> ran (sch_live (he_sched H) (pr_sched (rn_proc r)))" unfolding map_le_def ran_def by (auto simp: dom_def) metis
  then have t: "\<forall>t \<in> start_tasks. t \<in> ran (sch_live (he_sched H) (pr_sched (rn_proc r))) \<and> (\<not> rn_stopping r \<longrightarrow> scheduled_task H r t)"
    using inv J(2) by (auto simp: scheduled_task_def run_inv_def)
  obtain s ph where s: "pr_coll (rn_proc r) = Some (s, ph)" "node_inv (coll_deps H) (coll_view (rn_proc r) (s, ph))"
    using inv unfolding run_inv_def proc_inv_def coll_inv_def by auto
  let ?s = "s\<lparr>s_world := pr_world (rn_proc r), s_scheduler := Some (pr_sched (rn_proc r))\<rparr>"
  have ji: "jobs_inv (coll_deps H) ?s" using s(2) by (simp add: node_inv_def coll_view_def)
  have e: "entry ?s = entry s" and l: "live (coll_deps H) ?s j = sch_live (he_sched H) (pr_sched (rn_proc r)) j" for j
    by (simp_all add: entry_def live_def coll_deps_def)
  have "\<exists>!n. \<exists>sj. entry s n = Some sj \<and> sj_job sj = j" if j: "sch_live (he_sched H) (pr_sched (rn_proc r)) j = Some (CollectTask k)" for j k
  proof -
    obtain n where n: "entry s n = Some \<lparr>sj_collector = k, sj_job = j\<rparr>" using jobs_invD(7)[OF ji, unfolded e l, OF j] by blast
    then show ?thesis using jobs_invD(6)[OF ji, unfolded e, OF n] by (intro ex1I[of _ n]) fastforce+
  qed
  moreover have "(ph = Holding \<longrightarrow> s_leaseHolder s) \<and> (ph = Cancelled \<longrightarrow> \<not> s_leaseHolder s)" using s(2) by (simp add: node_inv_def coll_view_def)
  ultimately show ?thesis using t s(1) by blast
qed


section \<open>A round of the signal routine\<close>

text \<open>Signals that arrive before the routine takes one are one signal.\<close>

lemma signal_hup_idem: "signal_hup (signal_hup r) = signal_hup r"
  by (simp add: signal_hup_def)

fun run_parts :: "('cfg, 'v, 'r, 'c, 'q, 'cert) host_env \<Rightarrow> hist_answers \<Rightarrow> hup_part list \<Rightarrow> ('cfg, 'v, 'r, 'c, 'q, 'cert, unit) pop" where
  "run_parts H A [] = (\<lambda>p. Some (Inr (), p))"
| "run_parts H A (x # xs) = then_do (hup_refresh H A x) (run_parts H A xs)"

lemma then_do_skip: "then_do f (\<lambda>s. Some (Inr (), s)) = f"
  by (auto simp: fun_eq_iff then_do_def split: option.splits sum.splits)

lemma sighup_parts: "sighup H A = run_parts H A hup_parts"
  by (simp add: sighup_def hup_parts_def then_do_skip)

lemma parts_steps:
  "run_parts H A xs (rn_proc r) = Some (Inr (), p') \<Longrightarrow> rn_hup r = HupRefreshing xs \<Longrightarrow> xs \<noteq> []
    \<Longrightarrow> (proc_step H)\<^sup>*\<^sup>* r (r\<lparr>rn_proc := p', rn_hup := HupWaiting\<rparr>)"
proof (induction xs arbitrary: r)
  case (Cons x xs)
  obtain p1 where p1: "hup_refresh H A x (rn_proc r) = Some (Inr (), p1)" "run_parts H A xs p1 = Some (Inr (), p')"
    using Cons.prems(1) by (auto simp: then_do_Inr_iff)
  let ?r = "r\<lparr>rn_proc := p1, rn_hup := (if xs = [] then HupWaiting else HupRefreshing xs)\<rparr>"
  have step: "proc_step H r ?r" by (rule proc_step.hup_refreshed[where A = A]) (simp add: continue_hup_def Cons.prems(2) p1(1))
  show ?case
  proof (cases "xs = []")
    case True
    then show ?thesis using step p1(2) by auto
  next
    case False
    have "(proc_step H)\<^sup>*\<^sup>* ?r (?r\<lparr>rn_proc := p', rn_hup := HupWaiting\<rparr>)" by (rule Cons.IH) (use p1(2) False in simp_all)
    then show ?thesis using step by (auto intro: converse_rtranclp_into_rtranclp)
  qed
qed simp

text \<open>A round that no other step interrupts is \<^verbatim>\<open>sighup\<close>.\<close>

lemma sighup_round:
  assumes "sighup H A (rn_proc r) = Some (Inr (), p')" "rn_hup r = HupWaiting"
  shows "(proc_step H)\<^sup>*\<^sup>* r (r\<lparr>rn_proc := p', rn_pending := False\<rparr>)"
proof -
  let ?r = "r\<lparr>rn_pending := False, rn_hup := HupRefreshing hup_parts\<rparr>"
  have "proc_step H r (signal_hup r)" "proc_step H (signal_hup r) ?r"
    using proc_step.hup_arrives[of H r] proc_step.hup_taken[of H "signal_hup r"] assms(2) by (simp_all add: signal_hup_def receive_hup_def)
  moreover have "(proc_step H)\<^sup>*\<^sup>* ?r (?r\<lparr>rn_proc := p', rn_hup := HupWaiting\<rparr>)"
    by (rule parts_steps[where A = A and xs = hup_parts]) (use assms(1) in \<open>simp_all add: sighup_parts, simp add: hup_parts_def\<close>)
  moreover have "?r\<lparr>rn_proc := p', rn_hup := HupWaiting\<rparr> = r\<lparr>rn_proc := p', rn_pending := False\<rparr>" using assms(2) by simp
  ultimately show ?thesis by (metis converse_rtranclp_into_rtranclp)
qed

section \<open>The end\<close>

text \<open>Each of the routines ends with one step of its own.\<close>

definition shut_down :: "('cfg, 'v, 'r, 'c, 'q, 'cert) running \<Rightarrow> ('cfg, 'v, 'r, 'c, 'q, 'cert) running" where
  "shut_down r = shutdown_http (remove_node (stop_scheduler (return_hup r)))"

lemma shut_down_steps: "(proc_step H)\<^sup>*\<^sup>* r (shut_down r)"
  unfolding shut_down_def
  by (meson converse_rtranclp_into_rtranclp rtranclp.rtrancl_refl proc_step.hup_returns proc_step.scheduler_stops proc_step.node_removed proc_step.http_stops)


section \<open>Witnesses\<close>

lemma RunE_succeeds:
  assumes "flags_ok cfg" "db_up (he_driver H) (cfg_URL cfg)" "sql_nodes_ok (pr_conn p)" "sched_laws (he_sched H)" "0 < cfg_Refresh cfg"
    and "http_New (he_host H) cfg = Inr hs" "he_lease H = None" "\<And>x r. \<exists>r'. he_register H x r = Inr r'"
  shows "\<exists>p'. RunE H cfg p = Some (Inr (), p')"
proof -
  have 0: "check_flags cfg p = Some (Inr (), p)" using assms(1) by (auto simp: check_flags_def flags_ok_def)
  obtain p1 where 1: "connect_admin H cfg p = Some (Inr (), p1)" "pr_conn p1 = pr_conn p" using connect_up(1)[OF assms(2), of p] by auto
  obtain p2 where 2: "connect_ro H cfg p1 = Some (Inr (), p2)" "pr_conn p2 = pr_conn p" using connect_up(2)[OF assms(2), of p1] 1(2) by auto
  obtain p3 where 3: "register_own H p2 = Some (Inr (), p3)" "pr_conn p3 = pr_conn p" using register_own_ok[of H p2, OF assms(8)] 2(2) by auto
  have "sql_nodes_ok (pr_conn p3)" using assms(3) 3(2) by simp
  then obtain p4 where 4: "register_node H p3 = Some (Inr (), p4)" using register_node_ok by blast
  obtain p5 where 5: "schedule_heartbeat H p4 = Some (Inr (), p5)" using schedule_heartbeat_ok[OF assms(4), of p4] by blast
  obtain p6 where 6: "start_http H cfg p5 = Some (Inr (), p6)" using start_http_ok[OF assms(4-6), of p5] by blast
  obtain p7 where 7: "start_collector H cfg p6 = Some (Inr (), p7)" using start_collector_ok[OF assms(4,5,8,7), of p6] by blast
  obtain p8 where 8: "start_scanners H cfg p7 = Some (Inr (), p8)" using start_scanners_ok[OF assms(4,5,8), of p7] by blast
  show ?thesis using 0 1 2 3 4 5 6 7 8 by (auto simp: RunE_def then_do_Inr_iff)
qed

lemma ex_RunE:
  obtains p' where "RunE ex_host_env ex_flags ex_process = Some (Inr (), p')"
proof -
  obtain hs where "http_New (he_host ex_host_env) ex_flags = Inr hs" using ex_host_env_ok(8) by blast
  from RunE_succeeds[OF ex_host_env_ok(1-5) this ex_host_env_ok(6,7)] that show ?thesis by blast
qed

lemma ex_start_ok:
  "sched_laws (he_sched ex_host_env)" "ds_wf (pr_db ex_process)" "no_collectors (he_sched ex_host_env) (pr_sched ex_process)"
  using ex_host_env_ok(4) ex_ds_ok(2) by (simp_all add: ex_process_def no_collectors_def ex_host_env_def list_sched_api_def)

lemma started_steps: "(sys_step H)\<^sup>*\<^sup>* (started p) (started p)" "(sys_step H)\<^sup>*\<^sup>* (started p) (interrupt (signal_hup (started p)))"
proof -
  have "sys_step H (started p) (signal_hup (started p))" "sys_step H (signal_hup (started p)) (interrupt (signal_hup (started p)))"
    by (rule sys_step.own, rule proc_step.hup_arrives, rule sys_step.own, rule proc_step.interrupted)
  then show "(sys_step H)\<^sup>*\<^sup>* (started p) (interrupt (signal_hup (started p)))"
    by (rule converse_rtranclp_into_rtranclp[OF _ r_into_rtranclp])
qed simp

theorem process_keeps_pools_witness:
  "\<exists>p' r ad ro. RunE ex_host_env ex_flags ex_process = Some (Inr (), p') \<and> (sys_step ex_host_env)\<^sup>*\<^sup>* (started p') r \<and> rn_pending r \<and> rn_stopping r
    \<and> pr_admin (rn_proc r) = Some ad \<and> pr_ro (rn_proc r) = Some ro \<and> pl_pool ad \<noteq> pl_pool ro"
proof -
  obtain p' where p': "RunE ex_host_env ex_flags ex_process = Some (Inr (), p')" by (rule ex_RunE)
  let ?r = "interrupt (signal_hup (started p'))"
  have r: "rn_pending ?r" "rn_stopping ?r" by (simp_all add: interrupt_def signal_hup_def started_def)
  show ?thesis using process_keeps_pools[OF ex_start_ok p' started_steps(2)] p' started_steps(2)[of ex_host_env p'] r by blast
qed

theorem process_keeps_jobs_witness:
  "\<exists>p'. RunE ex_host_env ex_flags ex_process = Some (Inr (), p') \<and> scheduled_task ex_host_env (started p') HeartbeatTask"
proof -
  obtain p' where p': "RunE ex_host_env ex_flags ex_process = Some (Inr (), p')" by (rule ex_RunE)
  have "\<not> rn_stopping (started p')" "HeartbeatTask \<in> start_tasks" by (simp_all add: started_def start_tasks_def)
  then show ?thesis using process_keeps_jobs[OF ex_start_ok p' started_steps(1)] p' by blast
qed



end
