(* ===== verification/Config_Yaml.thy ===== *)
theory Config_Yaml
  imports Store_Model Go_Json
begin

text \<open>
  The YAML form of the configuration: \<^verbatim>\<open>internal/cmd/collection/yaml.go\<close>, \<^verbatim>\<open>scan/yaml.go\<close> and
  \<^verbatim>\<open>histogram/yaml.go\<close>.  The YAML package is an argument: a pair of functions between the Go
  structures and the text.  The defaults of the struct tags are written out.
\<close>

record 'cfg yaml_api =
  yaml_Marshal :: "'cfg \<Rightarrow> go_error + string"
  yaml_Unmarshal :: "string \<Rightarrow> go_error + 'cfg"

text \<open>
  Documented: \<^verbatim>\<open>Unmarshal\<close> reads back what \<^verbatim>\<open>Marshal\<close> wrote; stated of one value.  The
  documents considered are those whose top-level value is not null.
\<close>

definition yaml_reads_back :: "'cfg yaml_api \<Rightarrow> 'cfg \<Rightarrow> bool" where
  "yaml_reads_back Y c = (case yaml_Marshal Y c of Inl e \<Rightarrow> False | Inr d \<Rightarrow> yaml_Unmarshal Y d = Inr c)"

definition one_doc_api :: "'cfg \<Rightarrow> 'cfg yaml_api" where
  "one_doc_api c = \<lparr>yaml_Marshal = (\<lambda>_. Inr ''doc''), yaml_Unmarshal = (\<lambda>_. Inr c)\<rparr>"

text \<open>
  \<^verbatim>\<open>strings.ToLower\<close> on ASCII letters.  The other letters that fold to an ASCII letter fold to
  \<open>i\<close> or \<open>k\<close>, which none of the words has that the code compares with.
\<close>

definition lower_char :: "char \<Rightarrow> char" where
  "lower_char c = (if 0x41 \<le> byte c \<and> byte c \<le> 0x5A then chr (byte c + 32) else c)"

definition ToLower :: "string \<Rightarrow> string" where
  "ToLower s = map lower_char s"

text \<open>The zero value of a \<^verbatim>\<open>time.Time\<close>: the first instant of the year 1.\<close>

definition zero_time :: time where
  "zero_time = - 62135596800 * 10 ^ 9"

definition microsecondsPerSecond :: int where
  "microsecondsPerSecond = 1000000"

section \<open>Collections\<close>

record metricDef =
  md_Name :: string
  md_Kind :: string
  md_Help :: string

record coll_config =
  cc_Name :: string
  cc_Frequency :: int
  cc_MaxResults :: int
  cc_Enabled :: bool
  cc_Databases :: string
  cc_Query :: string
  cc_Labels :: "string list"
  cc_Metrics :: "metricDef list"
  cc_Scope :: string

definition coll_to_config :: "Collection \<Rightarrow> coll_config" where
  "coll_to_config c = \<lparr>cc_Name = coll_Name c,
     cc_Frequency = quot (Microseconds (coll_Frequency c)) microsecondsPerSecond,
     cc_MaxResults = coll_MaxResult c, cc_Enabled = coll_Enabled c, cc_Databases = coll_Databases c, cc_Query = coll_Query c,
     cc_Labels = coll_Labels c,
     cc_Metrics = map (\<lambda>m. \<lparr>md_Name = metric_Name m, md_Kind = metric_Kind m, md_Help = metric_Help m\<rparr>) (coll_Metrics c),
     cc_Scope = coll_Scope c\<rparr>"

definition coll_marshal :: "coll_config yaml_api \<Rightarrow> Collection \<Rightarrow> string result" where
  "coll_marshal Y c = (case yaml_Marshal Y (coll_to_config c) of Inl e \<Rightarrow> Inl (Err e) | Inr d \<Rightarrow> Inr d)"

definition coll_defaults :: "coll_config \<Rightarrow> coll_config" where
  "coll_defaults c = (if cc_Scope c = [] then c\<lparr>cc_Scope := ''node''\<rparr> else c)"

fun read_metrics :: "metricDef list \<Rightarrow> Metric list result" where
  "read_metrics [] = Inr []"
| "read_metrics (m # ms) =
     (if ToLower (md_Kind m) = Gauge \<or> ToLower (md_Kind m) = Counter
      then bind_result (read_metrics ms) (\<lambda>l. Inr (\<lparr>metric_Name = md_Name m, metric_Kind = ToLower (md_Kind m), metric_Help = md_Help m\<rparr> # l))
      else Inl (Err ''invalid kind''))"

fun check_labels :: "string list \<Rightarrow> string list \<Rightarrow> unit result" where
  "check_labels seen [] = Inr ()"
| "check_labels seen (l # ls) = (if l \<in> set seen then Inl (Err (''duplicate label '' @ CHR 0x22 # l @ [CHR 0x22])) else check_labels (l # seen) ls)"

definition read_scope :: "string \<Rightarrow> string result" where
  "read_scope s = (if ToLower s = ''node'' then Inr Node else if ToLower s = ''cluster'' then Inr Cluster else Inl (Err ''invalid scope''))"

definition coll_unmarshal :: "coll_config yaml_api \<Rightarrow> string \<Rightarrow> Collection result" where
  "coll_unmarshal Y data = (case yaml_Unmarshal Y data of Inl e \<Rightarrow> Inl (Err e)
     | Inr c0 \<Rightarrow> (let c = coll_defaults c0 in
         bind_result (read_metrics (cc_Metrics c)) (\<lambda>metrics.
         bind_result (check_labels [] (cc_Labels c)) (\<lambda>_.
         bind_result (read_scope (cc_Scope c)) (\<lambda>scope.
           if cc_Query c = [] then Inl (Err ''query must be specified'')
           else if cc_Name c = [] then Inl (Err ''name must be specified'')
           else Inr \<lparr>coll_Databases = cc_Databases c, coll_Enabled = cc_Enabled c,
                  coll_Frequency = \<lparr>Microseconds = wrap64 (cc_Frequency c * microsecondsPerSecond), Days = 0, Months = 0\<rparr>,
                  coll_Labels = cc_Labels c, coll_LastModified = zero_time, coll_MaxResult = cc_MaxResults c,
                  coll_Metrics = metrics, coll_Name = cc_Name c, coll_Query = cc_Query c, coll_Scope = scope\<rparr>)))))"

section \<open>Scans\<close>

record patternDef =
  pd_Help :: string
  pd_Name :: string
  pd_Exclude :: string
  pd_Regex :: string

record scan_config =
  sf_Enabled :: bool
  sf_Format :: string
  sf_Name :: string
  sf_Path :: string
  sf_Patterns :: "patternDef list"

definition scan_to_config :: "Scan \<Rightarrow> scan_config" where
  "scan_to_config s = \<lparr>sf_Enabled = scan_Enabled s, sf_Format = scan_Format s, sf_Name = scan_Name s, sf_Path = scan_Path s,
       sf_Patterns = map (\<lambda>p. \<lparr>pd_Help = pat_Help p, pd_Name = pat_Name p, pd_Exclude = pat_Exclude p, pd_Regex = pat_Regex p\<rparr>) (scan_Patterns s)\<rparr>"

definition scan_marshal :: "scan_config yaml_api \<Rightarrow> Scan \<Rightarrow> string result" where
  "scan_marshal Y s = (case yaml_Marshal Y (scan_to_config s) of Inl e \<Rightarrow> Inl (Err e) | Inr d \<Rightarrow> Inr d)"

definition scan_unmarshal :: "scan_config yaml_api \<Rightarrow> string \<Rightarrow> Scan result" where
  "scan_unmarshal Y data = (case yaml_Unmarshal Y data of Inl e \<Rightarrow> Inl (Err e)
     | Inr c \<Rightarrow>
        if sf_Name c = [] then Inl (Err ''name must be specified'')
        else (case (if ToLower (sf_Format c) = CRDBv2 then Some CRDBv2 else if ToLower (sf_Format c) = CRDBv2Auth then Some CRDBv2Auth else None) of
            None \<Rightarrow> Inl (Err ''invalid format'')
          | Some format \<Rightarrow> Inr \<lparr>scan_Enabled = sf_Enabled c, scan_Format = format, scan_LastModified = zero_time, scan_Name = sf_Name c, scan_Path = sf_Path c,
               scan_Patterns = map (\<lambda>p. \<lparr>pat_Help = pd_Help p, pat_Name = pd_Name p, pat_Exclude = pd_Exclude p, pat_Regex = pd_Regex p\<rparr>) (sf_Patterns c)\<rparr>))"

section \<open>Histograms\<close>

record hist_config =
  hc_Bins :: int
  hc_Enabled :: bool
  hc_End :: int
  hc_Name :: string
  hc_Regex :: string
  hc_Start :: int

definition hist_to_config :: "Histogram \<Rightarrow> hist_config" where
  "hist_to_config h = \<lparr>hc_Bins = hist_Bins h, hc_Enabled = hist_Enabled h, hc_End = hist_End h, hc_Name = hist_Name h,
      hc_Regex = hist_Regex h, hc_Start = hist_Start h\<rparr>"

definition hist_marshal :: "hist_config yaml_api \<Rightarrow> Histogram \<Rightarrow> string result" where
  "hist_marshal Y h = (case yaml_Marshal Y (hist_to_config h) of Inl e \<Rightarrow> Inl (Err e) | Inr d \<Rightarrow> Inr d)"

definition default_to :: "int \<Rightarrow> int \<Rightarrow> int" where
  "default_to d n = (if n = 0 then d else n)"

definition hist_defaults :: "hist_config \<Rightarrow> hist_config" where
  "hist_defaults c = c\<lparr>hc_Bins := default_to 10 (hc_Bins c), hc_End := default_to 20000000000 (hc_End c), hc_Start := default_to 1000000 (hc_Start c)\<rparr>"

definition hist_unmarshal :: "hist_config yaml_api \<Rightarrow> string \<Rightarrow> Histogram result" where
  "hist_unmarshal Y data = (case yaml_Unmarshal Y data of Inl e \<Rightarrow> Inl (Err e)
     | Inr c0 \<Rightarrow> (let c = hist_defaults c0 in
         if hc_Regex c = [] then Inl (Err ''regex must be specified'')
         else if hc_Name c = [] then Inl (Err ''name must be specified'')
         else Inr \<lparr>hist_Enabled = hc_Enabled c, hist_Name = hc_Name c, hist_Bins = hc_Bins c, hist_Start = hc_Start c, hist_End = hc_End c,
                hist_Regex = hc_Regex c, hist_LastModified = zero_time\<rparr>))"

section \<open>Facts\<close>

lemma ToLower_words [simp]:
  "ToLower Gauge = Gauge" "ToLower Counter = Counter" "ToLower Node = Node" "ToLower Cluster = Cluster"
  "ToLower CRDBv2 = CRDBv2" "ToLower CRDBv2Auth = CRDBv2Auth"
  by (simp_all add: ToLower_def lower_char_def byte_def Gauge_def Counter_def Node_def Cluster_def CRDBv2_def CRDBv2Auth_def)

lemma check_labels_iff: "check_labels seen ls = Inr () \<longleftrightarrow> distinct ls \<and> set ls \<inter> set seen = {}"
  by (induction ls arbitrary: seen) auto

lemma read_metrics_known:
  "\<forall>m \<in> set ms. metric_Kind m = Gauge \<or> metric_Kind m = Counter \<Longrightarrow>
    read_metrics (map (\<lambda>m. \<lparr>md_Name = metric_Name m, md_Kind = metric_Kind m, md_Help = metric_Help m\<rparr>) ms) = Inr ms"
  by (induction ms) auto

lemma read_metrics_Inr:
  "read_metrics ds = Inr ms \<Longrightarrow> map metric_Name ms = map md_Name ds \<and> map metric_Help ms = map md_Help ds
    \<and> (\<forall>m \<in> set ms. metric_Kind m = Gauge \<or> metric_Kind m = Counter)"
  by (induction ds arbitrary: ms) (auto simp: bind_result_Inr split: if_splits)

lemma read_scope_known: "s = Node \<or> s = Cluster \<Longrightarrow> read_scope s = Inr s"
  by (auto simp: read_scope_def) (simp_all add: Node_def Cluster_def)

lemma wrap64_seconds: "- (2 ^ 63) \<le> n \<Longrightarrow> n < 2 ^ 63 \<Longrightarrow> wrap64 (quot n 1000000 * 1000000) = quot n 1000000 * 1000000"
proof -
  assume a: "- (2 ^ 63) \<le> n" "n < 2 ^ 63"
  have "\<bar>quot n 1000000 * 1000000\<bar> \<le> \<bar>n\<bar>" unfolding quot_def by (auto simp: sgn_if abs_if)
  then have "- (2 ^ 63) \<le> quot n 1000000 * 1000000" "quot n 1000000 * 1000000 < 2 ^ 63" using a unfolding quot_def by (auto simp: sgn_if abs_if split: if_splits)
  then show ?thesis by (rule wrap64_id)
qed

lemma read_scope_Inr: "read_scope s = Inr sc \<longleftrightarrow> ToLower s = sc \<and> sc \<in> {Node, Cluster}"
  by (auto simp: read_scope_def Node_def Cluster_def split: if_splits)

lemma read_metrics_ok_iff:
  "(\<exists>ms. read_metrics ds = Inr ms) \<longleftrightarrow> (\<forall>d \<in> set ds. ToLower (md_Kind d) \<in> {Gauge, Counter})"
  by (induction ds) (auto simp: bind_result_Inr)

lemma read_metrics_length: "read_metrics ds = Inr ms \<Longrightarrow> length ms = length ds"
  using read_metrics_Inr[of ds ms] map_eq_imp_length_eq by blast

lemma yaml_reads_backE:
  assumes "yaml_reads_back Y c" obtains d where "yaml_Marshal Y c = Inr d" "yaml_Unmarshal Y d = Inr c"
  using assms by (auto simp: yaml_reads_back_def split: sum.splits)

lemma one_doc_reads_back [simp]: "yaml_reads_back (one_doc_api c) c"
  by (simp add: yaml_reads_back_def one_doc_api_def)

text \<open>What the configuration of a collection must satisfy to be accepted.\<close>

definition coll_accepted :: "Collection \<Rightarrow> bool" where
  "coll_accepted c = ((\<forall>m \<in> set (coll_Metrics c). metric_Kind m \<in> {Gauge, Counter}) \<and> distinct (coll_Labels c)
     \<and> coll_Scope c \<in> {Node, Cluster} \<and> coll_Query c \<noteq> [] \<and> coll_Name c \<noteq> [])"

text \<open>A frequency in whole seconds, which is all the configuration can express.\<close>

definition in_seconds :: "Interval \<Rightarrow> Interval" where
  "in_seconds i = \<lparr>Microseconds = quot (Microseconds i) microsecondsPerSecond * microsecondsPerSecond, Days = 0, Months = 0\<rparr>"

lemma coll_unmarshal_read:
  assumes "yaml_Unmarshal Y d = Inr cfg" "coll_unmarshal Y d = Inr c"
  shows "coll_accepted c \<and> coll_LastModified c = zero_time \<and> coll_Labels c = cc_Labels cfg \<and> coll_Name c = cc_Name cfg
    \<and> map metric_Name (coll_Metrics c) = map md_Name (cc_Metrics cfg)
    \<and> coll_Frequency c = \<lparr>Microseconds = wrap64 (cc_Frequency cfg * microsecondsPerSecond), Days = 0, Months = 0\<rparr>"
proof -
  obtain ms sc where r: "read_metrics (cc_Metrics cfg) = Inr ms" "check_labels [] (cc_Labels cfg) = Inr ()"
      "read_scope (cc_Scope (coll_defaults cfg)) = Inr sc" "cc_Query cfg \<noteq> []" "cc_Name cfg \<noteq> []"
      "coll_Metrics c = ms" "coll_Scope c = sc" "coll_Query c = cc_Query cfg" "coll_Name c = cc_Name cfg"
      "coll_Labels c = cc_Labels cfg" "coll_LastModified c = zero_time"
      "coll_Frequency c = \<lparr>Microseconds = wrap64 (cc_Frequency cfg * microsecondsPerSecond), Days = 0, Months = 0\<rparr>"
    using assms(2) by (auto simp: coll_unmarshal_def assms(1) Let_def bind_result_Inr coll_defaults_def split: if_splits)
  then show ?thesis using read_metrics_Inr[OF r(1)]
    by (auto simp: coll_accepted_def check_labels_iff read_scope_Inr)
qed

lemma coll_unmarshal_defined:
  assumes "yaml_Unmarshal Y d = Inr cfg"
  shows "(\<exists>c. coll_unmarshal Y d = Inr c) \<longleftrightarrow>
    (\<forall>m \<in> set (cc_Metrics cfg). ToLower (md_Kind m) \<in> {Gauge, Counter}) \<and> distinct (cc_Labels cfg)
    \<and> (cc_Scope cfg = [] \<or> ToLower (cc_Scope cfg) \<in> {Node, Cluster}) \<and> cc_Query cfg \<noteq> [] \<and> cc_Name cfg \<noteq> []"
proof -
  have s: "(\<exists>sc. read_scope (cc_Scope (coll_defaults cfg)) = Inr sc) \<longleftrightarrow> cc_Scope cfg = [] \<or> ToLower (cc_Scope cfg) \<in> {Node, Cluster}"
    using read_scope_known[of Node] by (auto simp: coll_defaults_def read_scope_Inr Node_def)
  have "(\<exists>c. coll_unmarshal Y d = Inr c) \<longleftrightarrow> (\<exists>ms. read_metrics (cc_Metrics cfg) = Inr ms) \<and> check_labels [] (cc_Labels cfg) = Inr ()
      \<and> (\<exists>sc. read_scope (cc_Scope (coll_defaults cfg)) = Inr sc) \<and> cc_Query cfg \<noteq> [] \<and> cc_Name cfg \<noteq> []"
    by (auto simp: coll_unmarshal_def assms Let_def bind_result_Inr coll_defaults_def)
  then show ?thesis by (simp add: read_metrics_ok_iff s check_labels_iff)
qed

text \<open>
  C38: \<^verbatim>\<open>unmarshal\<close> accepts a document exactly when its kinds and its scope are known words (in
  any case; an absent scope is \<open>node\<close>), its labels are distinct, and it has a name and a query;
  what it returns then has the canonical words, the frequency in microseconds, computed in 64
  bits, and the zero time as its time of modification.
\<close>

theorem coll_unmarshal_valid:
  assumes "yaml_Unmarshal Y d = Inr cfg"
  shows "((\<exists>c. coll_unmarshal Y d = Inr c) \<longleftrightarrow>
      (\<forall>m \<in> set (cc_Metrics cfg). ToLower (md_Kind m) \<in> {Gauge, Counter}) \<and> distinct (cc_Labels cfg)
      \<and> (cc_Scope cfg = [] \<or> ToLower (cc_Scope cfg) \<in> {Node, Cluster}) \<and> cc_Query cfg \<noteq> [] \<and> cc_Name cfg \<noteq> [])
    \<and> (\<forall>c. coll_unmarshal Y d = Inr c \<longrightarrow> coll_accepted c \<and> coll_LastModified c = zero_time
        \<and> map metric_Name (coll_Metrics c) = map md_Name (cc_Metrics cfg)
        \<and> Microseconds (coll_Frequency c) = wrap64 (cc_Frequency cfg * microsecondsPerSecond))"
  using coll_unmarshal_defined[OF assms] coll_unmarshal_read[OF assms] by (metis Interval.select_convs(1))

definition ex_cfg :: coll_config where
  "ex_cfg = \<lparr>cc_Name = ''c'', cc_Frequency = 10, cc_MaxResults = 5, cc_Enabled = True, cc_Databases = [], cc_Query = ''q'',
     cc_Labels = [''a''], cc_Metrics = [\<lparr>md_Name = ''m'', md_Kind = ''Gauge'', md_Help = ''h''\<rparr>], cc_Scope = []\<rparr>"

theorem coll_unmarshal_valid_witness:
  "\<exists>c. coll_unmarshal (one_doc_api ex_cfg) ''doc'' = Inr c \<and> coll_accepted c"
proof -
  have r: "yaml_Unmarshal (one_doc_api ex_cfg) ''doc'' = Inr ex_cfg" by (simp add: one_doc_api_def)
  have "ToLower ''Gauge'' = Gauge" by code_simp
  then show ?thesis using coll_unmarshal_valid[OF r] by (auto simp: ex_cfg_def)
qed

lemma coll_roundtrip:
  assumes "yaml_reads_back Y (coll_to_config c)" "coll_accepted c"
    and "- (2 ^ 63) \<le> Microseconds (coll_Frequency c)" "Microseconds (coll_Frequency c) < 2 ^ 63"
  shows "bind_result (coll_marshal Y c) (coll_unmarshal Y)
    = Inr (c\<lparr>coll_LastModified := zero_time, coll_Frequency := in_seconds (coll_Frequency c)\<rparr>)"
proof -
  obtain d where d: "yaml_Marshal Y (coll_to_config c) = Inr d" "yaml_Unmarshal Y d = Inr (coll_to_config c)"
    by (rule yaml_reads_backE[OF assms(1)])
  have sc: "coll_Scope c = Node \<or> coll_Scope c = Cluster" and ne: "coll_Scope c \<noteq> []"
    using assms(2) by (auto simp: coll_accepted_def Node_def Cluster_def)
  have "read_metrics (cc_Metrics (coll_to_config c)) = Inr (coll_Metrics c)"
    unfolding coll_to_config_def using assms(2) by (auto simp: coll_accepted_def intro!: read_metrics_known)
  moreover have "check_labels [] (coll_Labels c) = Inr ()" using assms(2) by (simp add: check_labels_iff coll_accepted_def)
  ultimately have "coll_unmarshal Y d = Inr (c\<lparr>coll_LastModified := zero_time, coll_Frequency := in_seconds (coll_Frequency c)\<rparr>)"
    using assms(2) wrap64_seconds[OF assms(3,4)]
    by (simp add: coll_unmarshal_def d(2) Let_def coll_defaults_def coll_to_config_def ne
        read_scope_known[OF sc] coll_accepted_def in_seconds_def microsecondsPerSecond_def)
  then show ?thesis by (simp add: coll_marshal_def d(1))
qed

text \<open>
  C39: a collection the commands accept, written as YAML and read again, is the same collection
  except for the time of modification, which the document has not, and for the frequency, which
  is cut to whole seconds.
\<close>

theorem coll_yaml_roundtrip:
  assumes "yaml_reads_back Y (coll_to_config c)" "coll_accepted c"
    and "- (2 ^ 63) \<le> Microseconds (coll_Frequency c)" "Microseconds (coll_Frequency c) < 2 ^ 63"
  shows "bind_result (coll_marshal Y c) (coll_unmarshal Y)
    = Inr (c\<lparr>coll_LastModified := zero_time, coll_Frequency := in_seconds (coll_Frequency c)\<rparr>)"
  by (rule coll_roundtrip[OF assms])

definition ex_ycoll :: Collection where
  "ex_ycoll = \<lparr>coll_Databases = [], coll_Enabled = True, coll_Frequency = \<lparr>Microseconds = 10500000, Days = 0, Months = 0\<rparr>,
     coll_Labels = [''db''], coll_LastModified = 7, coll_MaxResult = 10,
     coll_Metrics = [\<lparr>metric_Name = ''qps'', metric_Kind = Gauge, metric_Help = ''h''\<rparr>],
     coll_Name = ''c1'', coll_Query = ''q'', coll_Scope = Cluster\<rparr>"

theorem coll_yaml_roundtrip_witness:
  "\<exists>c. bind_result (coll_marshal (one_doc_api (coll_to_config ex_ycoll)) ex_ycoll) (coll_unmarshal (one_doc_api (coll_to_config ex_ycoll))) = Inr c
    \<and> Microseconds (coll_Frequency c) = 10000000 \<and> coll_Metrics c = coll_Metrics ex_ycoll"
proof -
  have "coll_accepted ex_ycoll" by (simp add: coll_accepted_def ex_ycoll_def Cluster_def)
  then show ?thesis using coll_yaml_roundtrip[OF one_doc_reads_back, of ex_ycoll]
    by (simp add: ex_ycoll_def in_seconds_def quot_def microsecondsPerSecond_def)
qed

section \<open>Round trips of scans and histograms\<close>

definition hist_filled :: "Histogram \<Rightarrow> Histogram" where
  "hist_filled h = h\<lparr>hist_Bins := default_to 10 (hist_Bins h), hist_End := default_to 20000000000 (hist_End h),
     hist_Start := default_to 1000000 (hist_Start h), hist_LastModified := zero_time\<rparr>"

lemma pattern_reread:
  "map ((\<lambda>p. \<lparr>pat_Help = pd_Help p, pat_Name = pd_Name p, pat_Exclude = pd_Exclude p, pat_Regex = pd_Regex p\<rparr>)
     \<circ> (\<lambda>p. \<lparr>pd_Help = pat_Help p, pd_Name = pat_Name p, pd_Exclude = pat_Exclude p, pd_Regex = pat_Regex p\<rparr>)) ps = ps"
  by (induction ps) auto

lemma scan_roundtrip:
  assumes "yaml_reads_back Y (scan_to_config s)" "scan_Name s \<noteq> []" "scan_Format s \<in> {CRDBv2, CRDBv2Auth}"
  shows "bind_result (scan_marshal Y s) (scan_unmarshal Y) = Inr (s\<lparr>scan_LastModified := zero_time\<rparr>)"
proof -
  obtain d where d: "yaml_Marshal Y (scan_to_config s) = Inr d" "yaml_Unmarshal Y d = Inr (scan_to_config s)"
    by (rule yaml_reads_backE[OF assms(1)])
  have "scan_unmarshal Y d = Inr (s\<lparr>scan_LastModified := zero_time\<rparr>)"
    using assms(2,3) by (auto simp: scan_unmarshal_def d(2) scan_to_config_def pattern_reread)
  then show ?thesis by (simp add: scan_marshal_def d(1))
qed

lemma hist_roundtrip:
  assumes "yaml_reads_back Y (hist_to_config h)" "hist_Name h \<noteq> []" "hist_Regex h \<noteq> []"
  shows "bind_result (hist_marshal Y h) (hist_unmarshal Y) = Inr (hist_filled h)"
proof -
  obtain d where d: "yaml_Marshal Y (hist_to_config h) = Inr d" "yaml_Unmarshal Y d = Inr (hist_to_config h)"
    by (rule yaml_reads_backE[OF assms(1)])
  have "hist_unmarshal Y d = Inr (hist_filled h)"
    using assms(2,3) by (simp add: hist_unmarshal_def d(2) hist_to_config_def Let_def hist_defaults_def hist_filled_def)
  then show ?thesis by (simp add: hist_marshal_def d(1))
qed

text \<open>
  C40: a scan with a name and a known format, written and read again, is the same scan but for its
  time of modification; so is a histogram, except that a zero number of bins, start or end
  becomes the default: a document cannot say zero, and in particular the zero start a histogram
  may have in the database is not kept.
\<close>

theorem scan_hist_yaml_roundtrip:
  assumes "yaml_reads_back Y (scan_to_config s)" "scan_Name s \<noteq> []" "scan_Format s \<in> {CRDBv2, CRDBv2Auth}"
    and "yaml_reads_back Z (hist_to_config h)" "hist_Name h \<noteq> []" "hist_Regex h \<noteq> []"
  shows "bind_result (scan_marshal Y s) (scan_unmarshal Y) = Inr (s\<lparr>scan_LastModified := zero_time\<rparr>)
    \<and> bind_result (hist_marshal Z h) (hist_unmarshal Z) = Inr (hist_filled h)
    \<and> (hist_Bins h \<noteq> 0 \<and> hist_Start h \<noteq> 0 \<and> hist_End h \<noteq> 0 \<longrightarrow> hist_filled h = h\<lparr>hist_LastModified := zero_time\<rparr>)
    \<and> hist_Start (hist_filled h) \<noteq> 0"
  using scan_roundtrip[OF assms(1-3)] hist_roundtrip[OF assms(4-6)] by (simp add: hist_filled_def default_to_def)

definition ex_yscan :: Scan where
  "ex_yscan = \<lparr>scan_Enabled = True, scan_Format = CRDBv2, scan_LastModified = 3, scan_Name = ''s'', scan_Path = ''/p'',
     scan_Patterns = [\<lparr>pat_Help = ''h'', pat_Name = ''n'', pat_Exclude = [], pat_Regex = ''r''\<rparr>]\<rparr>"

definition ex_yhist :: Histogram where
  "ex_yhist = \<lparr>hist_Enabled = True, hist_Name = ''h'', hist_Bins = 10, hist_Start = 0, hist_End = 500, hist_Regex = ''r'', hist_LastModified = 3\<rparr>"

theorem scan_hist_yaml_roundtrip_witness:
  "bind_result (scan_marshal (one_doc_api (scan_to_config ex_yscan)) ex_yscan) (scan_unmarshal (one_doc_api (scan_to_config ex_yscan)))
     = Inr (ex_yscan\<lparr>scan_LastModified := zero_time\<rparr>)
   \<and> bind_result (hist_marshal (one_doc_api (hist_to_config ex_yhist)) ex_yhist) (hist_unmarshal (one_doc_api (hist_to_config ex_yhist)))
     = Inr (ex_yhist\<lparr>hist_Start := 1000000, hist_LastModified := zero_time\<rparr>)"
proof -
  have "scan_Name ex_yscan \<noteq> []" "scan_Format ex_yscan \<in> {CRDBv2, CRDBv2Auth}" "hist_Name ex_yhist \<noteq> []" "hist_Regex ex_yhist \<noteq> []"
    by (simp_all add: ex_yscan_def ex_yhist_def)
  from scan_hist_yaml_roundtrip[OF one_doc_reads_back this(1,2) one_doc_reads_back this(3,4)]
  show ?thesis by (simp add: ex_yhist_def hist_filled_def default_to_def)
qed

end
