(* ===== verification/Admin_Cmd.thy ===== *)
theory Admin_Cmd
  imports Config_Yaml Store_Memory Store_Sql Database
begin

text \<open>
  The administration commands: \<^verbatim>\<open>internal/cmd/env\<close>, and \<^verbatim>\<open>delete\<close>, \<^verbatim>\<open>get\<close>, \<^verbatim>\<open>list\<close> and \<^verbatim>\<open>put\<close> of
  \<^verbatim>\<open>internal/cmd/collection\<close>, \<^verbatim>\<open>scan\<close> and \<^verbatim>\<open>histogram\<close>, and \<^verbatim>\<open>init\<close>.  The three groups of commands are
  one text with different words and different calls of the store, so each command is written once,
  over a record with these words and calls, and has one instance for each group.  The parsing of
  the command line is left to its library: a command starts with its arguments.  A command that
  never returns, because the database cannot be reached, is \<open>None\<close>.
\<close>

section \<open>The interface of the store\<close>

text \<open>
  The world of a command: the in-memory store of a test environment, the database, the pools of
  the driver, and what has been printed.
\<close>

record 'cfg cli =
  cli_mem :: Memory
  cli_conn :: conn
  cli_db :: "'cfg db_state"
  cli_out :: string

type_synonym ('cfg, 'a) cop = "('cfg cli, 'a) op"
type_synonym ('cfg, 'a) cmd = "'cfg cli \<Rightarrow> ('a result \<times> 'cfg cli) option"

text \<open>The methods of \<^verbatim>\<open>store.Store\<close> the commands call.\<close>

record 'cfg Store =
  st_Init :: "('cfg, unit) cop"
  st_DeleteCollection :: "string \<Rightarrow> ('cfg, unit) cop"
  st_GetCollection :: "string \<Rightarrow> ('cfg, Collection option) cop"
  st_GetCollectionNames :: "('cfg, string list) cop"
  st_PutCollection :: "Collection \<Rightarrow> ('cfg, unit) cop"
  st_DeleteHistogram :: "string \<Rightarrow> ('cfg, unit) cop"
  st_GetHistogram :: "string \<Rightarrow> ('cfg, Histogram option) cop"
  st_GetHistogramNames :: "('cfg, string list) cop"
  st_PutHistogram :: "Histogram \<Rightarrow> ('cfg, unit) cop"
  st_DeleteScan :: "string \<Rightarrow> ('cfg, unit) cop"
  st_GetScan :: "string \<Rightarrow> ('cfg, Scan option) cop"
  st_GetScanNames :: "('cfg, string list) cop"
  st_PutScan :: "Scan \<Rightarrow> ('cfg, unit) cop"
  st_GetNodes :: "('cfg, NodeInfo list) cop"

definition on_conn :: "(conn, 'a) op \<Rightarrow> ('cfg, 'a) cop" where
  "on_conn f w = (case f (cli_conn w) of (r, c) \<Rightarrow> (r, w\<lparr>cli_conn := c\<rparr>))"

definition mem_upd :: "(Memory \<Rightarrow> Memory result) \<Rightarrow> ('cfg, unit) cop" where
  "mem_upd f w = (case f (cli_mem w) of Inl e \<Rightarrow> (Inl e, w) | Inr m \<Rightarrow> (Inr (), w\<lparr>cli_mem := m\<rparr>))"

definition mem_qry :: "(Memory \<Rightarrow> 'a result) \<Rightarrow> ('cfg, 'a) cop" where
  "mem_qry f w = (f (cli_mem w), w)"

text \<open>\<^verbatim>\<open>Init\<close> of the SQL store calls \<^verbatim>\<open>lease.Init\<close>, which is an argument.\<close>

definition sql_store :: "(conn, unit) op \<Rightarrow> 'cfg Store" where
  "sql_store lease_Init = \<lparr>st_Init = on_conn (sql_Init lease_Init),
     st_DeleteCollection = (\<lambda>n. on_conn (sql_DeleteCollection n)), st_GetCollection = (\<lambda>n. on_conn (sql_GetCollection n)),
     st_GetCollectionNames = on_conn sql_GetCollectionNames, st_PutCollection = (\<lambda>c. on_conn (sql_PutCollection c)),
     st_DeleteHistogram = (\<lambda>n. on_conn (sql_DeleteHistogram n)), st_GetHistogram = (\<lambda>n. on_conn (sql_GetHistogram n)),
     st_GetHistogramNames = on_conn sql_GetHistogramNames, st_PutHistogram = (\<lambda>c. on_conn (sql_PutHistogram c)),
     st_DeleteScan = (\<lambda>n. on_conn (sql_DeleteScan n)), st_GetScan = (\<lambda>n. on_conn (sql_GetScan n)),
     st_GetScanNames = on_conn sql_GetScanNames, st_PutScan = (\<lambda>c. on_conn (sql_PutScan c)), st_GetNodes = on_conn sql_GetNodes\<rparr>"

definition mem_store :: "'cfg Store" where
  "mem_store = \<lparr>st_Init = mem_upd mem_Init,
     st_DeleteCollection = (\<lambda>n. mem_upd (mem_DeleteCollection n)), st_GetCollection = (\<lambda>n. mem_qry (\<lambda>m. mem_GetCollection m n)),
     st_GetCollectionNames = mem_qry mem_GetCollectionNames, st_PutCollection = (\<lambda>c. mem_upd (mem_PutCollection c)),
     st_DeleteHistogram = (\<lambda>n. mem_upd (mem_DeleteHistogram n)), st_GetHistogram = (\<lambda>n. mem_qry (\<lambda>m. mem_GetHistogram m n)),
     st_GetHistogramNames = mem_qry mem_GetHistogramNames, st_PutHistogram = (\<lambda>c. mem_upd (mem_PutHistogram c)),
     st_DeleteScan = (\<lambda>n. mem_upd (mem_DeleteScan n)), st_GetScan = (\<lambda>n. mem_qry (\<lambda>m. mem_GetScan m n)),
     st_GetScanNames = mem_qry mem_GetScanNames, st_PutScan = (\<lambda>c. mem_upd (mem_PutScan c)), st_GetNodes = mem_qry mem_GetNodes\<rparr>"

section \<open>The environment\<close>

text \<open>
  A reader is what it delivers and the error it ends with; the test environment has none until one
  is injected.  A connection for collectors is of a type \<open>'q\<close> of its own: what answers their queries.
\<close>

record 'q Env =
  env_alt :: "(string \<times> go_error option) option"
  env_roPool :: "'q option"
  env_testing :: bool

definition Default :: "string \<times> go_error option \<Rightarrow> 'q Env" where
  "Default stdin = \<lparr>env_alt = Some stdin, env_roPool = None, env_testing = False\<rparr>"

definition TestingWithTime :: "time \<Rightarrow> 'cfg cli \<Rightarrow> 'q Env \<times> 'cfg cli" where
  "TestingWithTime now w = (\<lparr>env_alt = None, env_roPool = None, env_testing = True\<rparr>,
     snd (mem_upd mem_Init (w\<lparr>cli_mem := NewMemoryStore now\<rparr>)))"

definition InjectMockConnection :: "'q \<Rightarrow> 'q Env \<Rightarrow> 'q Env" where
  "InjectMockConnection pool E = E\<lparr>env_roPool := Some pool\<rparr>"

definition InjectReader :: "string \<times> go_error option \<Rightarrow> 'q Env \<Rightarrow> 'q Env" where
  "InjectReader r E = (if env_testing E then E\<lparr>env_alt := Some r\<rparr> else E)"

definition InjectStoreError :: "go_error option \<Rightarrow> 'q Env \<Rightarrow> 'cfg cli \<Rightarrow> 'cfg cli" where
  "InjectStoreError e E w = (if env_testing E then w\<lparr>cli_mem := InjectError e (cli_mem w)\<rparr> else w)"

definition ProvideStore :: "'q Env \<Rightarrow> 'cfg driver \<Rightarrow> (conn, unit) op \<Rightarrow> string \<Rightarrow> ('cfg, 'cfg Store) cmd" where
  "ProvideStore E D lease_Init URL w =
    (if env_testing E then Some (Inr mem_store, w)
     else (case db_New D URL (cli_db w) of
        None \<Rightarrow> None
      | Some (Inl e, d) \<Rightarrow> Some (Inl e, w\<lparr>cli_db := d\<rparr>)
      | Some (Inr p, d) \<Rightarrow> Some (Inr (sql_store lease_Init), w\<lparr>cli_db := d\<rparr>)))"

text \<open>
  The connection for collectors; \<open>conns\<close> are the answers the pools of the driver give, and \<open>None\<close> is
  the nil connection of a test environment without a mock.
\<close>

definition ProvideReadOnlyConnection :: "'q Env \<Rightarrow> 'cfg driver \<Rightarrow> (Pool \<Rightarrow> 'q) \<Rightarrow> string \<Rightarrow> bool \<Rightarrow> ('cfg, 'q Env \<times> 'q option) cmd" where
  "ProvideReadOnlyConnection E D conns URL unsafe w =
    (if env_testing E then Some (Inr (E, env_roPool E), w)
     else (case ReadOnly D URL unsafe (cli_db w) of
        None \<Rightarrow> None
      | Some (Inl e, d) \<Rightarrow> Some (Inl e, w\<lparr>cli_db := d\<rparr>)
      | Some (Inr p, d) \<Rightarrow> Some (Inr (E\<lparr>env_roPool := Some (conns p)\<rparr>, Some (conns p)), w\<lparr>cli_db := d\<rparr>)))"

text \<open>
  \<^verbatim>\<open>bufio.Scanner\<close> splits at newlines and drops a carriage return before one; it gives up on a line
  that does not fit into its buffer of 64 KB.
\<close>

definition newline :: char where "newline = CHR 0x0A"
definition carriage :: char where "carriage = CHR 0x0D"

definition MaxScanTokenSize :: nat where "MaxScanTokenSize = 65536"

fun scan_lines :: "string \<Rightarrow> string \<Rightarrow> string list" where
  "scan_lines acc [] = (if acc = [] then [] else [rev acc])"
| "scan_lines acc (c # cs) = (if c = newline then rev acc # scan_lines [] cs else scan_lines (c # acc) cs)"

definition dropCR :: "string \<Rightarrow> string" where
  "dropCR l = (if l \<noteq> [] \<and> last l = carriage then butlast l else l)"

definition ReadFile :: "'q Env \<Rightarrow> (string \<Rightarrow> go_error + string) \<Rightarrow> string \<Rightarrow> string result" where
  "ReadFile E os_ReadFile name =
    (if name = ''-'' then (case env_alt E of
        None \<Rightarrow> Inl (Panic NilDereference)
      | Some (text, err) \<Rightarrow>
          let ls = scan_lines [] text in
          if (\<exists>l \<in> set ls. MaxScanTokenSize \<le> length l) then Inl (Err ''bufio.Scanner: token too long'')
          else (case err of Some e \<Rightarrow> Inl (Err e) | None \<Rightarrow> Inr (concat (map (\<lambda>l. dropCR l @ [newline]) ls))))
     else (case os_ReadFile name of Inl e \<Rightarrow> Inl (Err e) | Inr d \<Rightarrow> Inr d))"

section \<open>The commands\<close>

text \<open>\<^verbatim>\<open>errors.Wrap\<close> puts the message before that of the error.\<close>

fun wrap_fault :: "string \<Rightarrow> fault \<Rightarrow> fault" where
  "wrap_fault m (Err e) = Err (m @ '': '' @ e)"
| "wrap_fault m (Panic p) = Panic p"

definition Wrap :: "string \<Rightarrow> 'a result \<times> 's \<Rightarrow> 'a result \<times> 's" where
  "Wrap m x = (case x of (Inl e, s) \<Rightarrow> (Inl (wrap_fault m e), s) | (Inr a, s) \<Rightarrow> (Inr a, s))"

definition Printf :: "string \<Rightarrow> ('cfg, unit) cop" where
  "Printf t w = (Inr (), w\<lparr>cli_out := cli_out w @ t\<rparr>)"

text \<open>The words and the calls in which the three groups differ.\<close>

record ('cfg, 'a) kind =
  kd_noun :: string
  kd_Noun :: string
  kd_nofile :: string
  kd_put :: "'cfg Store \<Rightarrow> 'a \<Rightarrow> ('cfg, unit) cop"
  kd_get :: "'cfg Store \<Rightarrow> string \<Rightarrow> ('cfg, 'a option) cop"
  kd_delete :: "'cfg Store \<Rightarrow> string \<Rightarrow> ('cfg, unit) cop"
  kd_names :: "'cfg Store \<Rightarrow> ('cfg, string list) cop"
  kd_marshal :: "'a \<Rightarrow> string result"
  kd_unmarshal :: "string \<Rightarrow> 'a result"
  kd_name :: "'a \<Rightarrow> string"

definition with_store :: "('cfg, 'cfg Store) cmd \<Rightarrow> ('cfg Store \<Rightarrow> ('cfg, unit) cop) \<Rightarrow> ('cfg, unit) cmd" where
  "with_store provide body w = (case provide w of
      None \<Rightarrow> None
    | Some (Inl e, w1) \<Rightarrow> Some (Inl e, w1)
    | Some (Inr st, w1) \<Rightarrow> Some (body st w1))"

definition deleteCmd :: "('cfg, 'a) kind \<Rightarrow> ('cfg, 'cfg Store) cmd \<Rightarrow> string \<Rightarrow> ('cfg, unit) cmd" where
  "deleteCmd K provide name = with_store provide (\<lambda>st.
     op_bind (\<lambda>w. Wrap (''unable to delete '' @ kd_noun K @ '' '' @ name) (kd_delete K st name w))
       (\<lambda>_. Printf (kd_Noun K @ '' '' @ name @ '' deleted.'' @ [newline])))"

definition getCmd :: "('cfg, 'a) kind \<Rightarrow> ('cfg, 'cfg Store) cmd \<Rightarrow> string \<Rightarrow> ('cfg, unit) cmd" where
  "getCmd K provide name = with_store provide (\<lambda>st.
     op_bind (\<lambda>w. Wrap (''unable to retrieve '' @ kd_noun K @ '' '' @ name) (kd_get K st name w))
       (\<lambda>x. case x of
          None \<Rightarrow> Printf (kd_Noun K @ '' '' @ name @ '' not found'' @ [newline])
        | Some a \<Rightarrow> op_bind (\<lambda>w. Wrap (''unable to retrieve '' @ kd_noun K @ '' '' @ name) (kd_marshal K a, w)) Printf))"

definition listCmd :: "('cfg, 'a) kind \<Rightarrow> ('cfg, 'cfg Store) cmd \<Rightarrow> ('cfg, unit) cmd" where
  "listCmd K provide w = map_option (Wrap (''unable to retrieve '' @ kd_noun K @ ''s'')) (with_store provide (\<lambda>st.
     op_bind (kd_names K st) (\<lambda>names. Printf (concat (map (\<lambda>n. n @ [newline]) (sort names))))) w)"

definition putCmd :: "('cfg, 'a) kind \<Rightarrow> ('cfg, 'cfg Store) cmd \<Rightarrow> (string \<Rightarrow> string result) \<Rightarrow> string \<Rightarrow> ('cfg, unit) cmd" where
  "putCmd K provide readFile path w =
    (if path = [] then Some (Inl (Err ''yaml configuration required''), w)
     else with_store provide (\<lambda>st.
       op_bind (\<lambda>w. Wrap (''unable to read '' @ kd_nofile K @ '' configuration'') (readFile path, w)) (\<lambda>data.
       op_bind (\<lambda>w. Wrap (''unable to read '' @ kd_noun K @ '' configuration'') (kd_unmarshal K data, w)) (\<lambda>a.
       op_bind (\<lambda>w. Wrap (''unable to insert '' @ kd_noun K @ '' '' @ kd_name K a) (kd_put K st a w))
         (\<lambda>_. Printf (kd_Noun K @ '' '' @ kd_name K a @ '' inserted.'' @ [newline]))))) w)"

text \<open>\<^verbatim>\<open>init\<close> takes the database of the URL, never that of a test environment.\<close>

definition initCmd :: "'cfg driver \<Rightarrow> (conn, unit) op \<Rightarrow> string \<Rightarrow> ('cfg, unit) cmd" where
  "initCmd D lease_Init URL w = (case db_New D URL (cli_db w) of
      None \<Rightarrow> None
    | Some (Inl e, d) \<Rightarrow> Some (Inl e, w\<lparr>cli_db := d\<rparr>)
    | Some (Inr p, d) \<Rightarrow> Some (case st_Init (sql_store lease_Init) (w\<lparr>cli_db := d\<rparr>) of
        (Inl e, w1) \<Rightarrow> (Inl e, snd (Printf (''Error initializing database at '' @ URL @ ''.'' @ [newline]) w1))
      | (Inr _, w1) \<Rightarrow> Printf (''Database initialized at '' @ URL @ [newline]) w1))"

subsection \<open>The three groups\<close>

definition coll_kind :: "coll_config yaml_api \<Rightarrow> ('cfg, Collection) kind" where
  "coll_kind Y = \<lparr>kd_noun = ''collection'', kd_Noun = ''Collection'', kd_nofile = ''collection'',
     kd_put = st_PutCollection, kd_get = st_GetCollection, kd_delete = st_DeleteCollection, kd_names = st_GetCollectionNames,
     kd_marshal = coll_marshal Y, kd_unmarshal = coll_unmarshal Y, kd_name = coll_Name\<rparr>"

definition scan_kind :: "scan_config yaml_api \<Rightarrow> ('cfg, Scan) kind" where
  "scan_kind Y = \<lparr>kd_noun = ''scan'', kd_Noun = ''Scan'', kd_nofile = ''read'',
     kd_put = st_PutScan, kd_get = st_GetScan, kd_delete = st_DeleteScan, kd_names = st_GetScanNames,
     kd_marshal = scan_marshal Y, kd_unmarshal = scan_unmarshal Y, kd_name = scan_Name\<rparr>"

definition hist_kind :: "hist_config yaml_api \<Rightarrow> ('cfg, Histogram) kind" where
  "hist_kind Y = \<lparr>kd_noun = ''histogram'', kd_Noun = ''Histogram'', kd_nofile = ''histogram'',
     kd_put = st_PutHistogram, kd_get = st_GetHistogram, kd_delete = st_DeleteHistogram, kd_names = st_GetHistogramNames,
     kd_marshal = hist_marshal Y, kd_unmarshal = hist_unmarshal Y, kd_name = hist_Name\<rparr>"

definition coll_deleteCmd where "coll_deleteCmd Y = deleteCmd (coll_kind Y)"
definition coll_getCmd where "coll_getCmd Y = getCmd (coll_kind Y)"
definition coll_listCmd where "coll_listCmd Y = listCmd (coll_kind Y)"
definition coll_putCmd where "coll_putCmd Y = putCmd (coll_kind Y)"
definition scan_deleteCmd where "scan_deleteCmd Y = deleteCmd (scan_kind Y)"
definition scan_getCmd where "scan_getCmd Y = getCmd (scan_kind Y)"
definition scan_listCmd where "scan_listCmd Y = listCmd (scan_kind Y)"
definition scan_putCmd where "scan_putCmd Y = putCmd (scan_kind Y)"
definition hist_deleteCmd where "hist_deleteCmd Y = deleteCmd (hist_kind Y)"
definition hist_getCmd where "hist_getCmd Y = getCmd (hist_kind Y)"
definition hist_listCmd where "hist_listCmd Y = listCmd (hist_kind Y)"
definition hist_putCmd where "hist_putCmd Y = putCmd (hist_kind Y)"

subsection \<open>The list of nodes\<close>

text \<open>
  \<^verbatim>\<open>text/tabwriter\<close> as the command sets it up (padding 1, blanks), on rows with the same number of
  cells: every cell but the last of its row is filled up to the widest cell of its column and one
  blank more, where the width is the number of code points.  The names of the nodes are taken to
  hold no tab and no newline.
\<close>

definition RuneCount :: "string \<Rightarrow> nat" where
  "RuneCount s = length (filter (\<lambda>c. \<not> (0x80 \<le> byte c \<and> byte c < 0xC0)) s)"

definition pad_cell :: "nat \<Rightarrow> string \<Rightarrow> string" where
  "pad_cell width s = s @ replicate (width - RuneCount s) (CHR 0x20)"

definition column_width :: "string list list \<Rightarrow> nat \<Rightarrow> nat" where
  "column_width rows j = fold max (map (\<lambda>r. RuneCount (r ! j) + 1) rows) 0"

definition tab_row :: "string list list \<Rightarrow> string list \<Rightarrow> string" where
  "tab_row rows r = concat (map (\<lambda>j. pad_cell (column_width rows j) (r ! j)) [0..<length r - 1]) @ last r @ [newline]"

fun decimal :: "nat \<Rightarrow> string" where
  "decimal n = (if n < 10 then [char_of (48 + n)] else decimal (n div 10) @ [char_of (48 + n mod 10)])"

definition show_int :: "int \<Rightarrow> string" where
  "show_int i = (if i < 0 then CHR ''-'' # decimal (nat (- i)) else decimal (nat i))"

text \<open>The name of the time zone and the local form of a time are properties of the host.\<close>

definition node_rows :: "string \<Rightarrow> (time \<Rightarrow> string) \<Rightarrow> NodeInfo list \<Rightarrow> string list list" where
  "node_rows zone localTime nodes = [''ID'', ''HOSTNAME'', ''PID'', ''VERSION'', ''UPDATED ('' @ zone @ '')''] #
     map (\<lambda>n. [show_int (node_ID n), node_Hostname n, show_int (node_PID n), node_Version n, localTime (node_Updated n)]) nodes"

definition node_listCmd :: "string \<Rightarrow> (time \<Rightarrow> string) \<Rightarrow> ('cfg, 'cfg Store) cmd \<Rightarrow> ('cfg, unit) cmd" where
  "node_listCmd zone localTime provide w = (case provide w of
      None \<Rightarrow> None
    | Some (Inl e, w1) \<Rightarrow> Some (Inl (wrap_fault ''unable to connect to store'' e), w1)
    | Some (Inr st, w1) \<Rightarrow> Some (op_bind (\<lambda>w. Wrap ''unable to retrieve nodes'' (st_GetNodes st w))
        (\<lambda>nodes. let rows = node_rows zone localTime nodes in Printf (concat (map (tab_row rows) rows))) w1))"

lemma column_width_ge: "r \<in> set rows \<Longrightarrow> RuneCount (r ! j) < column_width rows j"
proof -
  have *: "fold max xs a = Max (set (a # xs))" for xs :: "nat list" and a
    by (simp only: Max.set_eq_fold fold_simps)
  show "r \<in> set rows \<Longrightarrow> RuneCount (r ! j) < column_width rows j"
    unfolding column_width_def * by (intro less_le_trans[OF _ Max_ge]) auto
qed

text \<open>The cells of a column start at the same position in every row.\<close>

lemma pad_cell_aligned:
  assumes "r \<in> set rows"
  shows "RuneCount (pad_cell (column_width rows j) (r ! j)) = column_width rows j"
  using column_width_ge[OF assms, of j] by (simp add: pad_cell_def RuneCount_def byte_def)

section \<open>The contract of a group\<close>

text \<open>
  What the commands of a group rely on: on a good world the calls of the store work on a partial
  map from names, and neither print nor depend on what is printed or on the pools.
\<close>

locale admin_kind =
  fixes K :: "('cfg, 'a) kind"
    and st :: "'cfg Store"
    and good :: "'cfg cli \<Rightarrow> bool"
    and storable :: "'a \<Rightarrow> bool"
    and shown :: "'cfg cli \<Rightarrow> 'a \<Rightarrow> 'a"
    and content :: "'cfg cli \<Rightarrow> string \<Rightarrow> 'a option"
  assumes get_law: "good w \<Longrightarrow> kd_get K st n w = (Inr (content w n), w)"
    and names_law: "good w \<Longrightarrow> \<exists>ns. kd_names K st w = (Inr ns, w) \<and> distinct ns \<and> set ns = dom (content w)"
    and put_law: "good w \<Longrightarrow> storable x \<Longrightarrow>
      \<exists>w'. kd_put K st x w = (Inr (), w') \<and> good w' \<and> cli_out w' = cli_out w \<and> content w' = (content w)(kd_name K x \<mapsto> shown w x)"
    and delete_law: "good w \<Longrightarrow>
      \<exists>w'. kd_delete K st n w = (Inr (), w') \<and> good w' \<and> cli_out w' = cli_out w \<and> content w' = (content w)(n := None)"
    and frame_out: "good (w\<lparr>cli_out := t\<rparr>) = good w" "content (w\<lparr>cli_out := t\<rparr>) = content w"
    and frame_db: "good (w\<lparr>cli_db := d\<rparr>) = good w" "content (w\<lparr>cli_db := d\<rparr>) = content w" "shown (w\<lparr>cli_db := d\<rparr>) = shown w"
begin

text \<open>The environment provides this store, having touched the pools at most.\<close>

definition opens :: "('cfg, 'cfg Store) cmd \<Rightarrow> bool" where
  "opens provide = (\<forall>w. good w \<longrightarrow> (\<exists>d. provide w = Some (Inr st, w\<lparr>cli_db := d\<rparr>)))"

lemma with_store_opens:
  assumes "opens provide" "good w"
  obtains d where "with_store provide body w = Some (body st (w\<lparr>cli_db := d\<rparr>))" "good (w\<lparr>cli_db := d\<rparr>)"
  using assms unfolding opens_def with_store_def by (fastforce simp: frame_db)

lemma put_stores:
  assumes "opens provide" "good w" "path \<noteq> []" "readFile path = Inr data" "kd_unmarshal K data = Inr x" "storable x"
  shows "\<exists>w'. putCmd K provide readFile path w = Some (Inr (), w') \<and> good w' \<and> content w' = (content w)(kd_name K x \<mapsto> shown w x)
    \<and> cli_out w' = cli_out w @ kd_Noun K @ '' '' @ kd_name K x @ '' inserted.'' @ [newline]"
proof -
  obtain d where d: "provide w = Some (Inr st, w\<lparr>cli_db := d\<rparr>)" using assms(1,2) by (auto simp: opens_def)
  have g: "good (w\<lparr>cli_db := d\<rparr>)" using assms(2) by (simp add: frame_db)
  obtain w' where w': "kd_put K st x (w\<lparr>cli_db := d\<rparr>) = (Inr (), w')" "good w'" "cli_out w' = cli_out w"
      "content w' = (content w)(kd_name K x \<mapsto> shown w x)"
    using put_law[OF g assms(6)] by (auto simp: frame_db)
  then show ?thesis
    using assms(3) by (simp add: putCmd_def with_store_def d op_bind_def Wrap_def assms(4,5) Printf_def frame_out)
qed

lemma get_prints:
  assumes "opens provide" "good w" "\<And>x. content w n = Some x \<Longrightarrow> kd_marshal K x = Inr (doc x)"
  shows "\<exists>w'. getCmd K provide n w = Some (Inr (), w') \<and> good w' \<and> content w' = content w
    \<and> cli_out w' = cli_out w @ (case content w n of Some x \<Rightarrow> doc x | None \<Rightarrow> kd_Noun K @ '' '' @ n @ '' not found'' @ [newline])"
proof -
  obtain d where d: "provide w = Some (Inr st, w\<lparr>cli_db := d\<rparr>)" using assms(1,2) by (auto simp: opens_def)
  have g: "good (w\<lparr>cli_db := d\<rparr>)" using assms(2) by (simp add: frame_db)
  show ?thesis
  proof (cases "content w n")
    case None
    then show ?thesis using assms(2) get_law[OF g, of n]
      by (simp add: getCmd_def with_store_def d op_bind_def Wrap_def Printf_def frame_out frame_db)
  next
    case (Some x)
    then show ?thesis using assms(2) get_law[OF g, of n] assms(3)[OF Some]
      by (simp add: getCmd_def with_store_def d op_bind_def Wrap_def Printf_def frame_out frame_db)
  qed
qed

lemma list_prints:
  assumes "opens provide" "good w"
  shows "\<exists>w' ns. listCmd K provide w = Some (Inr (), w') \<and> good w' \<and> content w' = content w \<and> sorted ns \<and> distinct ns
    \<and> set ns = dom (content w) \<and> cli_out w' = cli_out w @ concat (map (\<lambda>n. n @ [newline]) ns)"
proof -
  obtain d where d: "provide w = Some (Inr st, w\<lparr>cli_db := d\<rparr>)" using assms by (auto simp: opens_def)
  have g: "good (w\<lparr>cli_db := d\<rparr>)" using assms(2) by (simp add: frame_db)
  obtain ns where ns: "kd_names K st (w\<lparr>cli_db := d\<rparr>) = (Inr ns, w\<lparr>cli_db := d\<rparr>)" "distinct ns" "set ns = dom (content w)"
    using names_law[OF g] by (auto simp: frame_db)
  let ?w = "w\<lparr>cli_db := d, cli_out := cli_out w @ concat (map (\<lambda>n. n @ [newline]) (sort ns))\<rparr>"
  have "listCmd K provide w = Some (Inr (), ?w)"
    by (simp add: listCmd_def with_store_def d op_bind_def Wrap_def ns(1) Printf_def)
  then show ?thesis using assms(2) ns(2,3) by (intro exI[of _ ?w] exI[of _ "sort ns"]) (simp add: frame_out frame_db)
qed

lemma delete_removes:
  assumes "opens provide" "good w"
  shows "\<exists>w'. deleteCmd K provide n w = Some (Inr (), w') \<and> good w' \<and> content w' = (content w)(n := None)
    \<and> cli_out w' = cli_out w @ kd_Noun K @ '' '' @ n @ '' deleted.'' @ [newline]"
proof -
  obtain d where d: "provide w = Some (Inr st, w\<lparr>cli_db := d\<rparr>)" using assms by (auto simp: opens_def)
  have g: "good (w\<lparr>cli_db := d\<rparr>)" using assms(2) by (simp add: frame_db)
  obtain w' where "kd_delete K st n (w\<lparr>cli_db := d\<rparr>) = (Inr (), w')" "good w'" "cli_out w' = cli_out w" "content w' = (content w)(n := None)"
    using delete_law[OF g, of n] by (auto simp: frame_db)
  then show ?thesis by (simp add: deleteCmd_def with_store_def d op_bind_def Wrap_def Printf_def frame_out)
qed

end

section \<open>The groups on the two stores\<close>

text \<open>The calls of the SQL store on a healthy connection, from its contract.\<close>

lemma sql_get_state:
  assumes "sql_healthy c"
  shows "sql_GetCollection n c = (Inr (sql_coll c n), c)" "sql_GetScan n c = (Inr (sql_scan c n), c)" "sql_GetHistogram n c = (Inr (sql_hist c n), c)"
  using assms by (cases "map_of (tbl_collection (the (conn_db c))) n"; cases "map_of (tbl_scan (the (conn_db c))) n";
      auto simp: sql_healthy_def sql_GetCollection_def sql_GetScan_def sql_GetHistogram_def sql_GetMetrics_def sql_GetScanPatterns_def
        served sql_coll_def sql_scan_def sql_hist_def elim: sql_healthyE)+

lemma as_update_Inr: "as_update f s = Inr s' \<longleftrightarrow> (\<exists>a. f s = (Inr a, s'))"
  by (auto simp: as_update_def split: prod.splits sum.splits)

lemma as_query_state: "as_query f s = Inr a \<Longrightarrow> snd (f s) = s \<Longrightarrow> f s = (Inr a, s)"
  by (cases "f s") (simp add: as_query_def)

lemma sql_names_state:
  assumes "sql_healthy c"
  shows "snd (sql_GetCollectionNames c) = c" "snd (sql_GetScanNames c) = c" "snd (sql_GetHistogramNames c) = c"
  using assms by (auto simp: sql_GetCollectionNames_def sql_GetScanNames_def sql_GetHistogramNames_def served elim!: sql_healthyE)

text \<open>The contract of a store gives the contract of the commands, on the connection and in memory.\<close>

lemma conn_admin_kind:
  fixes K :: "('cfg, 'a) kind"
  assumes S: "named_store (\<lambda>x. as_update (p x)) (\<lambda>c n. as_query (g n) c) (\<lambda>n. as_update (d n)) (as_query ns) (kd_name K) sql_healthy storable shown content"
    and q: "\<And>c n. sql_healthy c \<Longrightarrow> snd (g n c) = c" "\<And>c. sql_healthy c \<Longrightarrow> snd (ns c) = c"
    and K: "kd_put K st = (\<lambda>x. on_conn (p x))" "kd_get K st = (\<lambda>n. on_conn (g n))" "kd_delete K st = (\<lambda>n. on_conn (d n))" "kd_names K st = on_conn ns"
  shows "admin_kind K st (\<lambda>w. sql_healthy (cli_conn w)) storable (\<lambda>w. shown (cli_conn w)) (\<lambda>w. content (cli_conn w))"
proof (unfold_locales, goal_cases)
  case (1 w n)
  then have "g n (cli_conn w) = (Inr (content (cli_conn w) n), cli_conn w)"
    using as_query_state[OF named_store.get_content[OF S] q(1)] by blast
  then show ?case by (simp add: K on_conn_def)
next
  case (2 w)
  then obtain l where l: "as_query ns (cli_conn w) = Inr l" "distinct l" "set l = dom (content (cli_conn w))"
    using named_store.names_content[OF S] by blast
  then have "ns (cli_conn w) = (Inr l, cli_conn w)" using as_query_state[OF l(1)] q(2) 2 by blast
  then show ?case using l by (simp add: K on_conn_def)
next
  case (3 w x)
  then obtain c' where "p x (cli_conn w) = (Inr (), c')" "sql_healthy c'" "content c' = (content (cli_conn w))(kd_name K x \<mapsto> shown (cli_conn w) x)"
    using named_store.put_content[OF S, of "cli_conn w" x] by (auto simp: as_update_Inr)
  then show ?case by (simp add: K on_conn_def)
next
  case (4 w n)
  then obtain c' where "d n (cli_conn w) = (Inr (), c')" "sql_healthy c'" "content c' = (content (cli_conn w))(n := None)"
    using named_store.delete_content[OF S, of "cli_conn w" n] by (auto simp: as_update_Inr)
  then show ?case by (simp add: K on_conn_def)
qed simp_all

lemma mem_admin_kind:
  fixes K :: "('cfg, 'a) kind"
  assumes S: "named_store p g d ns (kd_name K) mem_healthy storable shown content"
    and K: "kd_put K st = (\<lambda>x. mem_upd (p x))" "kd_get K st = (\<lambda>n. mem_qry (\<lambda>m. g m n))" "kd_delete K st = (\<lambda>n. mem_upd (d n))" "kd_names K st = mem_qry ns"
  shows "admin_kind K st (\<lambda>w. mem_healthy (cli_mem w)) storable (\<lambda>w. shown (cli_mem w)) (\<lambda>w. content (cli_mem w))"
proof (unfold_locales, goal_cases)
  case (1 w n)
  then show ?case using named_store.get_content[OF S] by (simp add: K mem_qry_def)
next
  case (2 w)
  then show ?case using named_store.names_content[OF S] by (simp add: K mem_qry_def)
next
  case (3 w x)
  then obtain m where "p x (cli_mem w) = Inr m" "mem_healthy m" "content m = (content (cli_mem w))(kd_name K x \<mapsto> shown (cli_mem w) x)"
    using named_store.put_content[OF S] by blast
  then show ?case by (simp add: K mem_upd_def)
next
  case (4 w n)
  then obtain m where "d n (cli_mem w) = Inr m" "mem_healthy m" "content m = (content (cli_mem w))(n := None)"
    using named_store.delete_content[OF S] by blast
  then show ?case by (simp add: K mem_upd_def)
qed simp_all

interpretation sql_coll_cmds: admin_kind "coll_kind Y" "sql_store lease_Init" "\<lambda>w. sql_healthy (cli_conn w)" coll_storable
    "\<lambda>w. coll_shown (cli_conn w)" "\<lambda>w. sql_coll (cli_conn w)" for Y lease_Init
  by (rule conn_admin_kind[where p = sql_PutCollection and g = sql_GetCollection and d = sql_DeleteCollection and ns = sql_GetCollectionNames])
    (use sql_collections.named_store_axioms in \<open>simp_all add: coll_kind_def sql_store_def sql_get_state sql_names_state\<close>)

interpretation sql_scan_cmds: admin_kind "scan_kind Y" "sql_store lease_Init" "\<lambda>w. sql_healthy (cli_conn w)" scan_storable
    "\<lambda>w. scan_shown (cli_conn w)" "\<lambda>w. sql_scan (cli_conn w)" for Y lease_Init
  by (rule conn_admin_kind[where p = sql_PutScan and g = sql_GetScan and d = sql_DeleteScan and ns = sql_GetScanNames])
    (use sql_scans.named_store_axioms in \<open>simp_all add: scan_kind_def sql_store_def sql_get_state sql_names_state\<close>)

interpretation sql_hist_cmds: admin_kind "hist_kind Y" "sql_store lease_Init" "\<lambda>w. sql_healthy (cli_conn w)" "\<lambda>_. True"
    "\<lambda>w. hist_shown (cli_conn w)" "\<lambda>w. sql_hist (cli_conn w)" for Y lease_Init
  by (rule conn_admin_kind[where p = sql_PutHistogram and g = sql_GetHistogram and d = sql_DeleteHistogram and ns = sql_GetHistogramNames])
    (use sql_histograms.named_store_axioms in \<open>simp_all add: hist_kind_def sql_store_def sql_get_state sql_names_state\<close>)

interpretation mem_coll_cmds: admin_kind "coll_kind Y" mem_store "\<lambda>w. mem_healthy (cli_mem w)" "\<lambda>_. True"
    "\<lambda>w x. x" "\<lambda>w. mem_content (mem_collections (cli_mem w))" for Y
  by (rule mem_admin_kind[where p = mem_PutCollection and g = mem_GetCollection and d = mem_DeleteCollection and ns = mem_GetCollectionNames])
    (use mem_coll.named_store_axioms in \<open>simp_all add: coll_kind_def mem_store_def\<close>)

interpretation mem_scan_cmds: admin_kind "scan_kind Y" mem_store "\<lambda>w. mem_healthy (cli_mem w)" "\<lambda>_. True"
    "\<lambda>w x. x" "\<lambda>w. mem_content (mem_scans (cli_mem w))" for Y
  by (rule mem_admin_kind[where p = mem_PutScan and g = mem_GetScan and d = mem_DeleteScan and ns = mem_GetScanNames])
    (use mem_scan.named_store_axioms in \<open>simp_all add: scan_kind_def mem_store_def\<close>)

interpretation mem_hist_cmds: admin_kind "hist_kind Y" mem_store "\<lambda>w. mem_healthy (cli_mem w)" "\<lambda>_. True"
    "\<lambda>w x. x" "\<lambda>w. mem_content (mem_histograms (cli_mem w))" for Y
  by (rule mem_admin_kind[where p = mem_PutHistogram and g = mem_GetHistogram and d = mem_DeleteHistogram and ns = mem_GetHistogramNames])
    (use mem_hist.named_store_axioms in \<open>simp_all add: hist_kind_def mem_store_def\<close>)

section \<open>Theorems\<close>

lemma ProvideStore_sql:
  assumes "db_up D URL" "\<not> env_testing E"
  shows "\<exists>d. ProvideStore E D lease_Init URL w = Some (Inr (sql_store lease_Init), w\<lparr>cli_db := d\<rparr>)"
  using db_New_up[OF assms(1), of "cli_db w"] assms(2) by (auto simp: ProvideStore_def)

lemma unmarshalled_storable:
  assumes "coll_unmarshal Y data = Inr x" "distinct (map metric_Name (coll_Metrics x))"
  shows "coll_storable x"
proof -
  obtain cfg where "yaml_Unmarshal Y data = Inr cfg" using assms(1) by (cases "yaml_Unmarshal Y data") (auto simp: coll_unmarshal_def)
  from coll_unmarshal_read[OF this assms(1)] assms(2) show ?thesis by (auto simp: coll_accepted_def coll_storable_def)
qed

lemma sql_coll_opens:
  assumes "db_up D URL" "\<not> env_testing E"
  shows "sql_coll_cmds.opens lease_Init (ProvideStore E D lease_Init URL)"
  using ProvideStore_sql[OF assms] by (auto simp: sql_coll_cmds.opens_def)

lemma coll_put_sql:
  assumes up: "db_up D URL" "\<not> env_testing E" and h: "sql_healthy (cli_conn w)"
    and r: "path \<noteq> []" "ReadFile E os_ReadFile path = Inr data"
    and u: "coll_unmarshal Y data = Inr x" "distinct (map metric_Name (coll_Metrics x))"
  obtains w1 where "coll_putCmd Y (ProvideStore E D lease_Init URL) (ReadFile E os_ReadFile) path w = Some (Inr (), w1)"
    "sql_healthy (cli_conn w1)" "sql_coll (cli_conn w1) = (sql_coll (cli_conn w))(coll_Name x \<mapsto> coll_shown (cli_conn w) x)"
    "cli_out w1 = cli_out w @ ''Collection '' @ coll_Name x @ '' inserted.'' @ [newline]"
proof -
  have "kd_unmarshal (coll_kind Y) data = Inr x" using u(1) by (simp add: coll_kind_def)
  then show ?thesis
    using sql_coll_cmds.put_stores[where readFile = "ReadFile E os_ReadFile", OF sql_coll_opens[OF up] h r _ unmarshalled_storable[OF u]] that
    by (auto simp: coll_putCmd_def coll_kind_def)
qed

text \<open>
  C17: the commands on a database that is up.  A document \<^verbatim>\<open>unmarshal\<close> accepts, with metrics of
  different names, is inserted by \<^verbatim>\<open>put\<close>; \<^verbatim>\<open>get\<close> then prints the document of that collection, with
  its metrics in some order; \<^verbatim>\<open>list\<close> prints its name among those of all collections, each once and
  in order; \<^verbatim>\<open>delete\<close> removes it and nothing else.
\<close>

theorem coll_commands_session:
  assumes up: "db_up D URL" "\<not> env_testing E" and h: "sql_healthy (cli_conn w)"
    and r: "path \<noteq> []" "ReadFile E os_ReadFile path = Inr data"
    and u: "coll_unmarshal Y data = Inr x" "distinct (map metric_Name (coll_Metrics x))" and y: "yaml_Marshal Y = (\<lambda>c. Inr (doc c))"
  shows "\<exists>w1 w2 w3 w4 ms ns. mset ms = mset (coll_Metrics x) \<and> sorted ns \<and> distinct ns \<and> set ns = insert (coll_Name x) (dom (sql_coll (cli_conn w)))
    \<and> coll_putCmd Y (ProvideStore E D lease_Init URL) (ReadFile E os_ReadFile) path w = Some (Inr (), w1)
    \<and> cli_out w1 = cli_out w @ ''Collection '' @ coll_Name x @ '' inserted.'' @ [newline]
    \<and> coll_getCmd Y (ProvideStore E D lease_Init URL) (coll_Name x) w1 = Some (Inr (), w2)
    \<and> cli_out w2 = cli_out w1 @ doc (coll_to_config (x\<lparr>coll_Metrics := ms\<rparr>))
    \<and> coll_listCmd Y (ProvideStore E D lease_Init URL) w2 = Some (Inr (), w3)
    \<and> cli_out w3 = cli_out w2 @ concat (map (\<lambda>n. n @ [newline]) ns)
    \<and> coll_deleteCmd Y (ProvideStore E D lease_Init URL) (coll_Name x) w3 = Some (Inr (), w4)
    \<and> sql_coll (cli_conn w4) = (sql_coll (cli_conn w))(coll_Name x := None)"
proof -
  let ?P = "ProvideStore E D lease_Init URL" and ?x = "coll_shown (cli_conn w) x"
  note o = sql_coll_opens[OF up, of lease_Init]
  have m: "kd_marshal (coll_kind Y) c = Inr (doc (coll_to_config c))" for c by (simp add: coll_kind_def coll_marshal_def y)
  obtain w1 where w1: "coll_putCmd Y ?P (ReadFile E os_ReadFile) path w = Some (Inr (), w1)" "sql_healthy (cli_conn w1)"
      "sql_coll (cli_conn w1) = (sql_coll (cli_conn w))(coll_Name x \<mapsto> ?x)"
      "cli_out w1 = cli_out w @ ''Collection '' @ coll_Name x @ '' inserted.'' @ [newline]"
    by (rule coll_put_sql[OF up h r u])
  obtain w2 where w2: "coll_getCmd Y ?P (coll_Name x) w1 = Some (Inr (), w2)" "sql_healthy (cli_conn w2)"
      "sql_coll (cli_conn w2) = sql_coll (cli_conn w1)" "cli_out w2 = cli_out w1 @ doc (coll_to_config ?x)"
    using sql_coll_cmds.get_prints[OF o w1(2), of "coll_Name x" Y "\<lambda>c. doc (coll_to_config c)"] m by (auto simp: coll_getCmd_def w1(3))
  obtain w3 ns where w3: "coll_listCmd Y ?P w2 = Some (Inr (), w3)" "sql_healthy (cli_conn w3)" "sql_coll (cli_conn w3) = sql_coll (cli_conn w2)"
      "sorted ns" "distinct ns" "set ns = dom (sql_coll (cli_conn w2))" "cli_out w3 = cli_out w2 @ concat (map (\<lambda>n. n @ [newline]) ns)"
    using sql_coll_cmds.list_prints[OF o w2(2), of Y] by (auto simp: coll_listCmd_def)
  obtain w4 where w4: "coll_deleteCmd Y ?P (coll_Name x) w3 = Some (Inr (), w4)" "sql_coll (cli_conn w4) = (sql_coll (cli_conn w3))(coll_Name x := None)"
    using sql_coll_cmds.delete_removes[OF o w3(2), of Y "coll_Name x"] by (auto simp: coll_deleteCmd_def)
  have "coll_to_config ?x = coll_to_config (x\<lparr>coll_Metrics := coll_Metrics ?x\<rparr>)" "mset (coll_Metrics ?x) = mset (coll_Metrics x)"
    using h by (simp_all add: coll_to_config_def coll_shown_def sql_healthy_def orders_ok_def)
  moreover have "set ns = insert (coll_Name x) (dom (sql_coll (cli_conn w)))" by (simp add: w3(6) w2(3) w1(3))
  moreover have "sql_coll (cli_conn w4) = (sql_coll (cli_conn w))(coll_Name x := None)" by (simp add: w4(2) w3(3) w2(3) w1(3))
  moreover note w1(1,4) w2(1,4) w3(1,4,5,7) w4(1)
  ultimately show ?thesis by metis
qed

definition ex_cli :: "unit cli" where
  "ex_cli = \<lparr>cli_mem = NewMemoryStore 0, cli_conn = ex_conn, cli_db = ex_ds, cli_out = []\<rparr>"

definition ex_env :: "unit Env" where
  "ex_env = Default ([], None)"

definition ex_stored_coll :: Collection where
  "ex_stored_coll = \<lparr>coll_Databases = [], coll_Enabled = True, coll_Frequency = \<lparr>Microseconds = 10000000, Days = 0, Months = 0\<rparr>,
     coll_Labels = [''a''], coll_LastModified = zero_time, coll_MaxResult = 5,
     coll_Metrics = [\<lparr>metric_Name = ''m'', metric_Kind = Gauge, metric_Help = ''h''\<rparr>], coll_Name = ''c'', coll_Query = ''q'', coll_Scope = Node\<rparr>"

lemma ex_unmarshal: "coll_unmarshal (one_doc_api ex_cfg) ''doc'' = Inr ex_stored_coll"
proof -
  have "ToLower ''Gauge'' = Gauge" by code_simp
  then show ?thesis using read_scope_known[of Node]
    by (simp add: coll_unmarshal_def one_doc_api_def ex_cfg_def coll_defaults_def Node_def microsecondsPerSecond_def wrap64_def ex_stored_coll_def)
qed

theorem coll_commands_session_witness:
  "\<exists>w1. coll_putCmd (one_doc_api ex_cfg) (ProvideStore ex_env ex_up (\<lambda>c. (Inr (), c)) ''u'')
      (ReadFile ex_env (\<lambda>_. Inr ''doc'')) ''f'' ex_cli = Some (Inr (), w1) \<and> cli_out w1 = ''Collection c inserted.'' @ [newline]"
proof -
  have d: "distinct (map metric_Name (coll_Metrics ex_stored_coll))" "coll_Name ex_stored_coll = ''c''" by (simp_all add: ex_stored_coll_def)
  have 1: "db_up ex_up ''u''" "\<not> env_testing ex_env" "sql_healthy (cli_conn ex_cli)"
    "ReadFile ex_env (\<lambda>_. Inr ''doc'') ''f'' = Inr ''doc''" "yaml_Marshal (one_doc_api ex_cfg) = (\<lambda>c. Inr ''doc'')"
    using ex_conn_ok by (simp_all add: ex_up_ok ex_env_def Default_def ex_cli_def ReadFile_def one_doc_api_def)
  from coll_commands_session[OF 1(1-3) _ 1(4) ex_unmarshal d(1) 1(5), of "\<lambda>c. (Inr (), c)"] show ?thesis by (auto simp: ex_cli_def d(2))
qed

text \<open>
  \<^verbatim>\<open>put\<close> without a file, with a file that cannot be read, or with a document that is not accepted
  returns an error, prints nothing and changes neither store.
\<close>

theorem put_rejects:
  assumes "putCmd K (ProvideStore E D lease_Init URL) readFile path w = Some (r, w')"
    and "path = [] \<or> (\<exists>e. bind_result (readFile path) (kd_unmarshal K) = Inl e)"
  shows "(\<exists>e. r = Inl e) \<and> cli_mem w' = cli_mem w \<and> cli_conn w' = cli_conn w \<and> cli_out w' = cli_out w"
proof (cases "path = []")
  case True
  then show ?thesis using assms(1) by (auto simp: putCmd_def)
next
  case False
  then obtain e where e: "bind_result (readFile path) (kd_unmarshal K) = Inl e" using assms(2) by blast
  obtain p w1 where p: "ProvideStore E D lease_Init URL w = Some (p, w1)"
    using assms(1) False by (cases "ProvideStore E D lease_Init URL w") (auto simp: putCmd_def with_store_def)
  have f: "cli_mem w1 = cli_mem w" "cli_conn w1 = cli_conn w" "cli_out w1 = cli_out w"
    using p by (auto simp: ProvideStore_def split: if_splits option.splits sum.splits)
  have "(\<exists>e. r = Inl e) \<and> w' = w1"
    using assms(1) False e by (cases p; cases "readFile path") (auto simp: putCmd_def with_store_def p op_bind_def Wrap_def)
  then show ?thesis using f by simp
qed

theorem put_rejects_witness:
  "\<exists>e w'. coll_putCmd (one_doc_api (ex_cfg\<lparr>cc_Name := []\<rparr>)) (ProvideStore ex_env ex_up (\<lambda>c. (Inr (), c)) ''u'')
      (ReadFile ex_env (\<lambda>_. Inr ''doc'')) ''f'' ex_cli = Some (Inl e, w') \<and> cli_conn w' = ex_conn"
proof -
  let ?Y = "one_doc_api (ex_cfg\<lparr>cc_Name := []\<rparr>)" and ?E = ex_env
  have "db_up ex_up ''u''" "\<not> env_testing ?E" by (simp_all add: ex_up_ok ex_env_def Default_def)
  then obtain d where d: "ProvideStore ?E ex_up (\<lambda>c. (Inr (), c)) ''u'' ex_cli = Some (Inr (sql_store (\<lambda>c. (Inr (), c))), ex_cli\<lparr>cli_db := d\<rparr>)"
    using ProvideStore_sql by blast
  then obtain r w' where r: "putCmd (coll_kind ?Y) (ProvideStore ?E ex_up (\<lambda>c. (Inr (), c)) ''u'') (ReadFile ?E (\<lambda>_. Inr ''doc'')) ''f'' ex_cli = Some (r, w')"
    by (simp add: putCmd_def with_store_def) (meson surj_pair)
  have "\<not> (\<exists>c. coll_unmarshal ?Y ''doc'' = Inr c)"
    by (subst coll_unmarshal_defined[where cfg = "ex_cfg\<lparr>cc_Name := []\<rparr>"]) (simp_all add: one_doc_api_def)
  then have "\<exists>e. bind_result (ReadFile ?E (\<lambda>_. Inr ''doc'') ''f'') (kd_unmarshal (coll_kind ?Y)) = Inl e"
    by (cases "coll_unmarshal ?Y ''doc''") (auto simp: ReadFile_def coll_kind_def)
  with put_rejects[OF r] show ?thesis using r by (auto simp: coll_putCmd_def ex_cli_def)
qed

end
