(* ===== verification/Collector_Databases.thy ===== *)
theory Collector_Databases
  imports Collector_Setup
begin

text \<open>
  A run of a collector that iterates over databases (the field \<^verbatim>\<open>databases\<close> of a collection): the loop
  of \<^verbatim>\<open>Collect\<close> over \<^verbatim>\<open>collectLocked\<close>.
\<close>

section \<open>The label of the database\<close>

text \<open>The label columns of a row are written before the last position, which holds the database.\<close>

definition positions_ok :: "'c collector \<Rightarrow> bool" where
  "positions_ok c = (\<forall>col pos. map_of (c_labelMap c) col = Some pos \<longrightarrow> pos < length (c_labels c))"

lemma last_update:
  "Suc i < length ls \<Longrightarrow> last (ls[i := x]) = last ls"
  "ls \<noteq> [] \<Longrightarrow> last (ls[length ls - 1 := x]) = x"
  by (cases ls rule: rev_cases; auto simp: list_update_append)+

lemma set_labels_last:
  assumes "positions_ok c"
  shows "length ls = Suc (length (c_labels c)) \<Longrightarrow> last (set_labels c cols ls) = last ls"
proof (induction cols arbitrary: ls)
  case (Cons x cols)
  obtain col v where x: "x = (col, v)" by (cases x)
  let ?ls = "case (map_of (c_labelMap c) col, v) of (Some pos, DString s) \<Rightarrow> ls[pos := s] | _ \<Rightarrow> ls"
  have step: "set_labels c (x # cols) ls = set_labels c cols ?ls" by (simp add: set_labels_def x)
  have "length ?ls = Suc (length (c_labels c))" "last ?ls = last ls"
    using Cons.prems assms by (auto simp: positions_ok_def intro!: last_update(1) split: option.split dbvalue.split)
  then show ?case unfolding step by (simp add: Cons.IH)
qed (simp add: set_labels_def)

lemma row_labels_last:
  assumes "positions_ok c" "c_databases c \<noteq> []" "db \<noteq> []"
  shows "last (row_labels c db cols) = db"
proof -
  have "length (new_labels c db) = Suc (length (c_labels c))" "last (new_labels c db) = db"
    using assms(2,3) last_update(2)[of "replicate (Suc (length (c_labels c))) []" db]
    by (simp_all add: new_labels_def getAllLabels_def Let_def del: replicate_Suc list_update.simps)
  then show ?thesis unfolding row_labels_def using set_labels_last[OF assms(1)] by simp
qed

lemma label_positions_bound:
  "map_of (label_positions i ls m) col = Some pos \<Longrightarrow> pos < i + length ls \<or> map_of m col = Some pos"
proof (induction ls arbitrary: i m)
  case (Cons l ls)
  have "pos < Suc i + length ls \<or> map_of (AList.update l i m) col = Some pos" by (rule Cons.IH) (use Cons.prems in simp)
  then show ?case by (auto split: if_splits)
qed simp

section \<open>The loop\<close>

text \<open>All exchanges for one database succeed, with a result the collector can use.\<close>

definition usable :: "'c collector \<Rightarrow> string \<Rightarrow> answer \<Rightarrow> bool" where
  "usable c db ans = (ans_begin ans = None \<and> ans_use ans = None \<and> ans_commit ans = None
     \<and> (\<exists>desc rows. ans_query ans = Inr (desc, rows) \<and> result_ok c db desc rows))"

lemma config_irrelevant [simp]:
  "is_gauge (c\<lparr>c_countersCache := ca, c_gaugeLabels := t\<rparr>) = is_gauge c"
  "is_label (c\<lparr>c_countersCache := ca, c_gaugeLabels := t\<rparr>) = is_label c"
  "row_labels (c\<lparr>c_countersCache := ca, c_gaugeLabels := t\<rparr>) = row_labels c"
  "row_ok (c\<lparr>c_countersCache := ca, c_gaugeLabels := t\<rparr>) = row_ok c"
  "positions_ok (c\<lparr>c_countersCache := ca, c_gaugeLabels := t\<rparr>) = positions_ok c"
  by (auto simp: fun_eq_iff is_gauge_def positions_ok_def is_label_def row_ok_def counters_nonneg_def row_labels_def set_labels_def
      new_labels_def getAllLabels_def)

lemma usable_irrelevant [simp]: "usable (c\<lparr>c_countersCache := ca, c_gaugeLabels := t\<rparr>) = usable c"
  by (simp add: fun_eq_iff usable_def result_ok_def labels_first_def)

lemma collect_dbs_gauges:
  fixes L :: "('v, 'r, 'c) libs"
  assumes "libs_ok L"
  shows "counters_inv L c w \<Longrightarrow> gauges_inv L c w \<Longrightarrow> positions_ok c \<Longrightarrow> c_databases c \<noteq> [] \<Longrightarrow> dbs \<noteq> [] \<Longrightarrow> [] \<notin> set dbs \<Longrightarrow>
    \<forall>k < length dbs. usable c (dbs ! k) (as (n + k)) \<Longrightarrow>
    \<exists>c' w'. collect_dbs L as n dbs (c, w) = (Inr (), (c', w')) \<and> counters_inv L c' w' \<and> gauges_inv L c' w'
      \<and> (\<forall>g i l. is_gauge c g i \<longrightarrow> series L w' i l \<noteq> None \<longrightarrow> last l = last dbs)"
proof (induction dbs arbitrary: c w n)
  case (Cons db dbs)
  have "usable c db (as n)" using Cons.prems(7) by force
  then obtain desc rows where q: "ans_begin (as n) = None" "ans_use (as n) = None" "ans_query (as n) = Inr (desc, rows)" "ans_commit (as n) = None"
      "result_ok c db desc rows" by (auto simp: usable_def)
  obtain ca t w1 where run: "collectLocked L (as n) db (c, w) = (Inr (), (c\<lparr>c_countersCache := ca, c_gaugeLabels := t\<rparr>, w1))"
      "counters_inv L (c\<lparr>c_countersCache := ca, c_gaugeLabels := t\<rparr>) w1" "gauges_inv L (c\<lparr>c_countersCache := ca, c_gaugeLabels := t\<rparr>) w1"
    and se: "\<And>g i l. is_gauge c g i \<Longrightarrow> series L w1 i l = (if \<exists>vs \<in> set (decoded rows). row_labels c db (zip desc vs) = l
         then gauge_rows c db desc (decoded rows) g l (series L w i l) else None)"
    using collectLocked_run[OF assms Cons.prems(1,2) q(5,1,2,3,4)] by blast
  let ?c = "c\<lparr>c_countersCache := ca, c_gaugeLabels := t\<rparr>"
  show ?case
  proof (cases "dbs = []")
    case True
    have "last l = db" if "is_gauge c g i" "series L w1 i l \<noteq> None" for g i l
      using se[OF that(1), of l] that(2) row_labels_last[OF Cons.prems(3,4)] Cons.prems(6) by (auto split: if_splits)
    then show ?thesis using True run by (auto simp: op_bind_def)
  next
    case False
    have "\<forall>k < length dbs. usable ?c (dbs ! k) (as (Suc n + k))"
      using Cons.prems(7) by (auto dest: spec[of _ "Suc _"])
    then obtain c' w' where "collect_dbs L as (Suc n) dbs (?c, w1) = (Inr (), (c', w'))" "counters_inv L c' w'" "gauges_inv L c' w'"
        "\<forall>g i l. is_gauge ?c g i \<longrightarrow> series L w' i l \<noteq> None \<longrightarrow> last l = last dbs"
      using Cons.IH[OF run(2,3), of "Suc n"] Cons.prems(3,4,6) False by auto
    then show ?thesis using run(1) False by (auto simp: op_bind_def)
  qed
qed simp

text \<open>
  C5: a collection that iterates over databases keeps the gauges of the last database only.  If every
  exchange of a run succeeds, then afterwards each series of a gauge has the last database as its
  label: the clearing of obsolete gauges after a database deletes the series of the databases
  before it, which are in the table of the gauges and not among those of this database.
\<close>

theorem last_database_wins:
  fixes L :: "('v, 'r, 'c) libs"
  assumes "libs_ok L" "counters_inv L c w" "gauges_inv L c w" "positions_ok c" "c_databases c \<noteq> []" "c_enabled c" "\<not> c_locked c"
    and "list_databases c q = Inr dbs" "dbs \<noteq> []" "[] \<notin> set dbs" "\<forall>k < length dbs. usable c (dbs ! k) (as k)"
  shows "\<exists>c' w'. Collect L q as (c, w) = (Inr (), (c', w'))
    \<and> (\<forall>g i l. is_gauge c g i \<longrightarrow> series L w' i l \<noteq> None \<longrightarrow> last l = last dbs)"
proof -
  have "maybeInitCache L c = c" using assms(2) by (auto simp: maybeInitCache_def counters_inv_def)
  then have "Collect L q as (c, w) = collect_dbs L as 0 dbs (c, w)" using assms(6-8) by (simp add: Collect_def)
  then show ?thesis using collect_dbs_gauges[OF assms(1-5,9,10), of as 0] assms(11) by auto
qed

lemma ex_flags_c1: "c_enabled (ex_c1 dbs)" "\<not> c_locked (ex_c1 dbs)"
  by (simp_all add: maybeInitCache_def ex_c_def ex_sessions_def FromCollection_def ref_libs_def ex_world_def op_bind_def AddGauge_def AddCounter_def
      add_metric_def Let_def list_vec_api_def list_reg_api_def lr_accepts_def getAllLabels_def metricName_def Gauge_def Counter_def
      databaseLabel_def wrap64_def)

lemma ex_usable:
  assumes "valid_utf8 db" "db \<noteq> []" "CHR ''|'' \<notin> set db"
  shows "usable (ex_c1 ''dbs'') db (ex_answer [(''cli'', 3, 7)])"
  using assms by (simp add: usable_def ex_answer_def result_ok_def labels_first_def is_label_def ex_c1_fields ex_c_fields row_ok_def counters_nonneg_def
      metric_value_def clean_def byte_def dom_def row_labels_def set_labels_def new_labels_def getAllLabels_def)

theorem last_database_wins_witness:
  "\<exists>c' w'. Collect ref_libs (Inr ([Inr [DString ''d1''], Inr [DString ''d2'']], None)) (\<lambda>_. ex_answer [(''cli'', 3, 7)]) (ex_c1 ''dbs'', ex_w ''dbs'') = (Inr (), (c', w'))
    \<and> series ref_libs w' 0 [''cli'', ''d1''] = None"
proof -
  have u: "\<forall>k < length [''d1'', ''d2'']. usable (ex_c1 ''dbs'') ([''d1'', ''d2''] ! k) (ex_answer [(''cli'', 3, 7)])"
    using ex_usable[of "''d1''"] ex_usable[of "''d2''"] by (simp add: less_Suc_eq byte_def)
  have p: "positions_ok (ex_c1 ''dbs'')" "c_databases (ex_c1 ''dbs'') \<noteq> []" "is_gauge (ex_c1 ''dbs'') ''open'' 0"
      "list_databases (ex_c1 ''dbs'') (Inr ([Inr [DString ''d1''], Inr [DString ''d2'']], None)) = Inr [''d1'', ''d2'']"
    by (simp_all add: positions_ok_def ex_c1_fields is_gauge_def ex_c_fields list_databases_def)
  show ?thesis
    using last_database_wins[OF ref_libs_ok maybeInitCache_fresh(1,2)[OF ref_libs_ok ex_fresh] p(1,2) ex_flags_c1 p(4) _ _ u] p(3)
    by fastforce
qed

end
