(* ===== verification/Test_Cmd.thy ===== *)
theory Test_Cmd
  imports Admin_Cmd Collector_Databases Scanner Metric_Writer
begin

text \<open>
  The \<^verbatim>\<open>test\<close> commands of \<^verbatim>\<open>internal/cmd/collection\<close>, \<^verbatim>\<open>scan\<close> and \<^verbatim>\<open>histogram\<close>: they take a stored
  configuration, run a collector, a scanner or the writer with it in the process of the command,
  and print the metrics it produces.  The loops of the first two have no bound when the count is
  zero; they are partial functions, and not returning is the value \<open>None\<close>.
\<close>

section \<open>Printing what the registry gathers\<close>

text \<open>
  \<^verbatim>\<open>prometheus.DefaultGatherer\<close>, the text format and the clock.  The rounds of a loop are numbered,
  since what is gathered includes metrics of the process: \<open>g_Gather\<close> is what the gatherer returns in
  a round, \<open>g_Text\<close> what \<^verbatim>\<open>MetricFamilyToText\<close> writes (its error is ignored), \<open>g_stamp\<close> the formatted
  time, \<open>g_done\<close> the error of the context if the wait before a round ends with its cancellation.
  \<open>g_value\<close> observes the samples of a family.
\<close>

record ('w, 'mf) gatherer =
  g_Gather :: "int \<Rightarrow> 'w \<Rightarrow> go_error + 'mf list"
  g_Name :: "'mf \<Rightarrow> string"
  g_value :: "'mf \<Rightarrow> string list \<Rightarrow> float64 option"
  g_Text :: "'mf \<Rightarrow> string"
  g_stamp :: "int \<Rightarrow> string"
  g_done :: "int \<Rightarrow> go_error option"

text \<open>
  Documented: the families are those of the registered vectors, with one sample for each series;
  a vector with a series has a family.
\<close>

definition gather_laws :: "('v, 'r, 'c) libs \<Rightarrow> (('v, 'r) world, 'mf) gatherer \<Rightarrow> bool" where
  "gather_laws L G = (\<forall>i w mfs name k. g_Gather G i w = Inr mfs \<longrightarrow> reg_lookup (lib_reg L) (w_reg w) name = Some k \<longrightarrow>
     (\<forall>mf \<in> set mfs. g_Name G mf = name \<longrightarrow> g_value G mf = series L w k)
     \<and> ((\<exists>l. series L w k l \<noteq> None) \<longrightarrow> (\<exists>mf \<in> set mfs. g_Name G mf = name)))"

definition HasPrefix :: "string \<Rightarrow> string \<Rightarrow> bool" where
  "HasPrefix s p = (take (length p) s = p)"

definition families_text :: "('w, 'mf) gatherer \<Rightarrow> string \<Rightarrow> 'mf list \<Rightarrow> string" where
  "families_text G p mfs = concat (map (g_Text G) (filter (\<lambda>mf. HasPrefix (g_Name G mf) p) mfs))"

definition round_header :: "('w, 'mf) gatherer \<Rightarrow> int \<Rightarrow> string \<Rightarrow> string" where
  "round_header G i name = [newline] @ ''---- '' @ g_stamp G i @ '' '' @ name @ '' -----'' @ [newline]"

section \<open>Testing a collection\<close>

text \<open>A connection for collectors: the answers to each run.  A nil connection panics on its first use.\<close>

type_synonym ro_conn = "int \<Rightarrow> db_answer \<times> (nat \<Rightarrow> answer)"

definition Collect_on :: "('v, 'r, 'c) libs \<Rightarrow> ro_conn option \<Rightarrow> int \<Rightarrow> ('c collector \<times> ('v, 'r) world, unit) op" where
  "Collect_on L conn i s = (case conn of
      None \<Rightarrow> (Inl (Panic NilDereference), s)
    | Some q \<Rightarrow> Collect L (fst (q i)) (snd (q i)) s)"

type_synonym ('cfg, 'v, 'r, 'c) coll_test = "('c collector \<times> ('v, 'r) world) \<times> 'cfg cli"

text \<open>The body of the loop after the wait; the error of \<^verbatim>\<open>Collect\<close> is dropped.\<close>

definition coll_round :: "('v, 'r, 'c) libs \<Rightarrow> (('v, 'r) world, 'mf) gatherer \<Rightarrow> ro_conn option \<Rightarrow> string \<Rightarrow> Collection \<Rightarrow> int
    \<Rightarrow> (('cfg, 'v, 'r, 'c) coll_test, unit) op" where
  "coll_round L G conn name coll i = (\<lambda>(s, w).
    (let w1 = snd (Printf (round_header G i (coll_Name coll)) w) in
     case Collect_on L conn i s of
       (Inl (Panic p), s1) \<Rightarrow> (Inl (Panic p), (s1, w1))
     | (_, s1) \<Rightarrow>
        (case g_Gather G i (snd s1) of
           Inl e \<Rightarrow> (Inl (wrap_fault (''error collecting metrics for '' @ name) (Err e)), (s1, w1))
         | Inr mfs \<Rightarrow> (Inr (), (s1, snd (Printf (families_text G name mfs) w1))))))"

partial_function (option) coll_rounds :: "('v, 'r, 'c) libs \<Rightarrow> (('v, 'r) world, 'mf) gatherer \<Rightarrow> ro_conn option \<Rightarrow> string \<Rightarrow> Collection
    \<Rightarrow> int \<Rightarrow> int \<Rightarrow> ('cfg, 'v, 'r, 'c) coll_test \<Rightarrow> (unit result \<times> ('cfg, 'v, 'r, 'c) coll_test) option" where
  [code]: "coll_rounds L G conn name coll rounds i s =
    (if i \<le> rounds \<or> rounds = 0 then
       (case (if i > 1 then g_done G i else None) of
          Some e \<Rightarrow> Some (Inl (Err e), s)
        | None \<Rightarrow> (case coll_round L G conn name coll i s of
             (Inl e, s1) \<Rightarrow> Some (Inl e, s1)
           | (Inr _, s1) \<Rightarrow> coll_rounds L G conn name coll rounds (wrap64 (i + 1)) s1))
     else Some (Inr (), s))"

type_synonym ('cfg, 'v, 'r) proc = "'cfg cli \<times> ('v, 'r) world"

definition coll_testCmd :: "('v, 'r, 'c) libs \<Rightarrow> (('v, 'r) world, 'mf) gatherer \<Rightarrow> ro_conn Env \<Rightarrow> 'cfg driver \<Rightarrow> (Pool \<Rightarrow> ro_conn)
    \<Rightarrow> (conn, unit) op \<Rightarrow> string \<Rightarrow> bool \<Rightarrow> int \<Rightarrow> string \<Rightarrow> ('cfg, 'v, 'r) proc \<Rightarrow> (unit result \<times> ('cfg, 'v, 'r) proc) option" where
  "coll_testCmd L G E D conns lease_Init URL unsafe rounds name = (\<lambda>(w, pw).
    (case ProvideStore E D lease_Init URL w of
       None \<Rightarrow> None
     | Some (Inl e, w1) \<Rightarrow> Some (Inl e, (w1, pw))
     | Some (Inr st, w1) \<Rightarrow>
    (case ProvideReadOnlyConnection E D conns URL unsafe w1 of
       None \<Rightarrow> None
     | Some (Inl e, w2) \<Rightarrow> Some (Inl e, (w2, pw))
     | Some (Inr (E', conn), w2) \<Rightarrow>
    (case Wrap (''Error retrieving collection '' @ name) (st_GetCollection st name w2) of
       (Inl e, w3) \<Rightarrow> Some (Inl e, (w3, pw))
     | (Inr None, w3) \<Rightarrow> Some (Inr (), (snd (Printf (''Collection '' @ name @ '' not found'' @ [newline]) w3), pw))
     | (Inr (Some coll), w3) \<Rightarrow>
    (case Wrap (''Error creating collector for '' @ name) (FromCollection L coll pw) of
       (Inl e, pw1) \<Rightarrow> Some (Inl e, (w3, pw1))
     | (Inr c, pw1) \<Rightarrow> map_option (\<lambda>(r, ((c', pw2), w4)). (r, (w4, pw2))) (coll_rounds L G conn name coll rounds 1 ((c, pw1), w3)))))))"

section \<open>Testing a scan\<close>

text \<open>
  The routine of the scanner works while the command waits: it opens the file, and the package that
  follows files delivers lines.  What happens in the wait before a round is a list of such events.
\<close>

datatype scan_event = Opens | Delivers "string list"

definition deliver_event :: "json_Unmarshal \<Rightarrow> ('v, 'r, 'c) libs \<Rightarrow> (string \<Rightarrow> tail_Config \<Rightarrow> go_error + nat) \<Rightarrow> scan_event
    \<Rightarrow> (Scanner \<times> ('v, 'r) world \<times> tally, unit) op" where
  "deliver_event U L tailFile ev = (\<lambda>(s, wt). case ev of
      Opens \<Rightarrow> (Inr (), (if sc_pending s then sc_routine tailFile s else s, wt))
    | Delivers lines \<Rightarrow> if sc_tail s = None then (Inr (), (s, wt))
        else (case sc_parse U L s (scan_Path (sc_target s)) lines wt of (r, wt') \<Rightarrow> (r, (s, wt'))))"

record ('v, 'r, 'c) scan_host =
  sh_libs :: "('v, 'r, 'c) libs"
  sh_compile :: regexp_compile
  sh_json :: json_Unmarshal
  sh_tailFile :: "string \<Rightarrow> tail_Config \<Rightarrow> go_error + nat"
  sh_tailStop :: "nat \<Rightarrow> go_error option"
  sh_events :: "int \<Rightarrow> scan_event list"

type_synonym ('cfg, 'v, 'r) scan_test = "(Scanner \<times> ('v, 'r) world \<times> tally) \<times> 'cfg cli"

definition scan_round :: "('v, 'r, 'c) scan_host \<Rightarrow> (('v, 'r) world, 'mf) gatherer \<Rightarrow> Scan \<Rightarrow> int \<Rightarrow> (('cfg, 'v, 'r) scan_test, unit) op" where
  "scan_round H G scan i = (\<lambda>(s, w).
    (case for_each (deliver_event (sh_json H) (sh_libs H) (sh_tailFile H)) (sh_events H i) s of
       (Inl e, s1) \<Rightarrow> (Inl e, (s1, w))
     | (Inr _, s1) \<Rightarrow>
        (case g_done G i of
           Some e \<Rightarrow> (Inl (Err e), (s1, w))
         | None \<Rightarrow>
            (case g_Gather G i (fst (snd s1)) of
               Inl e \<Rightarrow> (Inl (wrap_fault ''prometheus failure'' (Err e)), (s1, w))
             | Inr mfs \<Rightarrow> (Inr (), (s1, snd (Printf (round_header G i (scan_Name scan) @ families_text G (scan_Name scan) mfs) w)))))))"

text \<open>\<^verbatim>\<open>return scanner.Stop()\<close>.\<close>

definition scan_finish :: "('v, 'r, 'c) scan_host \<Rightarrow> (('cfg, 'v, 'r) scan_test, unit) op" where
  "scan_finish H = (\<lambda>((s, wt), w).
    (case sc_tail s of
       None \<Rightarrow> (Inr (), ((s, wt), w))
     | Some t \<Rightarrow> (case sh_tailStop H t of Some e \<Rightarrow> Inl (Err e) | None \<Rightarrow> Inr (), ((sc_Stop s, wt), w))))"

partial_function (option) scan_rounds :: "('v, 'r, 'c) scan_host \<Rightarrow> (('v, 'r) world, 'mf) gatherer \<Rightarrow> Scan \<Rightarrow> int \<Rightarrow> int
    \<Rightarrow> ('cfg, 'v, 'r) scan_test \<Rightarrow> (unit result \<times> ('cfg, 'v, 'r) scan_test) option" where
  [code]: "scan_rounds H G scan rounds i s =
    (if i \<le> rounds \<or> rounds = 0 then
       (case scan_round H G scan i s of
          (Inl e, s1) \<Rightarrow> Some (Inl e, s1)
        | (Inr _, s1) \<Rightarrow> scan_rounds H G scan rounds (wrap64 (i + 1)) s1)
     else Some (scan_finish H s))"

definition test_config :: ScanConfig where
  "test_config = \<lparr>scfg_Follow = False, scfg_FromBeginning = True, scfg_Poll = True\<rparr>"

definition scan_testCmd :: "('v, 'r, 'c) scan_host \<Rightarrow> (('v, 'r) world, 'mf) gatherer \<Rightarrow> ('cfg, 'cfg Store) cmd \<Rightarrow> int \<Rightarrow> string
    \<Rightarrow> ('cfg, 'v, 'r) proc \<times> tally \<Rightarrow> (unit result \<times> ('cfg, 'v, 'r) proc \<times> tally) option" where
  "scan_testCmd H G provide rounds name = (\<lambda>((w, pw), ec).
    (case provide w of
       None \<Rightarrow> None
     | Some (Inl e, w1) \<Rightarrow> Some (Inl e, ((w1, pw), ec))
     | Some (Inr st, w1) \<Rightarrow>
    (case Wrap (''unable to retrieve scan '' @ name) (st_GetScan st name w1) of
       (Inl e, w2) \<Rightarrow> Some (Inl e, ((w2, pw), ec))
     | (Inr None, w2) \<Rightarrow> Some (Inr (), ((snd (Printf (''Scan '' @ name @ '' not found'' @ [newline]) w2), pw), ec))
     | (Inr (Some scan), w2) \<Rightarrow>
    (case FromConfig (sh_libs H) (sh_compile H) scan test_config pw of
       (Inl e, pw1) \<Rightarrow> Some (Inl e, ((w2, pw1), ec))
     | (Inr s, pw1) \<Rightarrow> map_option (\<lambda>(r, ((s', pw2, ec'), w3)). (r, ((w3, pw2), ec')))
         (scan_rounds H G scan rounds 1 ((snd (sc_Start s), pw1, ec), w2))))))"

section \<open>Testing the histograms\<close>

text \<open>
  \<^verbatim>\<open>translator.Load\<close> on a store with state; \<open>tr_Load\<close> is the same function on the answers of the store.
\<close>

fun load_from :: "regexp_compile \<Rightarrow> (string \<Rightarrow> ('s, Histogram option) op) \<Rightarrow> string list \<Rightarrow> translator list \<Rightarrow> ('s, translator list) op" where
  "load_from compile get [] acc s = (Inr acc, s)"
| "load_from compile get (name # names) acc s = (case get name s of
      (Inl e, s1) \<Rightarrow> (Inl e, s1)
    | (Inr None, s1) \<Rightarrow> (Inl (Panic NilDereference), s1)
    | (Inr (Some h), s1) \<Rightarrow>
        (if hist_Enabled h
         then (case tr_New compile h of Inl e \<Rightarrow> (Inl e, s1) | Inr t \<Rightarrow> load_from compile get names (acc @ [t]) s1)
         else load_from compile get names acc s1))"

definition Load_from :: "regexp_compile \<Rightarrow> ('s, string list) op \<Rightarrow> (string \<Rightarrow> ('s, Histogram option) op) \<Rightarrow> ('s, translator list option) op" where
  "Load_from compile listing get = op_bind listing (\<lambda>names.
     if names = [] then op_return None else op_bind (load_from compile get names []) (\<lambda>ts. op_return (Some ts)))"

record 'x hist_host =
  hh_platform :: go_platform
  hh_network :: network
  hh_url :: url_Parse
  hh_compile :: regexp_compile
  hh_parse :: "string \<Rightarrow> go_error + 'x MetricFamily list"
  hh_text :: "('x, string) encoder"

text \<open>The command passes no TLS configuration.\<close>

definition no_tls :: tls_Config where
  "no_tls = \<lparr>tls_RootCAs = None, tls_hasCertificate = False\<rparr>"

definition hist_testCmd :: "'x hist_host \<Rightarrow> ('cfg, 'cfg Store) cmd \<Rightarrow> string \<Rightarrow> ('cfg, unit) cmd" where
  "hist_testCmd H provide endpoint w = (case provide w of
      None \<Rightarrow> None
    | Some (Inl e, w1) \<Rightarrow> Some (Inl (wrap_fault ''unable to retrieve histograms'' e), w1)
    | Some (Inr st, w1) \<Rightarrow>
   (case Wrap ''unable to retrieve histograms'' (Load_from (hh_compile H) (st_GetHistogramNames st) (st_GetHistogram st) w1) of
      (Inl e, w2) \<Rightarrow> Some (Inl e, w2)
    | (Inr ts, w2) \<Rightarrow>
        if ts = None \<or> ts = Some [] then Some (Inl (Err ''found no histograms''), w2)
        else (case NewWriter (hh_url H) endpoint no_tls ts of
           Inl e \<Rightarrow> Some (Inl (wrap_fault ''unable to collect metrics'' e), w2)
         | Inr wr \<Rightarrow> map_option (\<lambda>(r, out). (r, w2\<lparr>cli_out := out\<rparr>))
             (Copy (hh_platform H) (hh_network H) (hh_parse H) (hh_text H) wr (cli_out w2)))))"


section \<open>The registry during a run\<close>

lemma counterAdd_reg: "counterAdd L i n a x (c, w) = Inr (c', w') \<Longrightarrow> w_reg w' = w_reg w"
  by (auto simp: counterAdd_def upd_vec_def Let_def bind_result_def split: option.splits prod.splits sum.splits if_splits)

lemma collect_col_reg: "collect_col L a cv (c, w, cur) = Inr (c', w', cur') \<Longrightarrow> w_reg w' = w_reg w"
  by (auto simp: collect_col_def set_label_def gaugeSet_def upd_vec_def Let_def bind_result_Inr
      dest!: counterAdd_reg split: option.splits prod.splits vecref.splits dbvalue.splits sum.splits)

lemma collect_cols_reg: "collect_cols L a cvs (c, w, cur) = Inr (c', w', cur') \<Longrightarrow> w_reg w' = w_reg w"
proof (induction cvs arbitrary: c w cur)
  case (Cons x cvs)
  obtain c1 w1 cur1 where 1: "collect_col L a x (c, w, cur) = Inr (c1, w1, cur1)" "collect_cols L a cvs (c1, w1, cur1) = Inr (c', w', cur')"
    using Cons.prems by (auto simp: bind_result_Inr)
  show ?case using collect_col_reg[OF 1(1)] Cons.IH[OF 1(2)] by simp
qed simp

lemma collect_rows_reg: "collect_rows L db desc rows (c, w, cur) = Inr (c', w', cur') \<Longrightarrow> w_reg w' = w_reg w"
proof (induction rows arbitrary: c w cur)
  case (Cons r rows)
  show ?case
  proof (cases r)
    case (Inr vs)
    obtain c1 w1 cur1 where 1: "collect_cols L (length (w_slices w)) (zip desc vs) (c, w\<lparr>w_slices := w_slices w @ [new_labels c db]\<rparr>, cur) = Inr (c1, w1, cur1)"
        "collect_rows L db desc rows (c1, w1, cur1) = Inr (c', w', cur')"
      using Cons.prems by (auto simp: bind_result_Inr Inr)
    show ?thesis using collect_cols_reg[OF 1(1)] Cons.IH[OF 1(2)] by simp
  qed (use Cons in simp)
qed simp

lemma clear_gauge_reg: "w_reg (clear_gauge L c cur g t w) = w_reg w"
  unfolding clear_gauge_def
  by (induction t arbitrary: w) (auto simp: upd_vec_def split: option.splits vecref.splits)

lemma clearObsoleteGauges_reg: "clearObsoleteGauges L cur (c, w) = (c', w') \<Longrightarrow> w_reg w' = w_reg w"
proof -
  have "w_reg (fold (\<lambda>(g, t). clear_gauge L c cur g t) ts w) = w_reg w" for ts
    by (induction ts arbitrary: w) (auto simp: clear_gauge_reg)
  then show "clearObsoleteGauges L cur (c, w) = (c', w') \<Longrightarrow> w_reg w' = w_reg w" by (auto simp: clearObsoleteGauges_def)
qed

lemma collectLocked_reg: "collectLocked L ans db (c, w) = (r, (c', w')) \<Longrightarrow> w_reg w' = w_reg w"
  by (auto simp: collectLocked_def dest!: collect_rows_reg clearObsoleteGauges_reg split: option.splits sum.splits prod.splits if_splits)


section \<open>What the test of a collection prints\<close>

definition coll_section :: "(('v, 'r) world, 'mf) gatherer \<Rightarrow> string \<Rightarrow> Collection \<Rightarrow> int \<Rightarrow> ('v, 'r) world \<Rightarrow> string" where
  "coll_section G name coll i pw = round_header G i (coll_Name coll)
     @ (case g_Gather G i pw of Inr mfs \<Rightarrow> families_text G name mfs | Inl e \<Rightarrow> [])"

text \<open>
  The families of a round that are printed: for every gauge of the collector, the samples are the
  rows of the answer (a null leaves the value of the round before), and nothing else.
\<close>

definition gauge_now :: "('v, 'r, 'c) libs \<Rightarrow> 'c collector \<Rightarrow> string list \<Rightarrow> row list \<Rightarrow> string \<Rightarrow> (string list \<Rightarrow> float64 option) \<Rightarrow> string list \<Rightarrow> float64 option" where
  "gauge_now L c desc rows g old l = (if \<exists>vs \<in> set (decoded rows). row_labels c [] (zip desc vs) = l
     then gauge_rows c [] desc (decoded rows) g l (old l) else None)"

definition shows_result :: "('v, 'r, 'c) libs \<Rightarrow> (('v, 'r) world, 'mf) gatherer \<Rightarrow> 'c collector \<Rightarrow> string \<Rightarrow> answer \<Rightarrow> int
    \<Rightarrow> ('v, 'r) world \<Rightarrow> ('v, 'r) world \<Rightarrow> bool" where
  "shows_result L G c name ans i old pw = (\<exists>desc rows mfs. ans_query ans = Inr (desc, rows) \<and> g_Gather G i pw = Inr mfs
     \<and> (\<forall>g k. is_gauge c g k \<longrightarrow>
          (\<forall>mf \<in> set mfs. g_Name G mf = metricName c g \<longrightarrow> HasPrefix (g_Name G mf) name \<and> g_value G mf = gauge_now L c desc rows g (series L old k))
        \<and> ((\<exists>l. gauge_now L c desc rows g (series L old k) l \<noteq> None) \<longrightarrow> (\<exists>mf \<in> set mfs. g_Name G mf = metricName c g))))"

definition registered :: "('v, 'r, 'c) libs \<Rightarrow> 'c collector \<Rightarrow> ('v, 'r) world \<Rightarrow> bool" where
  "registered L c w = (\<forall>g k. is_gauge c g k \<longrightarrow> reg_lookup (lib_reg L) (w_reg w) (metricName c g) = Some k)"

definition gathers :: "('w, 'mf) gatherer \<Rightarrow> bool" where
  "gathers G = (\<forall>i w. \<exists>mfs. g_Gather G i w = Inr mfs)"

lemma maybeInitCache_cache: "\<exists>ca. maybeInitCache L c = c\<lparr>c_countersCache := ca\<rparr>"
proof (cases "c_countersCache c")
  case (Some x)
  then have "maybeInitCache L c = c\<lparr>c_countersCache := Some x\<rparr>" by (simp add: maybeInitCache_def)
  then show ?thesis by blast
qed (auto simp: maybeInitCache_def)

lemma config_cache [simp]:
  "is_gauge (c\<lparr>c_countersCache := ca\<rparr>) = is_gauge c" "row_labels (c\<lparr>c_countersCache := ca\<rparr>) = row_labels c"
  "usable (c\<lparr>c_countersCache := ca\<rparr>) = usable c" "gauge_rows (c\<lparr>c_countersCache := ca\<rparr>) = gauge_rows c"
  using config_irrelevant[where c = c and ca = ca and t = "c_gaugeLabels c"] usable_irrelevant[where c = c and ca = ca and t = "c_gaugeLabels c"]
  by (simp_all add: gauge_rows_def fun_eq_iff)

lemma config_later [simp]:
  "metricName (c\<lparr>c_countersCache := ca, c_gaugeLabels := t\<rparr>) = metricName c"
  "gauge_rows (c\<lparr>c_countersCache := ca, c_gaugeLabels := t\<rparr>) = gauge_rows c"
  "registered L (c\<lparr>c_countersCache := ca, c_gaugeLabels := t\<rparr>) = registered L c"
  "gauge_now L (c\<lparr>c_countersCache := ca, c_gaugeLabels := t\<rparr>) = gauge_now L c"
  "shows_result L G (c\<lparr>c_countersCache := ca, c_gaugeLabels := t\<rparr>) = shows_result L G c"
  by (simp_all add: metricName_def gauge_rows_def registered_def gauge_now_def shows_result_def fun_eq_iff)

lemma HasPrefix_metricName: "HasPrefix (metricName c g) (c_name c)"
  by (simp add: HasPrefix_def metricName_def)

text \<open>A collector between two rounds.\<close>

definition coll_ready :: "('v, 'r, 'c) libs \<Rightarrow> 'c collector \<Rightarrow> ('v, 'r) world \<Rightarrow> bool" where
  "coll_ready L c pw = (counters_inv L (maybeInitCache L c) pw \<and> gauges_inv L (maybeInitCache L c) pw \<and> registered L c pw
     \<and> c_databases c = [] \<and> c_enabled c \<and> \<not> c_locked c)"

lemma coll_round_shows:
  fixes L :: "('v, 'r, 'c) libs" and w :: "'cfg cli"
  assumes L: "libs_ok L" "gather_laws L G" "gathers G" and c: "coll_ready L c pw" and u: "usable c [] (snd (q i) 0)"
  shows "\<exists>ca t pw'. coll_round L G (Some q) (c_name c) coll i ((c, pw), w) = (Inr (),
      ((c\<lparr>c_countersCache := ca, c_gaugeLabels := t\<rparr>, pw'), w\<lparr>cli_out := cli_out w @ coll_section G (c_name c) coll i pw'\<rparr>))
    \<and> coll_ready L (c\<lparr>c_countersCache := ca, c_gaugeLabels := t\<rparr>) pw' \<and> shows_result L G c (c_name c) (snd (q i) 0) i pw pw'"
proof -
  obtain ca0 where c1: "maybeInitCache L c = c\<lparr>c_countersCache := ca0\<rparr>" using maybeInitCache_cache by blast
  let ?c1 = "c\<lparr>c_countersCache := ca0\<rparr>"
  have ci: "counters_inv L ?c1 pw" "gauges_inv L ?c1 pw" and rg: "registered L c pw" and fl: "c_databases c = []" "c_enabled c" "\<not> c_locked c"
    using c by (simp_all add: coll_ready_def c1)
  have "usable ?c1 [] (snd (q i) 0)" using u by simp
  then obtain desc rows where a: "ans_begin (snd (q i) 0) = None" "ans_use (snd (q i) 0) = None" "ans_query (snd (q i) 0) = Inr (desc, rows)"
      "ans_commit (snd (q i) 0) = None" "result_ok ?c1 [] desc rows"
    unfolding usable_def by blast
  obtain ca t pw' where run: "collectLocked L (snd (q i) 0) [] (?c1, pw) = (Inr (), (?c1\<lparr>c_countersCache := ca, c_gaugeLabels := t\<rparr>, pw'))"
      "counters_inv L (?c1\<lparr>c_countersCache := ca, c_gaugeLabels := t\<rparr>) pw'" "gauges_inv L (?c1\<lparr>c_countersCache := ca, c_gaugeLabels := t\<rparr>) pw'"
    and se: "\<And>g k l. is_gauge ?c1 g k \<Longrightarrow> series L pw' k l = (if \<exists>vs \<in> set (decoded rows). row_labels ?c1 [] (zip desc vs) = l
         then gauge_rows ?c1 [] desc (decoded rows) g l (series L pw k l) else None)"
    using collectLocked_run[OF L(1) ci a(5,1,2,3,4)] by blast
  let ?c' = "c\<lparr>c_countersCache := ca, c_gaugeLabels := t\<rparr>"
  have c': "?c1\<lparr>c_countersCache := ca, c_gaugeLabels := t\<rparr> = ?c'" by simp
  have reg: "w_reg pw' = w_reg pw" using collectLocked_reg[OF run(1)] .
  have ld: "list_databases ?c1 d = Inr [[]]" for d by (simp add: list_databases_def fl)
  have co: "Collect_on L (Some q) i (c, pw) = (Inr (), (?c', pw'))"
    using fl by (simp add: Collect_on_def Collect_def c1 ld op_bind_def run(1) Let_def)
  obtain mfs where mfs: "g_Gather G i pw' = Inr mfs" using L(3) unfolding gathers_def by blast
  have "coll_round L G (Some q) (c_name c) coll i ((c, pw), w) = (Inr (), ((?c', pw'), w\<lparr>cli_out := cli_out w @ coll_section G (c_name c) coll i pw'\<rparr>))"
    by (simp add: coll_round_def co mfs Printf_def coll_section_def Let_def)
  moreover have "maybeInitCache L ?c' = ?c'"
    using run(2) unfolding c' by (auto simp: maybeInitCache_def counters_inv_def)
  then have "coll_ready L ?c' pw'"
    using run(2,3) rg fl unfolding c' coll_ready_def by (simp add: registered_def reg)
  moreover have "shows_result L G c (c_name c) (snd (q i) 0) i pw pw'"
  proof -
    have s: "series L pw' k = gauge_now L c desc rows g (series L pw k)" if "is_gauge c g k" for g k
      using se[of g k] that by (simp add: gauge_now_def fun_eq_iff)
    have lk: "reg_lookup (lib_reg L) (w_reg pw') (metricName c g) = Some k" if "is_gauge c g k" for g k
      using rg that by (simp add: registered_def reg)
    have "(\<forall>mf \<in> set mfs. g_Name G mf = metricName c g \<longrightarrow> g_value G mf = series L pw' k)
        \<and> ((\<exists>l. series L pw' k l \<noteq> None) \<longrightarrow> (\<exists>mf \<in> set mfs. g_Name G mf = metricName c g))" if "is_gauge c g k" for g k
      using L(2) mfs lk[OF that] unfolding gather_laws_def by blast
    then show ?thesis unfolding shows_result_def using a(3) mfs s HasPrefix_metricName by (metis (mono_tags, lifting))
  qed
  ultimately show ?thesis by blast
qed


lemma wrap64_next: "1 \<le> i \<Longrightarrow> i < 2 ^ 63 - 1 \<Longrightarrow> wrap64 (i + 1) = i + 1"
  by (rule wrap64_id) simp_all

lemma coll_rounds_sections:
  fixes L :: "('v, 'r, 'c) libs" and w :: "'cfg cli"
  assumes L: "libs_ok L" "gather_laws L G" "gathers G" and d: "\<forall>i. g_done G i = None" and r: "0 < rounds" "rounds < 2 ^ 63 - 1"
  shows "coll_ready L c pw \<Longrightarrow> \<forall>i. usable c [] (snd (q i) 0) \<Longrightarrow> 1 \<le> i \<Longrightarrow> i + int n = rounds + 1 \<Longrightarrow>
    \<exists>pws c'. length pws = n
      \<and> coll_rounds L G (Some q) (c_name c) coll rounds i ((c, pw), w) = Some (Inr (), ((c', last (pw # pws)),
          w\<lparr>cli_out := cli_out w @ concat (map (\<lambda>j. coll_section G (c_name c) coll (i + int j) (pws ! j)) [0..<n])\<rparr>))
      \<and> (\<forall>j < n. shows_result L G c (c_name c) (snd (q (i + int j)) 0) (i + int j) ((pw # pws) ! j) (pws ! j))"
proof (induction n arbitrary: c pw w i)
  case 0
  then show ?case using r(1) by (subst coll_rounds.simps) simp
next
  case (Suc n)
  obtain ca t pw' where 1: "coll_round L G (Some q) (c_name c) coll i ((c, pw), w) = (Inr (),
      ((c\<lparr>c_countersCache := ca, c_gaugeLabels := t\<rparr>, pw'), w\<lparr>cli_out := cli_out w @ coll_section G (c_name c) coll i pw'\<rparr>))"
      "coll_ready L (c\<lparr>c_countersCache := ca, c_gaugeLabels := t\<rparr>) pw'" "shows_result L G c (c_name c) (snd (q i) 0) i pw pw'"
    using coll_round_shows[OF L Suc.prems(1), of q i coll w] Suc.prems(2) by blast
  let ?c = "c\<lparr>c_countersCache := ca, c_gaugeLabels := t\<rparr>" and ?w = "w\<lparr>cli_out := cli_out w @ coll_section G (c_name c) coll i pw'\<rparr>"
  have i: "i \<le> rounds" "wrap64 (i + 1) = i + 1" using Suc.prems(3,4) r(2) by (auto intro: wrap64_next)
  have "\<forall>i. usable ?c [] (snd (q i) 0)" "1 \<le> i + 1" "i + 1 + int n = rounds + 1" using Suc.prems by simp_all
  from Suc.IH[OF 1(2) this, of ?w] obtain pws c' where 2: "length pws = n"
      "coll_rounds L G (Some q) (c_name c) coll rounds (i + 1) ((?c, pw'), ?w) = Some (Inr (), ((c', last (pw' # pws)),
          ?w\<lparr>cli_out := cli_out ?w @ concat (map (\<lambda>j. coll_section G (c_name c) coll (i + 1 + int j) (pws ! j)) [0..<n])\<rparr>))"
      "\<forall>j < n. shows_result L G c (c_name c) (snd (q (i + 1 + int j)) 0) (i + 1 + int j) ((pw' # pws) ! j) (pws ! j)"
    by auto
  have st: "coll_rounds L G (Some q) (c_name c) coll rounds i ((c, pw), w) = coll_rounds L G (Some q) (c_name c) coll rounds (i + 1) ((?c, pw'), ?w)"
    using i d by (subst coll_rounds.simps) (simp add: 1(1))
  have "[0..<Suc n] = 0 # map Suc [0..<n]" by (simp add: map_Suc_upt upt_conv_Cons del: upt_Suc)
  then have out: "concat (map (\<lambda>j. coll_section G (c_name c) coll (i + int j) ((pw' # pws) ! j)) [0..<Suc n])
      = coll_section G (c_name c) coll i pw' @ concat (map (\<lambda>j. coll_section G (c_name c) coll (i + 1 + int j) (pws ! j)) [0..<n])"
    by (simp add: comp_def algebra_simps del: upt_Suc)
  have sh: "\<forall>j < Suc n. shows_result L G c (c_name c) (snd (q (i + int j)) 0) (i + int j) ((pw # pw' # pws) ! j) ((pw' # pws) ! j)"
    using 1(3) 2(3) by (auto simp: less_Suc_eq_0_disj algebra_simps)
  show ?case
    by (intro exI[of _ "pw' # pws"] exI[of _ c']) (use st 2(1,2) out sh in simp)
qed

lemma coll_rounds_forever:
  fixes L :: "('v, 'r, 'c) libs" and w :: "'cfg cli"
  assumes L: "libs_ok L" "gather_laws L G" "gathers G" and d: "\<forall>i. g_done G i = None"
    and c: "coll_ready L c pw" "\<forall>i. usable c [] (snd (q i) 0)"
  shows "coll_rounds L G (Some q) (c_name c) coll 0 i ((c, pw), w) = None"
proof (cases "coll_rounds L G (Some q) (c_name c) coll 0 i ((c, pw), w)")
  case (Some y)
  let ?ok = "\<lambda>s. coll_ready L (fst (fst s)) (snd (fst s)) \<and> (\<forall>i. usable (fst (fst s)) [] (snd (q i) 0))"
  have "\<not> (L = L \<and> G = G \<and> Some q = Some q \<and> (0 :: int) = 0 \<and> c_name c = c_name (fst (fst ((c, pw), w))) \<and> ?ok ((c, pw), w))"
  proof (rule coll_rounds.raw_induct[where P = "\<lambda>L' G' conn name coll rounds i s y.
      \<not> (L' = L \<and> G' = G \<and> conn = Some q \<and> rounds = 0 \<and> name = c_name (fst (fst s)) \<and> ?ok s)", OF _ Some], rule notI, elim conjE)
    fix rec L' G' conn name coll rounds i y and s :: "('cfg, 'v, 'r, 'c) coll_test"
    assume IH: "\<And>L' G' conn name coll rounds i s y. rec L' G' conn name coll rounds i s = Some y \<Longrightarrow>
        \<not> (L' = L \<and> G' = G \<and> conn = Some q \<and> rounds = 0 \<and> name = c_name (fst (fst s)) \<and> ?ok s)"
      and st: "(if i \<le> rounds \<or> rounds = 0 then (case (if i > 1 then g_done G' i else None) of Some e \<Rightarrow> Some (Inl (Err e), s)
         | None \<Rightarrow> (case coll_round L' G' conn name coll i s of (Inl e, s1) \<Rightarrow> Some (Inl e, s1)
             | (Inr _, s1) \<Rightarrow> rec L' G' conn name coll rounds (wrap64 (i + 1)) s1)) else Some (Inr (), s)) = Some y"
      and e: "L' = L" "G' = G" "conn = Some q" "rounds = 0" "name = c_name (fst (fst s))"
      and ok: "coll_ready L (fst (fst s)) (snd (fst s))" "\<forall>i. usable (fst (fst s)) [] (snd (q i) 0)"
    obtain c pw w where s: "s = ((c, pw), w)" by (metis surj_pair)
    obtain ca t pw' w' where r: "coll_round L G (Some q) (c_name c) coll i ((c, pw), w) = (Inr (), ((c\<lparr>c_countersCache := ca, c_gaugeLabels := t\<rparr>, pw'), w'))"
        "coll_ready L (c\<lparr>c_countersCache := ca, c_gaugeLabels := t\<rparr>) pw'"
      using coll_round_shows[OF L, of c pw q i coll w] ok by (auto simp: s)
    have "rec L G (Some q) (c_name c) coll 0 (wrap64 (i + 1)) ((c\<lparr>c_countersCache := ca, c_gaugeLabels := t\<rparr>, pw'), w') = Some y"
      using st[unfolded e s] d r(1) by (cases "1 < i") simp_all
    from IH[OF this] r(2) ok(2) show False by (simp add: s)
  qed
  then show ?thesis using c by simp
qed


lemma FromCollection_ready:
  fixes L :: "('v, 'r, 'c) libs"
  assumes "libs_ok L" "FromCollection L coll pw = (Inr c, pw1)" "coll_Databases coll = []"
    "\<forall>x \<in> set (coll_Metrics coll). valid_utf8 (metric_Name x)" "distinct (map metric_Name (coll_Metrics coll))"
  shows "coll_ready L c pw1 \<and> c_name c = coll_Name coll"
proof -
  note F = FromCollection_fresh[OF assms(1,2,4,5)]
  then have f: "fresh_collector L c pw1" by blast
  then have "registered L c pw1" by (auto simp: registered_def fresh_collector_def is_gauge_def vec_index_def)
  then show ?thesis using F assms(3) maybeInitCache_fresh(1,2)[OF assms(1) f] by (simp add: coll_ready_def)
qed

lemma ProvideReadOnlyConnection_up:
  assumes "db_up D URL" "\<not> env_testing E"
  shows "\<exists>E' p d. ProvideReadOnlyConnection E D conns URL unsafe w = Some (Inr (E', Some (conns p)), w\<lparr>cli_db := d\<rparr>)"
  using ReadOnly_up[OF assms(1), of unsafe "cli_db w"] assms(2) by (auto simp: ProvideReadOnlyConnection_def)

text \<open>What is left of the command when the database is up and holds the collection.\<close>

lemma coll_testCmd_rounds:
  fixes L :: "('v, 'r, 'c) libs" and w :: "'cfg cli"
  assumes up: "db_up D URL" "\<not> env_testing E" and h: "sql_healthy (cli_conn w)" "sql_coll (cli_conn w) name = Some coll"
    and fc: "FromCollection L coll pw = (Inr c, pw1)"
  shows "\<exists>p d. coll_testCmd L G E D conns lease_Init URL unsafe rounds name (w, pw)
    = map_option (\<lambda>(r, ((c', pw2), w4)). (r, (w4, pw2))) (coll_rounds L G (Some (conns p)) name coll rounds 1 ((c, pw1), w\<lparr>cli_db := d\<rparr>))"
proof -
  obtain d1 where 1: "ProvideStore E D lease_Init URL w = Some (Inr (sql_store lease_Init), w\<lparr>cli_db := d1\<rparr>)"
    using ProvideStore_sql[OF up] by blast
  obtain E' p d2 where 2: "ProvideReadOnlyConnection E D conns URL unsafe (w\<lparr>cli_db := d1\<rparr>) = Some (Inr (E', Some (conns p)), w\<lparr>cli_db := d1, cli_db := d2\<rparr>)"
    using ProvideReadOnlyConnection_up[OF up] by blast
  have 3: "st_GetCollection (sql_store lease_Init) name (w\<lparr>cli_db := d\<rparr>) = (Inr (Some coll), w\<lparr>cli_db := d\<rparr>)" for d
    using h by (simp add: sql_store_def on_conn_def sql_get_state)
  show ?thesis by (intro exI[of _ p] exI[of _ d2]) (simp add: coll_testCmd_def 1 2 3 Wrap_def fc)
qed

text \<open>
  C18: \<^verbatim>\<open>collection test\<close> shows the result of the query.  On a database that is up and holds the
  collection, without a list of databases, if the collector can be built, every run of the query
  succeeds with a usable result and the context is not cancelled, then with a positive count the
  command returns without an error after exactly that many rounds; it prints one section for each
  round, and in the section of a round the samples of every gauge of the collection are the rows of
  the query of that round.  With a count of zero it never returns.
\<close>

theorem coll_test_shows:
  fixes L :: "('v, 'r, 'c) libs" and w :: "'cfg cli"
  assumes up: "db_up D URL" "\<not> env_testing E" and h: "sql_healthy (cli_conn w)" "sql_coll (cli_conn w) name = Some coll"
    and L: "libs_ok L" "gather_laws L G" "gathers G" and d: "\<forall>i. g_done G i = None"
    and fc: "FromCollection L coll pw = (Inr c, pw1)" "coll_Databases coll = []"
      "\<forall>x \<in> set (coll_Metrics coll). valid_utf8 (metric_Name x)" "distinct (map metric_Name (coll_Metrics coll))"
    and u: "\<forall>p i. usable c [] (snd (conns p i) 0)"
  shows "(0 < rounds \<and> rounds < 2 ^ 63 - 1 \<longrightarrow> (\<exists>p pws w'. length pws = nat rounds
      \<and> coll_testCmd L G E D conns lease_Init URL unsafe rounds name (w, pw) = Some (Inr (), (w', last pws))
      \<and> cli_out w' = cli_out w @ concat (map (\<lambda>j. coll_section G name coll (1 + int j) (pws ! j)) [0..<nat rounds])
      \<and> (\<forall>j < nat rounds. shows_result L G c name (snd (conns p (1 + int j)) 0) (1 + int j) ((pw1 # pws) ! j) (pws ! j))))
    \<and> (rounds = 0 \<longrightarrow> coll_testCmd L G E D conns lease_Init URL unsafe rounds name (w, pw) = None)"
proof (intro conjI impI)
  have n: "coll_Name coll = name" using h(2) by (auto simp: sql_coll_def)
  have c: "coll_ready L c pw1" "c_name c = name" using FromCollection_ready[OF L(1) fc] n by simp_all
  obtain p d0 where t: "coll_testCmd L G E D conns lease_Init URL unsafe rounds name (w, pw)
      = map_option (\<lambda>(r, ((c', pw2), w4)). (r, (w4, pw2))) (coll_rounds L G (Some (conns p)) name coll rounds 1 ((c, pw1), w\<lparr>cli_db := d0\<rparr>))"
    using coll_testCmd_rounds[OF up h fc(1)] by blast
  have up': "\<forall>i. usable c [] (snd (conns p i) 0)" using u by blast
  {
    assume r: "0 < rounds \<and> rounds < 2 ^ 63 - 1"
    then obtain pws c' where "length pws = nat rounds"
        "coll_rounds L G (Some (conns p)) name coll rounds 1 ((c, pw1), w\<lparr>cli_db := d0\<rparr>) = Some (Inr (), ((c', last (pw1 # pws)),
          w\<lparr>cli_db := d0, cli_out := cli_out w @ concat (map (\<lambda>j. coll_section G name coll (1 + int j) (pws ! j)) [0..<nat rounds])\<rparr>))"
        "\<forall>j < nat rounds. shows_result L G c name (snd (conns p (1 + int j)) 0) (1 + int j) ((pw1 # pws) ! j) (pws ! j)"
      using coll_rounds_sections[OF L d _ _ c(1) up', of rounds 1 "nat rounds" coll "w\<lparr>cli_db := d0\<rparr>"] by (auto simp: c(2))
    moreover from this(1) have "last (pw1 # pws) = last pws" using r by auto
    ultimately show "\<exists>p pws w'. length pws = nat rounds
        \<and> coll_testCmd L G E D conns lease_Init URL unsafe rounds name (w, pw) = Some (Inr (), (w', last pws))
        \<and> cli_out w' = cli_out w @ concat (map (\<lambda>j. coll_section G name coll (1 + int j) (pws ! j)) [0..<nat rounds])
        \<and> (\<forall>j < nat rounds. shows_result L G c name (snd (conns p (1 + int j)) 0) (1 + int j) ((pw1 # pws) ! j) (pws ! j))"
      by (intro exI[of _ p] exI[of _ pws]) (simp add: t)
  next
    assume "rounds = 0"
    then show "coll_testCmd L G E D conns lease_Init URL unsafe rounds name (w, pw) = None"
      unfolding t using coll_rounds_forever[OF L d c(1) up', of coll 1 "w\<lparr>cli_db := d0\<rparr>"] by (simp add: c(2))
  }
qed

text \<open>A gatherer for the list registry, and a database with a collection.\<close>

definition list_gatherer :: "((list_vec, list_reg) world, string \<times> (string list, float64) gomap) gatherer" where
  "list_gatherer = \<lparr>g_Gather = (\<lambda>i w. Inr (map (\<lambda>(n, k). (n, lv_series (w_vecs w ! k))) (AList.clearjunk (lr_live (w_reg w))))),
     g_Name = fst, g_value = (\<lambda>mf. map_of (snd mf)), g_Text = (\<lambda>mf. fst mf @ [newline]), g_stamp = (\<lambda>i. ''now''), g_done = (\<lambda>i. None)\<rparr>"

lemma list_gatherer_ok: "gather_laws ref_libs list_gatherer" "gathers list_gatherer" "\<forall>i. g_done list_gatherer i = None"
proof -
  have m: "(n, k) \<in> set (AList.clearjunk m) \<longleftrightarrow> map_of m n = Some k" for n k and m :: "(string, nat) gomap"
    by (metis distinct_clearjunk map_of_clearjunk map_of_eq_Some_iff)
  let ?fs = "\<lambda>w. (\<lambda>(n, k). (n, lv_series (w_vecs w ! k))) ` set (AList.clearjunk (lr_live (w_reg w)))"
  have s: "series ref_libs w k = map_of (lv_series (w_vecs w ! k))" for w k by (simp add: series_def ref_libs_def list_vec_api_def fun_eq_iff)
  have v: "map_of (snd mf) = series ref_libs w k" if "mf \<in> ?fs w" "map_of (lr_live (w_reg w)) (fst mf) = Some k" for w mf k
    using that by (auto simp: m s)
  have n: "\<exists>mf \<in> ?fs w. fst mf = n" if "map_of (lr_live (w_reg w)) n = Some k" for w n k
    using that by (intro bexI[of _ "(n, lv_series (w_vecs w ! k))"]) (auto simp: m image_iff intro!: bexI[of _ "(n, k)"])
  have l: "reg_lookup (lib_reg ref_libs) = (\<lambda>r. map_of (lr_live r))" by (simp add: ref_libs_def list_reg_api_def)
  have g: "g_Gather list_gatherer i w = Inr mfs \<Longrightarrow> set mfs = ?fs w" "g_Name list_gatherer = fst" "g_value list_gatherer mf = map_of (snd mf)" for i w mfs mf
    by (auto simp: list_gatherer_def)
  show "gather_laws ref_libs list_gatherer"
    unfolding gather_laws_def l g(2,3)
  proof (intro allI impI conjI ballI)
    fix i w mfs name k mf
    assume 1: "g_Gather list_gatherer i w = Inr mfs" "map_of (lr_live (w_reg w)) name = Some k"
    then show "\<exists>mf \<in> set mfs. fst mf = name" using n g(1) by simp
    show "map_of (snd mf) = series ref_libs w k" if "mf \<in> set mfs" "fst mf = name" using that 1 v[of mf w k] g(1) by simp
  qed
qed (simp_all add: gathers_def list_gatherer_def)

definition ex_test_conn :: conn where
  "ex_test_conn = snd (sql_PutCollection (ex_sessions []) (ex_conn\<lparr>conn_now := 0\<rparr>))"

lemma ex_test_conn_ok: "sql_healthy ex_test_conn" "sql_coll ex_test_conn ''sessions'' = Some (ex_sessions [])"
proof -
  have h: "sql_healthy (ex_conn\<lparr>conn_now := 0\<rparr>)" using ex_conn_ok(2) by (simp add: sql_healthy_def orders_ok_def)
  have "coll_storable (ex_sessions [])" by (simp add: coll_storable_def ex_sessions_def Counter_def Gauge_def)
  from sql_collections.put_content[OF h this] obtain c' where c': "as_update (sql_PutCollection (ex_sessions [])) (ex_conn\<lparr>conn_now := 0\<rparr>) = Inr c'"
      "sql_healthy c'" "sql_coll c' = (sql_coll (ex_conn\<lparr>conn_now := 0\<rparr>))(coll_Name (ex_sessions []) \<mapsto> coll_shown (ex_conn\<lparr>conn_now := 0\<rparr>) (ex_sessions []))"
    by blast
  then have "ex_test_conn = c'" by (auto simp: ex_test_conn_def as_update_Inr)
  moreover have "coll_shown (ex_conn\<lparr>conn_now := 0\<rparr>) (ex_sessions []) = ex_sessions []"
    by (simp add: coll_shown_def ex_conn_def ex_sessions_def)
  moreover have "coll_Name (ex_sessions []) = ''sessions''" by (simp add: ex_sessions_def)
  ultimately show "sql_healthy ex_test_conn" "sql_coll ex_test_conn ''sessions'' = Some (ex_sessions [])" using c' by simp_all
qed

theorem coll_test_shows_witness:
  "\<exists>w' pw'. coll_testCmd ref_libs list_gatherer (Default ([], None)) ex_up (\<lambda>p i. (Inr ([], None), \<lambda>n. ex_answer [(''cli'', 3, 7), (''web'', 5, 9)]))
      (\<lambda>c. (Inr (), c)) ''u'' False 1 ''sessions'' (ex_cli\<lparr>cli_conn := ex_test_conn\<rparr>, ex_world) = Some (Inr (), (w', pw'))
    \<and> coll_testCmd ref_libs list_gatherer (Default ([], None)) ex_up (\<lambda>p i. (Inr ([], None), \<lambda>n. ex_answer [(''cli'', 3, 7), (''web'', 5, 9)]))
      (\<lambda>c. (Inr (), c)) ''u'' False 0 ''sessions'' (ex_cli\<lparr>cli_conn := ex_test_conn\<rparr>, ex_world) = None"
proof -
  let ?w = "ex_cli\<lparr>cli_conn := ex_test_conn\<rparr>"
  have w: "sql_healthy (cli_conn ?w)" "sql_coll (cli_conn ?w) ''sessions'' = Some (ex_sessions [])" using ex_test_conn_ok by simp_all
  have s: "coll_Databases (ex_sessions []) = []" "\<forall>x \<in> set (coll_Metrics (ex_sessions [])). valid_utf8 (metric_Name x)"
      "distinct (map metric_Name (coll_Metrics (ex_sessions [])))" by (simp_all add: ex_sessions_def byte_def)
  obtain ca where ca: "ex_c1 [] = (ex_c [])\<lparr>c_countersCache := ca\<rparr>" using maybeInitCache_cache by blast
  have "usable (ex_c1 []) [] (ex_answer [(''cli'', 3, 7), (''web'', 5, 9)])"
    using ex_result_ok by (simp add: usable_def ex_answer_def)
  then have u: "usable (ex_c []) [] (ex_answer [(''cli'', 3, 7), (''web'', 5, 9)])" by (simp add: ca)
  have e: "\<not> env_testing (Default ([], None) :: ro_conn Env)" by (simp add: Default_def)
  note T = coll_test_shows[where conns = "\<lambda>p i. (Inr ([], None), \<lambda>n. ex_answer [(''cli'', 3, 7), (''web'', 5, 9)])" and lease_Init = "\<lambda>c. (Inr (), c)"
      and unsafe = False, OF ex_up_ok[of "''u''"] e w ref_libs_ok list_gatherer_ok ex_c_eq s]
  show ?thesis using T[of 1] T[of 0] u by auto
qed


section \<open>What the test of the histograms prints\<close>

lemma load_from_each:
  assumes "\<And>n. n \<in> set ns \<Longrightarrow> get n s = (Inr (g n), s)"
  shows "load_from compile get ns acc s = (load_each compile (\<lambda>n. Inr (g n)) ns acc, s)"
  using assms by (induction ns arbitrary: acc) (auto split: option.splits sum.splits)

lemma Load_from_loads:
  assumes "listing s = (Inr ns, s)" "\<And>n. n \<in> set ns \<Longrightarrow> get n s = (Inr (g n), s)"
  shows "Load_from compile listing get s = (tr_Load compile (Inr ns) (\<lambda>n. Inr (g n)), s)"
  by (auto simp: Load_from_def op_bind_def assms(1) load_from_each[where get = get and g = g, OF assms(2)] tr_Load_def bind_result_def split: sum.splits)

lemma sql_Load:
  assumes "sql_healthy (cli_conn w)"
    and c: "\<forall>n h. sql_hist (cli_conn w) n = Some h \<longrightarrow> hist_Enabled h \<longrightarrow> (\<exists>m. compile (hist_Regex h) = Inr m)"
  obtains ts where "Load_from compile (st_GetHistogramNames (sql_store lease_Init)) (st_GetHistogram (sql_store lease_Init)) w
      = (Inr (if dom (sql_hist (cli_conn w)) = {} then None else Some ts), w)"
    "distinct (map tr_histogram ts)" "set (map tr_histogram ts) = {h. \<exists>n. sql_hist (cli_conn w) n = Some h \<and> hist_Enabled h}"
    "\<forall>t \<in> set ts. compile (hist_Regex (tr_histogram t)) = Inr (tr_include t)"
proof -
  let ?c = "cli_conn w"
  obtain ns where q: "as_query sql_GetHistogramNames ?c = Inr ns" and ns: "distinct ns" "set ns = dom (sql_hist ?c)"
    using sql_histograms.names_content[OF assms(1)] by blast
  have 1: "st_GetHistogramNames (sql_store lease_Init) w = (Inr ns, w)"
    using as_query_state[OF q] sql_names_state[OF assms(1)] by (simp add: sql_store_def on_conn_def)
  have 2: "st_GetHistogram (sql_store lease_Init) n w = (Inr (sql_hist ?c n), w)" for n
    by (simp add: sql_store_def on_conn_def sql_get_state[OF assms(1)])
  have "\<forall>n \<in> set ns. \<exists>h. (Inr (sql_hist ?c n) :: go_error + Histogram option) = Inr (Some h) \<and> (hist_Enabled h \<longrightarrow> (\<exists>m. compile (hist_Regex h) = Inr m))"
    using c ns(2) by (auto simp: dom_def)
  from load_each_correct[OF this, of "[]"] obtain ts where ts: "load_each compile (\<lambda>n. Inr (sql_hist ?c n)) ns [] = Inr ts"
      "map tr_histogram ts = filter hist_Enabled (map (\<lambda>n. the (sql_hist ?c n)) ns)"
      "\<forall>t \<in> set ts. compile (hist_Regex (tr_histogram t)) = Inr (tr_include t)" by auto
  have "Load_from compile (st_GetHistogramNames (sql_store lease_Init)) (st_GetHistogram (sql_store lease_Init)) w
      = (Inr (if dom (sql_hist ?c) = {} then None else Some ts), w)"
    by (subst Load_from_loads[where g = "sql_hist ?c" and get = "st_GetHistogram (sql_store lease_Init)" and listing = "st_GetHistogramNames (sql_store lease_Init)" and s = w, OF 1 2]) (simp add: tr_Load_def ts(1) ns(2)[symmetric])
  moreover have "set (map tr_histogram ts) = {h. \<exists>n. sql_hist ?c n = Some h \<and> hist_Enabled h}"
    unfolding ts(2) using ns(2) by (auto simp: dom_def image_iff)
  moreover have "inj_on (\<lambda>n. the (sql_hist ?c n)) (set ns)" unfolding ns(2) by (auto simp: inj_on_def sql_hist_def)
  then have "distinct (map tr_histogram ts)" unfolding ts(2) using ns(1) by (simp add: distinct_map)
  ultimately show ?thesis using that ts(3) by blast
qed

lemma NewWriter_translators:
  "NewWriter parse URL tls None = Inr wr \<Longrightarrow> NewWriter parse URL tls ts = Inr (wr\<lparr>wr_translators := ts\<rparr>)"
  by (auto simp: NewWriter_def newWriter_def split: sum.splits if_splits)

text \<open>
  C19: \<^verbatim>\<open>histogram test\<close> shows the effect of the stored definitions.  On a database that is up, if the
  enabled definitions have valid expressions and the endpoint can be read, the translators are
  those of exactly the enabled definitions.  If there is none, also when every definition is
  disabled, the command fails and prints nothing; otherwise it prints the families of the endpoint
  with every histogram replaced by its rewritings.
\<close>

theorem hist_test_preview:
  fixes w :: "'cfg cli" and H :: "'x hist_host"
  assumes up: "db_up D URL" "\<not> env_testing E" and h: "sql_healthy (cli_conn w)"
    and c: "\<forall>n h. sql_hist (cli_conn w) n = Some h \<longrightarrow> hist_Enabled h \<longrightarrow> (\<exists>m. hh_compile H (hist_Regex h) = Inr m)"
    and src: "NewWriter (hh_url H) endpoint no_tls None = Inr wr" "open_source (hh_network H) (wr_open wr) = Inr body" "hh_parse H body = Inr mfs"
    and enc: "hh_text H = (\<lambda>m out. Inr (out @ render m))"
  shows "\<exists>ts d. distinct (map tr_histogram ts) \<and> set (map tr_histogram ts) = {h. \<exists>n. sql_hist (cli_conn w) n = Some h \<and> hist_Enabled h}
    \<and> (\<forall>t \<in> set ts. hh_compile H (hist_Regex (tr_histogram t)) = Inr (tr_include t))
    \<and> (ts = [] \<longrightarrow> hist_testCmd H (ProvideStore E D lease_Init URL) endpoint w = Some (Inl (Err ''found no histograms''), w\<lparr>cli_db := d\<rparr>))
    \<and> (ts \<noteq> [] \<longrightarrow> (\<forall>ls. list_all2 (\<lambda>mf l. written (hh_platform H) (Some ts) mf = Some (Inr l)) mfs ls \<longrightarrow>
         hist_testCmd H (ProvideStore E D lease_Init URL) endpoint w
           = Some (Inr (), w\<lparr>cli_db := d, cli_out := cli_out w @ concat (map render (concat ls))\<rparr>)))"
proof -
  obtain d where d: "ProvideStore E D lease_Init URL w = Some (Inr (sql_store lease_Init), w\<lparr>cli_db := d\<rparr>)"
    using ProvideStore_sql[OF up] by blast
  let ?w = "w\<lparr>cli_db := d\<rparr>"
  have h': "sql_healthy (cli_conn ?w)" using h by simp
  obtain ts where ts: "Load_from (hh_compile H) (st_GetHistogramNames (sql_store lease_Init)) (st_GetHistogram (sql_store lease_Init)) ?w
      = (Inr (if dom (sql_hist (cli_conn w)) = {} then None else Some ts), ?w)"
      "distinct (map tr_histogram ts)" "set (map tr_histogram ts) = {h. \<exists>n. sql_hist (cli_conn w) n = Some h \<and> hist_Enabled h}"
      "\<forall>t \<in> set ts. hh_compile H (hist_Regex (tr_histogram t)) = Inr (tr_include t)"
    using sql_Load[OF h', of "hh_compile H" lease_Init] c by auto
  have out: "fold (\<lambda>m out. out @ render m) l o1 = o1 @ concat (map render l)" for l o1 by (induction l arbitrary: o1) simp_all
  have "ts = [] \<Longrightarrow> hist_testCmd H (ProvideStore E D lease_Init URL) endpoint w = Some (Inl (Err ''found no histograms''), ?w)"
    by (simp add: hist_testCmd_def d ts(1) Wrap_def)
  moreover have "hist_testCmd H (ProvideStore E D lease_Init URL) endpoint w = Some (Inr (), ?w\<lparr>cli_out := cli_out w @ concat (map render (concat ls))\<rparr>)"
    if "ts \<noteq> []" "list_all2 (\<lambda>mf l. written (hh_platform H) (Some ts) mf = Some (Inr l)) mfs ls" for ls
  proof -
    have "dom (sql_hist (cli_conn w)) \<noteq> {}" using ts(3) that(1) by auto
    then show ?thesis using that(1) copy_families_written[OF that(2), of "\<lambda>m out. out @ render m"] src
      by (simp add: hist_testCmd_def d ts(1) Wrap_def NewWriter_translators[OF src(1)] Copy_def GetTranslators_def enc out)
  qed
  ultimately show ?thesis using ts(2-4) by (intro exI[of _ ts] exI[of _ d]) simp
qed

definition ex_hist_host :: "unit hist_host" where
  "ex_hist_host = \<lparr>hh_platform = exact_platform, hh_network = ex_network, hh_url = (\<lambda>u. Inr \<lparr>url_Scheme = ''file'', url_Path = ''f''\<rparr>),
     hh_compile = (\<lambda>r. Inr (\<lambda>s. s = ''lat'')), hh_parse = (\<lambda>b. Inr [ex_family ''up'' GAUGE, ex_family ''lat'' HISTOGRAM, ex_family ''size'' HISTOGRAM]),
     hh_text = (\<lambda>m out. Inr (out @ mf_Name m @ [newline]))\<rparr>"

definition ex_hist_conn :: conn where
  "ex_hist_conn = snd (sql_PutHistogram ex_hist ex_conn)"

lemma ex_hist_conn_ok: "sql_healthy ex_hist_conn" "sql_hist ex_hist_conn = [hist_Name ex_hist \<mapsto> ex_hist\<lparr>hist_Enabled := True, hist_LastModified := 100\<rparr>]"
proof -
  have e: "sql_hist ex_conn = Map.empty" by (simp add: fun_eq_iff sql_hist_def ex_conn_def empty_db_def)
  from sql_histograms.put_content[OF ex_conn_ok(2), of ex_hist] obtain c' where c': "as_update (sql_PutHistogram ex_hist) ex_conn = Inr c'" "sql_healthy c'"
      "sql_hist c' = (sql_hist ex_conn)(hist_Name ex_hist \<mapsto> hist_shown ex_conn ex_hist)" by blast
  then have "ex_hist_conn = c'" by (auto simp: ex_hist_conn_def as_update_Inr)
  moreover have "hist_shown ex_conn ex_hist = ex_hist\<lparr>hist_Enabled := True, hist_LastModified := 100\<rparr>"
    by (simp add: hist_shown_def e) (simp add: ex_conn_def)
  ultimately show "sql_healthy ex_hist_conn" "sql_hist ex_hist_conn = [hist_Name ex_hist \<mapsto> ex_hist\<lparr>hist_Enabled := True, hist_LastModified := 100\<rparr>]"
    using c' e by simp_all
qed

theorem hist_test_preview_witness:
  "\<exists>w'. hist_testCmd ex_hist_host (ProvideStore ex_env ex_up (\<lambda>c. (Inr (), c)) ''u'') ''e'' (ex_cli\<lparr>cli_conn := ex_hist_conn\<rparr>) = Some (Inr (), w')
    \<and> cli_out w' = ''up'' @ [newline] @ ''lat'' @ [newline]"
proof -
  let ?w = "ex_cli\<lparr>cli_conn := ex_hist_conn\<rparr>" and ?mfs = "[ex_family ''up'' GAUGE, ex_family ''lat'' HISTOGRAM, ex_family ''size'' HISTOGRAM]"
  let ?h = "ex_hist\<lparr>hist_Enabled := True, hist_LastModified := 100\<rparr>"
  let ?wr = "\<lparr>wr_open = FileSource ''f'', wr_translators = None\<rparr>"
  have s: "NewWriter (hh_url ex_hist_host) ''e'' no_tls None = Inr ?wr" "open_source (hh_network ex_hist_host) (wr_open ?wr) = Inr ''body''"
      "hh_parse ex_hist_host ''body'' = Inr ?mfs" "hh_text ex_hist_host = (\<lambda>m out. Inr (out @ mf_Name m @ [newline]))"
    by (simp_all add: ex_hist_host_def NewWriter_def newWriter_def open_source_def ex_network_def)
  have h: "sql_healthy (cli_conn ?w)" "\<not> env_testing ex_env" "\<forall>n h. sql_hist (cli_conn ?w) n = Some h \<longrightarrow> hist_Enabled h \<longrightarrow> (\<exists>m. hh_compile ex_hist_host (hist_Regex h) = Inr m)"
    using ex_hist_conn_ok(1) by (simp_all add: ex_env_def Default_def ex_hist_host_def)
  obtain ts d where ts: "distinct (map tr_histogram ts)" "set (map tr_histogram ts) = {h. \<exists>n. sql_hist (cli_conn ?w) n = Some h \<and> hist_Enabled h}"
      "\<forall>t \<in> set ts. hh_compile ex_hist_host (hist_Regex (tr_histogram t)) = Inr (tr_include t)"
      "ts \<noteq> [] \<longrightarrow> (\<forall>ls. list_all2 (\<lambda>mf l. written (hh_platform ex_hist_host) (Some ts) mf = Some (Inr l)) ?mfs ls \<longrightarrow>
         hist_testCmd ex_hist_host (ProvideStore ex_env ex_up (\<lambda>c. (Inr (), c)) ''u'') ''e'' ?w
           = Some (Inr (), ?w\<lparr>cli_db := d, cli_out := cli_out ?w @ concat (map (\<lambda>m. mf_Name m @ [newline]) (concat ls))\<rparr>))"
    using hist_test_preview[OF ex_up_ok[of "''u''"] h(2,1,3) s, of "\<lambda>c. (Inr (), c)"] by blast
  have "set (map tr_histogram ts) = {?h}" unfolding ts(2) by (auto simp: ex_hist_conn_ok(2) split: if_splits)
  then obtain t where t: "ts = [t]" using ts(1) by (cases ts; cases "tl ts") auto
  have i: "tr_include t = (\<lambda>s. s = ''lat'')" using ts(3) by (simp add: t ex_hist_host_def)
  let ?ls = "[[ex_family ''up'' GAUGE], [ex_family ''lat'' HISTOGRAM], []]"
  have "list_all2 (\<lambda>mf l. written (hh_platform ex_hist_host) (Some ts) mf = Some (Inr l)) ?mfs [[ex_family ''up'' GAUGE], [ex_family ''lat'' HISTOGRAM], []]"
    by (simp add: t written_def i ex_family_def translate_def)
  then have "hist_testCmd ex_hist_host (ProvideStore ex_env ex_up (\<lambda>c. (Inr (), c)) ''u'') ''e'' ?w
      = Some (Inr (), ?w\<lparr>cli_db := d, cli_out := cli_out ?w @ concat (map (\<lambda>m. mf_Name m @ [newline]) (concat ?ls))\<rparr>)"
    using ts(4) t by blast
  then show ?thesis by (auto simp: ex_family_def ex_cli_def)
qed


section \<open>What the test of a scan prints\<close>

definition scan_section :: "(('v, 'r) world, 'mf) gatherer \<Rightarrow> Scan \<Rightarrow> int \<Rightarrow> ('v, 'r) world \<Rightarrow> string" where
  "scan_section G scan i pw = round_header G i (scan_Name scan)
     @ (case g_Gather G i pw of Inr mfs \<Rightarrow> families_text G (scan_Name scan) mfs | Inl e \<Rightarrow> [])"

lemma scan_round_quiet:
  assumes "gathers G" "g_done G i = None" "for_each (deliver_event (sh_json H) (sh_libs H) (sh_tailFile H)) (sh_events H i) (s, pw, ec) = (Inr (), (s', pw', ec'))"
  shows "scan_round H G scan i ((s, pw, ec), w) = (Inr (), ((s', pw', ec'), w\<lparr>cli_out := cli_out w @ scan_section G scan i pw'\<rparr>))"
proof -
  obtain mfs where "g_Gather G i pw' = Inr mfs" using assms(1) unfolding gathers_def by blast
  then show ?thesis by (simp add: scan_round_def assms(2,3) scan_section_def Printf_def)
qed

lemma scan_rounds_quiet:
  fixes w :: "'cfg cli"
  assumes G: "gathers G" "\<forall>i. g_done G i = None" and r: "0 < rounds" "rounds < 2 ^ 63 - 1" and q: "\<forall>i > 1. sh_events H i = []"
  shows "1 < i \<Longrightarrow> i + int n = rounds + 1 \<Longrightarrow> scan_rounds H G scan rounds i ((s, pw, ec), w)
    = Some (scan_finish H ((s, pw, ec), w\<lparr>cli_out := cli_out w @ concat (map (\<lambda>j. scan_section G scan (i + int j) pw) [0..<n])\<rparr>))"
proof (induction n arbitrary: i w)
  case 0
  then show ?case using r(1) by (subst scan_rounds.simps) simp
next
  case (Suc n)
  have i: "i \<le> rounds" "wrap64 (i + 1) = i + 1" using Suc.prems r(2) by (auto intro: wrap64_next)
  have u: "[0..<Suc n] = 0 # map Suc [0..<n]" by (simp add: map_Suc_upt upt_conv_Cons del: upt_Suc)
  have "scan_round H G scan i ((s, pw, ec), w) = (Inr (), ((s, pw, ec), w\<lparr>cli_out := cli_out w @ scan_section G scan i pw\<rparr>))"
    by (rule scan_round_quiet[OF G(1)]) (use G(2) q Suc.prems(1) in simp_all)
  then have "scan_rounds H G scan rounds i ((s, pw, ec), w) = scan_rounds H G scan rounds (i + 1) ((s, pw, ec), w\<lparr>cli_out := cli_out w @ scan_section G scan i pw\<rparr>)"
    using i by (subst scan_rounds.simps) simp
  also have "\<dots> = Some (scan_finish H ((s, pw, ec), w\<lparr>cli_out := cli_out w @ concat (map (\<lambda>j. scan_section G scan (i + int j) pw) [0..<Suc n])\<rparr>))"
    using Suc.prems by (subst Suc.IH) (simp_all add: u comp_def algebra_simps del: upt_Suc)
  finally show ?case .
qed

lemma scan_first_wait:
  assumes "sc_tail s = None" "sh_tailFile H (scan_Path (sc_target s))
      \<lparr>tc_Follow = False, tc_ReOpen = False, tc_SeekEnd = False, tc_Poll = True\<rparr> = Inr t" "sc_config s = test_config"
    and "sc_parse (sh_json H) (sh_libs H) s (scan_Path (sc_target s)) ls (pw, ec) = (Inr (), (pw', ec'))"
  shows "for_each (deliver_event (sh_json H) (sh_libs H) (sh_tailFile H)) [Opens, Delivers ls] (s\<lparr>sc_pending := True\<rparr>, pw, ec)
    = (Inr (), (s\<lparr>sc_pending := False, sc_tail := Some t\<rparr>, pw', ec'))"
proof -
  have "sc_parse U L (s\<lparr>sc_pending := b, sc_tail := x\<rparr>) = sc_parse U L s" for U and L :: "('a, 'b, 'c) libs" and b x by (simp add: sc_parse_def fun_eq_iff)
  then show ?thesis using assms by (simp add: op_bind_def deliver_event_def sc_routine_def sc_scan_def test_config_def)
qed

text \<open>
  \<^verbatim>\<open>scan test\<close> counts the lines of the file.  On a database that is up and holds the scan, if the
  scanner can be built and opens the file, the lines of the file are delivered during the first
  wait, there are fewer than \<open>2 ^ 53\<close> pairs of a line and a pattern, and the context is not cancelled,
  the command prints one section for each round from a registry in which the counter of every
  pattern holds the number of lines that match it, and stops the scanner.
\<close>

theorem scan_test_counts:
  fixes w :: "'cfg cli" and H :: "('v, 'r, 'c) scan_host"
  assumes up: "db_up D URL" "\<not> env_testing E" and h: "sql_healthy (cli_conn w)" "sql_scan (cli_conn w) name = Some scan"
    and L: "libs_ok (sh_libs H)" "gathers G" "\<forall>i. g_done G i = None" and r: "0 < rounds" "rounds < 2 ^ 63 - 1"
    and fc: "FromConfig (sh_libs H) (sh_compile H) scan test_config pw = (Inr s, pw1)"
    and ev: "sh_events H 1 = [Opens, Delivers ls]" "\<forall>i > 1. sh_events H i = []"
    and tl: "sh_tailFile H (scan_Path scan) \<lparr>tc_Follow = False, tc_ReOpen = False, tc_SeekEnd = False, tc_Poll = True\<rparr> = Inr t" "sh_tailStop H t = None"
    and u: "\<forall>(n, m) \<in> set (sc_metrics s). \<forall>line \<in> set ls. \<forall>l. hit (sh_json H) (sc_parser s) m line = Some l \<longrightarrow> utf8_values l"
      "length ls * length (sc_metrics s) \<le> 2 ^ 53"
  shows "\<exists>w' pw' ec'. scan_testCmd H G (ProvideStore E D lease_Init URL) rounds name ((w, pw), ec) = Some (Inr (), ((w', pw'), ec'))
    \<and> cli_out w' = cli_out w @ concat (map (\<lambda>j. scan_section G scan (1 + int j) pw') [0..<nat rounds])
    \<and> (\<forall>(n, m) \<in> set (sc_metrics s). \<forall>l. series (sh_libs H) pw' (sm_counter m) l
         = tallied (length (filter (\<lambda>line. hit (sh_json H) (sc_parser s) m line = Some l) ls)))"
proof -
  obtain d where d: "ProvideStore E D lease_Init URL w = Some (Inr (sql_store lease_Init), w\<lparr>cli_db := d\<rparr>)"
    using ProvideStore_sql[OF up] by blast
  let ?w = "w\<lparr>cli_db := d\<rparr>"
  have st: "st_GetScan (sql_store lease_Init) name ?w = (Inr (Some scan), ?w)"
    using h by (simp add: sql_store_def on_conn_def sql_get_state)
  note F = FromConfig_fresh[OF L(1) fc]
  have ds: "distinct (map (\<lambda>(n, m). sm_counter m) (sc_metrics s))" using F by (simp add: fresh_scanner_def)
  have rd: "\<forall>(n, m) \<in> set (sc_metrics s). ready (sh_libs H) (sc_parser s) pw1 m \<and> (\<forall>l. series (sh_libs H) pw1 (sm_counter m) l = None)
      \<and> (\<forall>line \<in> set ls. \<forall>l. hit (sh_json H) (sc_parser s) m line = Some l \<longrightarrow> utf8_values l)"
    using F u(1) by (fastforce simp: fresh_scanner_def ready_def)
  obtain pw' ec' where p: "sc_parse (sh_json H) (sh_libs H) s (scan_Path (sc_target s)) ls (pw1, ec) = (Inr (), (pw', ec'))"
    and cn: "\<forall>(n, m) \<in> set (sc_metrics s). \<forall>l. series (sh_libs H) pw' (sm_counter m) l
         = tallied (length (filter (\<lambda>line. hit (sh_json H) (sc_parser s) m line = Some l) ls))"
    using sc_parse_counts[OF L(1) ds rd u(2), of "scan_Path (sc_target s)" ec] by (auto simp: tallied_def Let_def)
  let ?s = "s\<lparr>sc_pending := False, sc_tail := Some t\<rparr>"
  have "scan_round H G scan 1 ((s\<lparr>sc_pending := True\<rparr>, pw1, ec), ?w) = (Inr (), ((?s, pw', ec'), ?w\<lparr>cli_out := cli_out ?w @ scan_section G scan 1 pw'\<rparr>))"
    by (rule scan_round_quiet[OF L(2)]) (use L(3) ev(1) F tl(1) p scan_first_wait[of s H t ls pw1 ec pw' ec'] in simp_all)
  then have 1: "scan_rounds H G scan rounds 1 ((s\<lparr>sc_pending := True\<rparr>, pw1, ec), ?w)
      = scan_rounds H G scan rounds 2 ((?s, pw', ec'), ?w\<lparr>cli_out := cli_out w @ scan_section G scan 1 pw'\<rparr>)"
    using r wrap64_next[of 1] by (subst scan_rounds.simps) simp
  have "[0..<nat rounds] = 0 # map Suc [0..<nat rounds - 1]" using r(1) by (simp add: map_Suc_upt upt_conv_Cons)
  then have out: "concat (map (\<lambda>j. scan_section G scan (1 + int j) pw') [0..<nat rounds])
      = scan_section G scan 1 pw' @ concat (map (\<lambda>j. scan_section G scan (2 + int j) pw') [0..<nat rounds - 1])" by (simp add: comp_def)
  have "scan_rounds H G scan rounds 1 ((s\<lparr>sc_pending := True\<rparr>, pw1, ec), ?w) = Some (scan_finish H ((?s, pw', ec'),
      ?w\<lparr>cli_out := cli_out w @ concat (map (\<lambda>j. scan_section G scan (1 + int j) pw') [0..<nat rounds])\<rparr>))"
    unfolding 1 out by (subst scan_rounds_quiet[OF L(2,3) r ev(2), of 2 "nat rounds - 1"]) (use r(1) in simp_all)
  then show ?thesis using cn by (auto simp: scan_testCmd_def d Wrap_def st fc sc_Start_def scan_finish_def tl(2))
qed

end
