(* ===== verification/Main_Program.thy ===== *)
theory Main_Program
  imports Visus_Prelude
begin

text \<open>
  \<^verbatim>\<open>main.go\<close>: the set-up of the log before a command, and the exit code.  The command-line library
  runs \<^verbatim>\<open>PersistentPreRunE\<close> and then the command that was asked for, which is an argument, and
  passes the first error on.  The routine that waits for a signal is part of \<open>Server_Process\<close>.
\<close>

datatype log_level = InfoLevel | DebugLevel | TraceLevel
datatype log_formatter = DefaultFormatter | FluentFormatter | StampedText
datatype exit_handler = CloseGoLog | CloseLogFile string | StopCommands

record logger =
  lg_level :: log_level
  lg_formatter :: log_formatter
  lg_output :: "string option"
  lg_handlers :: "exit_handler list"

record log_flags =
  fl_logFormat :: string
  fl_logDestination :: string
  fl_verbosity :: int

text \<open>\<^verbatim>\<open>log.DeferExitHandler\<close> puts a handler before those registered earlier.\<close>

definition DeferExitHandler :: "exit_handler \<Rightarrow> logger \<Rightarrow> logger" where
  "DeferExitHandler h lg = lg\<lparr>lg_handlers := h # lg_handlers lg\<rparr>"

definition set_verbosity :: "int \<Rightarrow> logger \<Rightarrow> logger" where
  "set_verbosity v lg = (if v = 0 then lg else if v = 1 then lg\<lparr>lg_level := DebugLevel\<rparr> else lg\<lparr>lg_level := TraceLevel\<rparr>)"

definition set_format :: "string \<Rightarrow> (logger, unit) op" where
  "set_format f lg = (if f = ''fluent'' then (Inr (), lg\<lparr>lg_formatter := FluentFormatter\<rparr>)
     else if f = ''text'' then (Inr (), lg\<lparr>lg_formatter := StampedText\<rparr>)
     else (Inl (Err (''unknown log format: '' @ [CHR 0x22] @ f @ [CHR 0x22])), lg))"

text \<open>\<open>openFile\<close> is the error of opening the log file, if any.\<close>

definition set_destination :: "(string \<Rightarrow> go_error option) \<Rightarrow> string \<Rightarrow> (logger, unit) op" where
  "set_destination openFile dest lg = (if dest = [] then (Inr (), lg)
     else (case openFile dest of
        Some e \<Rightarrow> (Inl (Panic ProcessExit), lg)
      | None \<Rightarrow> (Inr (), (DeferExitHandler (CloseLogFile dest) lg)\<lparr>lg_output := Some dest\<rparr>)))"

definition PersistentPreRunE :: "(string \<Rightarrow> go_error option) \<Rightarrow> log_flags \<Rightarrow> (logger, unit) op" where
  "PersistentPreRunE openFile fl lg =
     op_bind (set_format (fl_logFormat fl)) (\<lambda>_. set_destination openFile (fl_logDestination fl))
       (set_verbosity (fl_verbosity fl) (DeferExitHandler CloseGoLog lg))"

text \<open>
  The exit code, the world the command leaves, and the logger.  Whatever ends the process through
  \<^verbatim>\<open>log.Exit\<close> runs the handlers first; a panic of the command ends it with the code of the runtime.
\<close>

definition exit_code :: "unit result \<Rightarrow> int" where
  "exit_code r = (case r of Inr _ \<Rightarrow> 0 | Inl (Err e) \<Rightarrow> 1 | Inl (Panic ProcessExit) \<Rightarrow> 1 | Inl (Panic _) \<Rightarrow> 2)"

definition main :: "(string \<Rightarrow> go_error option) \<Rightarrow> log_flags \<Rightarrow> ('s, unit) op \<Rightarrow> logger \<Rightarrow> 's \<Rightarrow> int \<times> logger \<times> 's" where
  "main openFile fl command lg s = (case PersistentPreRunE openFile fl (DeferExitHandler StopCommands lg) of
      (Inl e, lg1) \<Rightarrow> (exit_code (Inl e), lg1, s)
    | (Inr _, lg1) \<Rightarrow> (case command s of (r, s1) \<Rightarrow> (exit_code r, lg1, s1)))"

text \<open>
  A command runs exactly if the format of the log is known and the log file can be opened;
  otherwise the exit code is 1 and nothing has happened.
\<close>

theorem main_runs_command:
  "main openFile fl command lg s = (if fl_logFormat fl \<in> {''fluent'', ''text''} \<and> (fl_logDestination fl = [] \<or> openFile (fl_logDestination fl) = None)
     then (exit_code (fst (command s)), snd (PersistentPreRunE openFile fl (DeferExitHandler StopCommands lg)), snd (command s))
     else (1, snd (PersistentPreRunE openFile fl (DeferExitHandler StopCommands lg)), s))"
  by (auto simp: main_def PersistentPreRunE_def op_bind_def set_format_def set_destination_def exit_code_def split: prod.splits option.splits)

text \<open>On the way out the log file is closed before the commands are stopped.\<close>

lemma handlers_order:
  assumes "PersistentPreRunE openFile fl (DeferExitHandler StopCommands lg) = (Inr (), lg')"
  shows "lg_handlers lg' = (if fl_logDestination fl = [] then [] else [CloseLogFile (fl_logDestination fl)]) @ [CloseGoLog, StopCommands] @ lg_handlers lg"
  using assms
  by (auto simp: PersistentPreRunE_def op_bind_def set_format_def set_destination_def set_verbosity_def DeferExitHandler_def
      split: prod.splits option.splits if_splits)

end
