(* ===== verification/Command_Line.thy ===== *)
theory Command_Line
  imports Test_Cmd Cmd_Server Main_Program
begin

text \<open>
  The command line: the tree of commands that \<^verbatim>\<open>main.go\<close> and the functions \<^verbatim>\<open>Command\<close> and
  \<^verbatim>\<open>command\<close> of the packages under \<^verbatim>\<open>internal/cmd\<close> build, the defaults of the flags, and
  \<^verbatim>\<open>TestCommand\<close>.  The library that reads the arguments is not modelled: the tree says which words
  name which command and how many arguments it takes.
\<close>

section \<open>The tree of commands\<close>

datatype group = Collections | Scans | Histograms
datatype verb = Delete | Get | List | Put | Test
datatype action = Admin group verb | NodeList | InitDb | Serve
datatype arg_check = ExactArgs nat | NoArgs | AnyArgs

datatype command = Command (cm_use: string) (cm_args: arg_check) (cm_run: "action option") (cm_subs: "command list")

definition coll_command :: command where
  "coll_command = Command ''collection'' AnyArgs None
    [Command ''get'' (ExactArgs 1) (Some (Admin Collections Get)) [],
     Command ''list'' AnyArgs (Some (Admin Collections List)) [],
     Command ''delete'' (ExactArgs 1) (Some (Admin Collections Delete)) [],
     Command ''put'' (ExactArgs 0) (Some (Admin Collections Put)) [],
     Command ''test'' (ExactArgs 1) (Some (Admin Collections Test)) []]"

definition scan_command :: command where
  "scan_command = Command ''scan'' AnyArgs None
    [Command ''get'' (ExactArgs 1) (Some (Admin Scans Get)) [],
     Command ''list'' AnyArgs (Some (Admin Scans List)) [],
     Command ''delete'' (ExactArgs 1) (Some (Admin Scans Delete)) [],
     Command ''put'' (ExactArgs 0) (Some (Admin Scans Put)) [],
     Command ''test'' (ExactArgs 1) (Some (Admin Scans Test)) []]"

definition hist_command :: command where
  "hist_command = Command ''histogram'' AnyArgs None
    [Command ''delete'' (ExactArgs 1) (Some (Admin Histograms Delete)) [],
     Command ''get'' (ExactArgs 1) (Some (Admin Histograms Get)) [],
     Command ''list'' AnyArgs (Some (Admin Histograms List)) [],
     Command ''put'' NoArgs (Some (Admin Histograms Put)) [],
     Command ''test'' AnyArgs (Some (Admin Histograms Test)) []]"

definition node_command :: command where
  "node_command = Command ''node'' AnyArgs None [Command ''list'' AnyArgs (Some NodeList) []]"

definition init_command :: command where
  "init_command = Command ''init'' AnyArgs (Some InitDb) []"

definition server_command :: command where
  "server_command = Command ''start'' NoArgs (Some Serve) []"

definition root_command :: command where
  "root_command = Command ''visus'' AnyArgs None
    [server_command, coll_command, scan_command, hist_command, node_command, init_command]"

text \<open>The words that name a command that does something, with the arguments it takes.\<close>

fun command_paths :: "command \<Rightarrow> (string list \<times> arg_check \<times> action) list" where
  "command_paths (Command u a r subs) = (case r of None \<Rightarrow> [] | Some x \<Rightarrow> [([u], a, x)])
     @ concat (map (\<lambda>c. map (\<lambda>(p, y). (u # p, y)) (command_paths c)) subs)"

section \<open>Flags\<close>

definition server_defaults :: Config where
  "server_defaults = \<lparr>cfg_AllowUnsafeInternals = False, cfg_BindAddr = ''127.0.0.1:8888'', cfg_BindCert = [], cfg_BindKey = [], cfg_CaCert = [],
     cfg_Endpoint = ''/_status/vars'', cfg_Inotify = False, cfg_Insecure = False, cfg_ProcMetrics = False, cfg_Prometheus = [],
     cfg_Refresh = 5 * 60 * 10 ^ 9, cfg_RewriteHistograms = False, cfg_URL = [], cfg_VisusMetrics = False\<rparr>"

definition log_defaults :: log_flags where
  "log_defaults = \<lparr>fl_logFormat = ''text'', fl_logDestination = [], fl_verbosity = 0\<rparr>"

section \<open>Running a command in a test\<close>

text \<open>\<^verbatim>\<open>TestCommand\<close> gives the command a buffer for its output and returns what it holds, or only the error.\<close>

definition TestCommand :: "('cfg, unit) cmd \<Rightarrow> ('cfg, string) cmd" where
  "TestCommand cmd w = map_option (\<lambda>(r, w'). (case r of Inl e \<Rightarrow> Inl e | Inr _ \<Rightarrow> Inr (cli_out w'), w'\<lparr>cli_out := cli_out w\<rparr>)) (cmd (w\<lparr>cli_out := []\<rparr>))"

section \<open>Properties\<close>

text \<open>Every action is named by exactly one sequence of words, and no two commands have the same one.\<close>

lemma command_paths_unique:
  "distinct (map fst (command_paths root_command))" "distinct (map (snd \<circ> snd) (command_paths root_command))"
  "length (command_paths root_command) = 18"
  by (simp_all add: root_command_def server_command_def coll_command_def scan_command_def hist_command_def node_command_def init_command_def)

text \<open>
  The server needs its URL and either a certificate and its key or \<^verbatim>\<open>--insecure\<close>; the other flags may
  have their defaults, with which the refresh can be scheduled.
\<close>

lemma server_defaults_need:
  "check_flags (server_defaults\<lparr>cfg_URL := u\<rparr>) p = Some (Inl (Err ''--insecure must be specfied if certificates and private key are missing''), p)"
  "check_flags (server_defaults\<lparr>cfg_Insecure := True\<rparr>) p = Some (Inl (Err ''--url must be specified''), p)"
  "u \<noteq> [] \<Longrightarrow> check_flags (server_defaults\<lparr>cfg_URL := u, cfg_Insecure := True\<rparr>) p = Some (Inr (), p)"
  "positive (Duration (cfg_Refresh server_defaults))"
  by (simp_all add: check_flags_def server_defaults_def positive_def)

text \<open>With the default flags of the log every command runs.\<close>

lemma log_defaults_run: "fst (main openFile log_defaults command lg s) = exit_code (fst (command s))"
  by (simp add: main_def log_defaults_def PersistentPreRunE_def op_bind_def set_format_def set_destination_def split: prod.splits)

lemma TestCommand_output:
  assumes "cmd (w\<lparr>cli_out := []\<rparr>) = Some (Inr (), w')"
  shows "TestCommand cmd w = Some (Inr (cli_out w'), w'\<lparr>cli_out := cli_out w\<rparr>)"
  by (simp add: TestCommand_def assms)

end
