(* ===== verification/Store_Strings.thy ===== *)
theory Store_Strings
  imports Admin_Cmd Collector
begin

text \<open>
  The \<^verbatim>\<open>String\<close> methods: of a collection and of a scan (\<^verbatim>\<open>internal/store\<close>), of a collector and of
  the kind of a metric (\<^verbatim>\<open>internal/collector\<close>), and of an identifier of the store.  How a
  \<^verbatim>\<open>time.Time\<close> prints is an argument.
\<close>

section \<open>The verbs of the format\<close>

definition fmt_t :: "bool \<Rightarrow> string" where
  "fmt_t b = (if b then ''true'' else ''false'')"

text \<open>\<^verbatim>\<open>%v\<close> of a slice of structs of strings.\<close>

definition fmt_v :: "string list list \<Rightarrow> string" where
  "fmt_v xs = ''['' @ join '' '' (map (\<lambda>fs. ''{'' @ join '' '' fs @ ''}'') xs) @ '']''"

section \<open>The store\<close>

definition coll_String :: "(time \<Rightarrow> string) \<Rightarrow> Collection \<Rightarrow> string" where
  "coll_String showTime c =
     ''Collection: '' @ coll_Name c @ [newline]
   @ ''Enabled:    '' @ fmt_t (coll_Enabled c) @ [newline]
   @ ''Updated:    '' @ showTime (coll_LastModified c) @ [newline]
   @ ''Labels:     '' @ join '','' (coll_Labels c) @ [newline]
   @ ''Databases:      '' @ coll_Databases c @ [newline]
   @ ''Query:      '' @ coll_Query c @ [newline]
   @ ''MaxResults: '' @ show_int (coll_MaxResult c) @ [newline]
   @ ''Frequency:  '' @ show_int (quot (Microseconds (coll_Frequency c)) (1000 * 1000)) @ '' seconds'' @ [newline]
   @ ''Metrics:    '' @ fmt_v (map (\<lambda>m. [metric_Name m, metric_Kind m, metric_Help m]) (coll_Metrics c))"

definition scan_String :: "(time \<Rightarrow> string) \<Rightarrow> Scan \<Rightarrow> string" where
  "scan_String showTime c =
     ''Scan:     '' @ scan_Name c @ [newline]
   @ ''Enabled:  '' @ fmt_t (scan_Enabled c) @ [newline]
   @ ''Updated:  '' @ showTime (scan_LastModified c) @ [newline]
   @ ''Format:   '' @ scan_Path c @ [newline]
   @ ''Path:     '' @ scan_Format c @ [newline]
   @ ''Patterns: '' @ fmt_v (map (\<lambda>p. [pat_Help p, pat_Name p, pat_Exclude p, pat_Regex p]) (scan_Patterns c))"

record identifier_t =
  id_name :: string

definition identifier_String :: "identifier_t \<Rightarrow> string" where
  "identifier_String i = id_name i"

definition LeaseTable :: identifier_t where
  "LeaseTable = \<lparr>id_name = ''_visus.lease''\<rparr>"

definition VisusUser :: identifier_t where
  "VisusUser = \<lparr>id_name = ''visus''\<rparr>"

section \<open>The collector\<close>

definition collector_String :: "'c collector \<Rightarrow> string" where
  "collector_String c = c_name c"

definition MetricKind_name :: string where
  "MetricKind_name = ''UndefinedCounterGauge''"

definition MetricKind_index :: "nat list" where
  "MetricKind_index = [0, 9, 16, 21]"

text \<open>The values of the constants are their positions.\<close>

fun kind_value :: "MetricKind \<Rightarrow> int" where
  "kind_value Undefined = 0"
| "kind_value KCounter = 1"
| "kind_value KGauge = 2"

definition MetricKind_String :: "int \<Rightarrow> string" where
  "MetricKind_String i =
    (if i < 0 \<or> i \<ge> int (length MetricKind_index - 1) then ''MetricKind('' @ show_int i @ '')''
     else (let a = MetricKind_index ! nat i; b = MetricKind_index ! nat (i + 1) in take (b - a) (drop a MetricKind_name)))"

section \<open>Properties\<close>

text \<open>Every constant prints as its name, and no slice of the names is out of range.\<close>

lemma MetricKind_String_names:
  "MetricKind_String (kind_value k) = (case k of Undefined \<Rightarrow> ''Undefined'' | KCounter \<Rightarrow> ''Counter'' | KGauge \<Rightarrow> ''Gauge'')"
  by (cases k) (simp_all add: MetricKind_String_def MetricKind_index_def MetricKind_name_def numeral_2_eq_2)

lemma MetricKind_String_in_range:
  assumes "0 \<le> i" "i < int (length MetricKind_index - 1)"
  shows "MetricKind_index ! nat i \<le> MetricKind_index ! nat (i + 1)" "MetricKind_index ! nat (i + 1) \<le> length MetricKind_name"
proof -
  have "i = 0 \<or> i = 1 \<or> i = 2" using assms by (auto simp: MetricKind_index_def)
  then show "MetricKind_index ! nat i \<le> MetricKind_index ! nat (i + 1)" "MetricKind_index ! nat (i + 1) \<le> length MetricKind_name"
    by (auto simp: MetricKind_index_def MetricKind_name_def)
qed

text \<open>
  The path of a scan is printed under the heading of its format and the other way round: a scan whose
  path and format are exchanged prints them where they belong.
\<close>

lemma scan_String_swaps:
  "scan_String showTime (c\<lparr>scan_Path := scan_Format c, scan_Format := scan_Path c\<rparr>)
   = ''Scan:     '' @ scan_Name c @ [newline] @ ''Enabled:  '' @ fmt_t (scan_Enabled c) @ [newline] @ ''Updated:  '' @ showTime (scan_LastModified c) @ [newline]
   @ ''Format:   '' @ scan_Format c @ [newline] @ ''Path:     '' @ scan_Path c @ [newline]
   @ ''Patterns: '' @ fmt_v (map (\<lambda>p. [pat_Help p, pat_Name p, pat_Exclude p, pat_Regex p]) (scan_Patterns c))"
  by (simp add: scan_String_def)

end
