(* ===== verification/Test_Cluster.thy ===== *)
theory Test_Cluster
  imports Admin_Cmd Scanner_Parser
begin

text \<open>
  \<^verbatim>\<open>internal/testutil/cluster.go\<close>: the fixtures of the integration tests.  The choice of the release
  the tests run against, the start of the shared server, the fresh store and the scratch database of a test.  The HTTP
  client, the decoder of the catalogue, the test server and the test runner are arguments.
\<close>

section \<open>The latest patch of a series\<close>

record crdbRelease =
  rel_Version :: string
  rel_Withdrawn :: bool

record crdbReleaseData =
  data_SchemaVersion :: int
  data_Releases :: "crdbRelease list"

text \<open>\<^verbatim>\<open>strconv.Atoi\<close> on a non-empty string of digits, which fails on a value that does not fit.\<close>

fun digits_value :: "nat \<Rightarrow> string \<Rightarrow> nat" where
  "digits_value n [] = n"
| "digits_value n (c # cs) = digits_value (10 * n + (byte c - 48)) cs"

definition Atoi :: "string \<Rightarrow> int option" where
  "Atoi s = (let n = int (digits_value 0 s) in if n < 2 ^ 63 then Some n else None)"

text \<open>The group of \<^verbatim>\<open>^v\<close>, the series taken literally, \<^verbatim>\<open>\.(\d+)$\<close>.\<close>

definition FindStringSubmatch :: "string \<Rightarrow> string \<Rightarrow> string option" where
  "FindStringSubmatch series v = (let p = ''v'' @ series @ ''.''; rest = drop (length p) v in
     if take (length p) v = p \<and> rest \<noteq> [] \<and> list_all is_digit rest then Some rest else None)"

fun latest_each :: "string \<Rightarrow> crdbRelease list \<Rightarrow> string \<times> int \<Rightarrow> string \<times> int" where
  "latest_each series [] b = b"
| "latest_each series (r # rs) (best, bestPatch) =
    (if rel_Withdrawn r then latest_each series rs (best, bestPatch)
     else (case FindStringSubmatch series (rel_Version r) of
        None \<Rightarrow> latest_each series rs (best, bestPatch)
      | Some m \<Rightarrow> (case Atoi m of
          Some patch \<Rightarrow> if patch > bestPatch then latest_each series rs (rel_Version r, patch) else latest_each series rs (best, bestPatch)
        | None \<Rightarrow> latest_each series rs (best, bestPatch))))"

text \<open>
  The answer to the download: its status code and text, and what reading its body gives.  The
  quotes of the last message are those of a series without characters that need escaping.
\<close>

type_synonym download = "go_error + int \<times> string \<times> (go_error + string)"

definition latestPatchInSeries :: "download \<Rightarrow> (string \<Rightarrow> go_error + crdbReleaseData) \<Rightarrow> string \<Rightarrow> go_error + string" where
  "latestPatchInSeries resp unmarshal series = (case resp of
      Inl e \<Rightarrow> Inl (''downloading release data: '' @ e)
    | Inr (code, status, body) \<Rightarrow>
        if code \<noteq> 200 then Inl (''downloading release data: unexpected status '' @ status)
        else (case body of
          Inl e \<Rightarrow> Inl (''reading release data: '' @ e)
        | Inr b \<Rightarrow> (case unmarshal b of
            Inl e \<Rightarrow> Inl (''parsing release data: '' @ e)
          | Inr d \<Rightarrow>
              if data_SchemaVersion d \<noteq> 1 then Inl (''unexpected release catalog schema_version '' @ show_int (data_SchemaVersion d))
              else (case latest_each series (data_Releases d) ([], -1) of (best, bestPatch) \<Rightarrow>
                if best = [] then Inl (''no stable, non-withdrawn release found for series '' @ [CHR 0x22] @ series @ [CHR 0x22])
                else Inr best))))"

section \<open>The shared server\<close>

text \<open>
  \<^verbatim>\<open>StartCluster\<close> returns the exit code and sets the URL; \<open>newServer\<close> gets the version to pin, if any.
\<close>

definition StartCluster :: "string \<Rightarrow> (string \<Rightarrow> go_error + string) \<Rightarrow> (string option \<Rightarrow> go_error + string) \<Rightarrow> (string \<Rightarrow> int) \<Rightarrow> string option
    \<Rightarrow> int \<times> string option" where
  "StartCluster series latest newServer run pgURL =
    (case (if series \<noteq> [] then map_sum id Some (latest series) else Inr None) of
       Inl e \<Rightarrow> (1, pgURL)
     | Inr opts \<Rightarrow> (case newServer opts of
         Inl e \<Rightarrow> (1, pgURL)
       | Inr u \<Rightarrow> (run u, Some u)))"

text \<open>\<^verbatim>\<open>PGURL\<close> panics before the start (\<open>None\<close>).\<close>

definition PGURL :: "string option \<Rightarrow> string option" where
  "PGURL pgURL = (case pgURL of None \<Rightarrow> None | Some u \<Rightarrow> Some u)"

text \<open>
  The \<^verbatim>\<open>semver\<close> package is a parameter: reading a version, which panics (\<open>None\<close>) if it is malformed,
  and the comparison.
\<close>

definition SupportsAllowUnsafeInternals :: "(string \<Rightarrow> 'v option) \<Rightarrow> ('v \<Rightarrow> 'v \<Rightarrow> bool) \<Rightarrow> string \<Rightarrow> bool option" where
  "SupportsAllowUnsafeInternals semver minVersion series =
    (if series = [] then Some True
     else (case (semver (''v'' @ series @ ''.0''), semver ''v25.4.0'') of
        (Some v, Some m) \<Rightarrow> Some (minVersion v m)
      | _ \<Rightarrow> None))"

section \<open>The store and the database of a test\<close>

definition dropVisus :: "(conn, unit) op" where
  "dropVisus c = (case take_net c of
      (Served, c1) \<Rightarrow> (Inr (), c1\<lparr>conn_db := None\<rparr>)
    | (Refused e, c1) \<Rightarrow> (Inl (Err e), c1)
    | (Lost e _, c1) \<Rightarrow> (Inl (Err e), c1\<lparr>conn_db := None\<rparr>))"

text \<open>An error fails the test at once.\<close>

definition NewStore :: "'cfg driver \<Rightarrow> (conn, unit) op \<Rightarrow> string \<Rightarrow> ('cfg, 'cfg Store \<times> Pool) cmd" where
  "NewStore D lease_Init URL w = (case db_New D URL (cli_db w) of
      None \<Rightarrow> None
    | Some (Inl e, d) \<Rightarrow> Some (Inl e, w\<lparr>cli_db := d\<rparr>)
    | Some (Inr p, d) \<Rightarrow> Some (op_bind (on_conn dropVisus) (\<lambda>_.
        op_bind (st_Init (sql_store lease_Init)) (\<lambda>_. op_return (sql_store lease_Init, p))) (w\<lparr>cli_db := d\<rparr>)))"

text \<open>The name of a scratch database: every run of other characters becomes one underscore.\<close>

definition validDBChar :: "char \<Rightarrow> bool" where
  "validDBChar c = (is_digit c \<or> c = CHR ''_'' \<or> (0x61 \<le> byte c \<and> byte c \<le> 0x7A))"

fun ReplaceInvalid :: "bool \<Rightarrow> string \<Rightarrow> string" where
  "ReplaceInvalid inRun [] = []"
| "ReplaceInvalid inRun (c # cs) = (if validDBChar c then c # ReplaceInvalid False cs
     else if inRun then ReplaceInvalid True cs else CHR ''_'' # ReplaceInvalid True cs)"

definition test_db_name :: "string \<Rightarrow> string" where
  "test_db_name n = ReplaceInvalid False (ToLower n)"

text \<open>
  \<^verbatim>\<open>NewDatabase\<close>: \<open>exec\<close> runs a statement on a pool, outside the tables of the store, and \<open>setPath\<close> changes
  the path of a URL.  The result is the connection, the name, and the statement that the clean-up
  runs on the first pool at the end of the test.
\<close>

definition NewDatabase :: "'cfg driver \<Rightarrow> (nat \<Rightarrow> string \<Rightarrow> ('w, unit) op) \<Rightarrow> (string \<Rightarrow> string \<Rightarrow> string) \<Rightarrow> string \<Rightarrow> string
    \<Rightarrow> 'cfg db_state \<times> 'w \<Rightarrow> ((Pool \<times> string \<times> nat \<times> string) result \<times> 'cfg db_state \<times> 'w) option" where
  "NewDatabase D exec setPath url test = (\<lambda>(d, w). let name = test_db_name test in
    case db_New D url d of
      None \<Rightarrow> None
    | Some (Inl e, d1) \<Rightarrow> Some (Inl e, d1, w)
    | Some (Inr admin, d1) \<Rightarrow> (case exec (pool_get admin) (''CREATE DATABASE IF NOT EXISTS '' @ name) w of
        (Inl e, w1) \<Rightarrow> Some (Inl e, d1, w1)
      | (Inr _, w1) \<Rightarrow> (case db_New D (setPath url (''/'' @ name)) d1 of
          None \<Rightarrow> None
        | Some (Inl e, d2) \<Rightarrow> Some (Inl e, d2, w1)
        | Some (Inr conn, d2) \<Rightarrow> Some (Inr (conn, name, pool_get admin, ''DROP DATABASE IF EXISTS '' @ name @ '' CASCADE''), d2, w1))))"

section \<open>Theorems\<close>

text \<open>The patch of a release that can be used.\<close>

definition patch_of :: "string \<Rightarrow> crdbRelease \<Rightarrow> int option" where
  "patch_of series r = (if rel_Withdrawn r then None else Option.bind (FindStringSubmatch series (rel_Version r)) Atoi)"

lemma patch_nonneg: "patch_of series r = Some p \<Longrightarrow> 0 \<le> p \<and> rel_Version r \<noteq> []"
  by (auto simp: patch_of_def Atoi_def FindStringSubmatch_def Let_def bind_eq_Some_conv split: if_splits)

lemma latest_each_step:
  "latest_each series (r # rs) (best, k) = latest_each series rs (case patch_of series r of
     Some p \<Rightarrow> if k < p then (rel_Version r, p) else (best, k) | None \<Rightarrow> (best, k))"
  by (auto simp: patch_of_def split: option.splits)

lemma latest_each_max:
  "\<exists>best' k'. latest_each series rs (best, k) = (best', k') \<and> k \<le> k' \<and> (\<forall>r \<in> set rs. \<forall>p. patch_of series r = Some p \<longrightarrow> p \<le> k')
    \<and> (best' = best \<and> k' = k \<or> (\<exists>r \<in> set rs. rel_Version r = best' \<and> patch_of series r = Some k'))"
proof (induction rs arbitrary: best k)
  case (Cons r rs)
  define b where "b = (case patch_of series r of Some p \<Rightarrow> if k < p then (rel_Version r, p) else (best, k) | None \<Rightarrow> (best, k))"
  obtain best1 k1 where b: "b = (best1, k1)" by fastforce
  then have 1: "k \<le> k1" "\<And>p. patch_of series r = Some p \<Longrightarrow> p \<le> k1" "best1 = best \<and> k1 = k \<or> rel_Version r = best1 \<and> patch_of series r = Some k1"
    by (auto simp: b_def split: option.splits if_splits)
  obtain best' k' where IH: "latest_each series rs (best1, k1) = (best', k')" "k1 \<le> k'" "\<forall>r \<in> set rs. \<forall>p. patch_of series r = Some p \<longrightarrow> p \<le> k'"
      "best' = best1 \<and> k' = k1 \<or> (\<exists>r \<in> set rs. rel_Version r = best' \<and> patch_of series r = Some k')"
    using Cons.IH by blast
  have "best' = best \<and> k' = k \<or> (\<exists>r \<in> set (r # rs). rel_Version r = best' \<and> patch_of series r = Some k')"
    using IH(4) 1(3) by auto
  moreover have "\<forall>r' \<in> set (r # rs). \<forall>p. patch_of series r' = Some p \<longrightarrow> p \<le> k'" using IH(2,3) 1(2) order_trans by fastforce
  ultimately show ?case
    unfolding latest_each_step b_def[symmetric] b IH(1) using order_trans[OF 1(1) IH(2)] by (intro exI[of _ best'] exI[of _ k'] conjI refl)
qed simp

text \<open>
  If the catalogue can be downloaded and read, \<^verbatim>\<open>latestPatchInSeries\<close> returns the version of a
  release of the series that is not withdrawn, and no such release has a higher patch number; it
  fails exactly if there is no such release.
\<close>

theorem latest_patch_best:
  assumes "unmarshal body = Inr d" "data_SchemaVersion d = 1"
  shows "(case latestPatchInSeries (Inr (200, status, Inr body)) unmarshal series of
      Inr v \<Rightarrow> \<exists>r \<in> set (data_Releases d). \<exists>k. rel_Version r = v \<and> patch_of series r = Some k
        \<and> (\<forall>r' \<in> set (data_Releases d). \<forall>p. patch_of series r' = Some p \<longrightarrow> p \<le> k)
    | Inl e \<Rightarrow> \<forall>r \<in> set (data_Releases d). patch_of series r = None)"
proof -
  obtain best k where l: "latest_each series (data_Releases d) ([], -1) = (best, k)"
      "\<forall>r \<in> set (data_Releases d). \<forall>p. patch_of series r = Some p \<longrightarrow> p \<le> k"
      "best = [] \<and> k = -1 \<or> (\<exists>r \<in> set (data_Releases d). rel_Version r = best \<and> patch_of series r = Some k)"
    using latest_each_max[of series "data_Releases d" "[]" "-1"] by blast
  show ?thesis
  proof (cases "best = []")
    case True
    then have "k = -1" using l(3) patch_nonneg by blast
    then have "patch_of series r = None" if "r \<in> set (data_Releases d)" for r
      using l(2) that patch_nonneg[of series r] by (cases "patch_of series r") fastforce+
    then show ?thesis using True l(1) assms by (simp add: latestPatchInSeries_def)
  next
    case False
    then show ?thesis using l assms by (auto simp: latestPatchInSeries_def)
  qed
qed


text \<open>A version is recognised with its number, so that the comparison is not that of strings.\<close>

lemma digits_value_append: "digits_value n (s @ t) = digits_value (digits_value n s) t"
  by (induction s arbitrary: n) simp_all

lemma decimal_digits: "list_all is_digit (decimal n) \<and> decimal n \<noteq> [] \<and> digits_value 0 (decimal n) = n"
proof (induction n rule: decimal.induct)
  case (1 n)
  have d: "k < 10 \<Longrightarrow> byte (char_of (48 + k)) = 48 + k" for k :: nat by (simp add: byte_def)
  show ?case
  proof (cases "n < 10")
    case True
    then show ?thesis by (simp add: is_digit_def d)
  next
    case False
    have "is_digit (char_of (48 + n mod 10))" by (simp add: is_digit_def d)
    then show ?thesis using 1 False by (simp add: d digits_value_append)
  qed
qed

lemma patch_decimal:
  "n < 2 ^ 63 \<Longrightarrow> patch_of series \<lparr>rel_Version = ''v'' @ series @ ''.'' @ decimal n, rel_Withdrawn = False\<rparr> = Some (int n)"
  using decimal_digits[of n] by (simp add: patch_of_def FindStringSubmatch_def Atoi_def Let_def del: decimal.simps)

theorem latest_patch_best_witness:
  "latestPatchInSeries (Inr (200, ''OK'', Inr ''y'')) (\<lambda>b. Inr \<lparr>data_SchemaVersion = 1, data_Releases =
      [\<lparr>rel_Version = ''v25.4.9'', rel_Withdrawn = False\<rparr>, \<lparr>rel_Version = ''v25.4.10'', rel_Withdrawn = False\<rparr>,
       \<lparr>rel_Version = ''v25.4.11'', rel_Withdrawn = True\<rparr>, \<lparr>rel_Version = ''v26.1.0'', rel_Withdrawn = False\<rparr>]\<rparr>) ''25.4'' = Inr ''v25.4.10''"
proof -
  let ?rs = "[\<lparr>rel_Version = ''v25.4.9'', rel_Withdrawn = False\<rparr>, \<lparr>rel_Version = ''v25.4.10'', rel_Withdrawn = False\<rparr>,
       \<lparr>rel_Version = ''v25.4.11'', rel_Withdrawn = True\<rparr>, \<lparr>rel_Version = ''v26.1.0'', rel_Withdrawn = False\<rparr>]"
  have p: "map (patch_of ''25.4'') ?rs = [Some 9, Some 10, None, None]"
    by (simp add: patch_of_def FindStringSubmatch_def Atoi_def is_digit_def byte_def)
  show ?thesis
    using latest_patch_best[where unmarshal = "\<lambda>b. Inr \<lparr>data_SchemaVersion = 1, data_Releases = ?rs\<rparr>" and body = "''y''" and status = "''OK''" and series = "''25.4''", OF refl] p
    by (auto split: sum.splits)
qed

text \<open>
  The fresh store: whatever the database held, the store of \<^verbatim>\<open>NewStore\<close> is healthy and empty, if the
  server answers and creating the lease table leaves the tables of the store alone.
\<close>

theorem NewStore_empty:
  assumes "db_up D URL" "conn_net (cli_conn w) = []" "orders_ok (cli_conn w)" "\<And>c. lease_Init c = (Inr (), c)"
  shows "\<exists>p w'. NewStore D lease_Init URL w = Some (Inr (sql_store lease_Init, p), w') \<and> sql_healthy (cli_conn w')
    \<and> sql_coll (cli_conn w') = Map.empty \<and> sql_scan (cli_conn w') = Map.empty \<and> sql_hist (cli_conn w') = Map.empty \<and> sql_GetNodes (cli_conn w') = (Inr [], cli_conn w')"
proof -
  obtain p d where d: "db_New D URL (cli_db w) = Some (Inr p, d)" using db_New_up[OF assms(1)] by blast
  let ?w = "w\<lparr>cli_db := d, cli_conn := (cli_conn w)\<lparr>conn_db := Some empty_db\<rparr>\<rparr>"
  have "NewStore D lease_Init URL w = Some (Inr (sql_store lease_Init, p), ?w)"
    using assms(2) by (simp add: NewStore_def d op_bind_def on_conn_def dropVisus_def take_net_def sql_store_def sql_Init_def ddlStmt_def assms(4))
  moreover have "sql_healthy (cli_conn ?w)" using assms(2,3) by (simp add: sql_healthy_def orders_ok_def db_wf_def empty_db_def)
  moreover have "sql_coll (cli_conn ?w) = Map.empty" "sql_scan (cli_conn ?w) = Map.empty" "sql_hist (cli_conn ?w) = Map.empty"
    by (simp_all add: fun_eq_iff sql_coll_def sql_scan_def sql_hist_def empty_db_def)
  moreover have "sql_GetNodes (cli_conn ?w) = (Inr [], cli_conn ?w)"
    using assms(2) by (simp add: sql_GetNodes_def op_bind_def conn_Query_def take_net_def on_schema_def CollectRows_def empty_db_def listNodesStmt_def)
  ultimately show ?thesis by blast
qed

lemma ReplaceInvalid_valid: "list_all validDBChar (ReplaceInvalid b s)"
  by (induction b s rule: ReplaceInvalid.induct) (auto simp: validDBChar_def)

lemma test_db_name_valid: "list_all validDBChar (test_db_name n)"
  by (simp add: test_db_name_def ReplaceInvalid_valid)

text \<open>
  The scratch database of a test is created, connected to and, at the end, dropped under the same
  name, which needs no quotes.
\<close>

lemma NewDatabase_scratch:
  assumes "NewDatabase D exec setPath url test (d, w) = Some (Inr (conn, name, admin, dropStmt), d', w')"
  shows "list_all validDBChar name \<and> pl_URL conn = setPath url (''/'' @ name) \<and> dropStmt = ''DROP DATABASE IF EXISTS '' @ name @ '' CASCADE''
    \<and> exec admin (''CREATE DATABASE IF NOT EXISTS '' @ name) w = (Inr (), w')"
  using assms test_db_name_valid[of test]
  by (auto simp: NewDatabase_def Let_def db_New_def db_new_def split: option.splits prod.splits sum.splits)

end
