(* ===== verification/Spec2Isabelle.thy ===== *)
theory Spec2Isabelle
  imports Server_Process Command_Line Store_Strings Test_Cluster
begin

text \<open>
  Visus exports metrics of a CockroachDB cluster to Prometheus.  A node of Visus runs SQL queries
  and turns the results into counters and gauges (\<^emph>\<open>collections\<close>), follows log files and counts the
  lines that match patterns (\<^emph>\<open>scans\<close>), and passes on the metrics of the database node with its
  histograms rewritten to fewer, log-linear buckets (\<^emph>\<open>histograms\<close>).  The configuration of all three
  is stored in the database \<^verbatim>\<open>_visus\<close>; administration commands change it, and every server process
  reads it again periodically.  Paths below are those under \<^verbatim>\<open>src/\<close>.

  \<^bold>\<open>How the parts interact.\<close>  \<^verbatim>\<open>visus start\<close> opens two pools of connections, registers its node, and
  starts three servers that share a scheduler and the store: the HTTP server (the endpoint
  Prometheus scrapes), the collector server (one job per collection, where collections of cluster
  scope run only on the node that holds a lease) and the scanner server (one scanner per log file).
  Each of them has a \<^verbatim>\<open>Refresh\<close> that makes its state that of the store; the scheduler and the signal
  SIGHUP call it.  The administration commands work on the same store from another process.

  \<^bold>\<open>Theories, in the order they build on each other.\<close>

  \<^item> \<open>Visus_Prelude\<close>: errors and panics (\<open>fault\<close>, \<open>result\<close>), operations on a state (\<open>op\<close>), Go maps as
    association lists.
  \<^item> \<open>Go_Float\<close>, \<open>Go_Json\<close>: IEEE doubles with rounding as a datatype over the rationals; UTF-8 and the JSON
    encoder, as far as the program uses them.
  \<^item> \<open>Store_Model\<close>: the records of \<^verbatim>\<open>internal/store\<close>; the locales \<open>named_store\<close> (put, get, delete and list by
    name) and \<open>node_registry\<close>, the contracts of a store.
  \<^item> \<open>Store_Memory\<close> (\<^verbatim>\<open>store/memory.go\<close>) and \<open>Store_Sql\<close> (\<^verbatim>\<open>store/*.go\<close> and the statements under \<^verbatim>\<open>store/sql\<close>):
    both interpret the contracts for each of their kinds.  The SQL store is a record of tables
    behind a connection that consumes a schedule of outcomes (served, refused, lost), so that a
    theorem about every schedule covers every pattern of failures: atomicity of \<^verbatim>\<open>PutCollection\<close>, the
    round trip, the silent truncation of listings.
  \<^item> \<open>Translator_Bucket\<close>, \<open>Translator\<close> (\<^verbatim>\<open>translator/*.go\<close>) and \<open>Metric_Writer\<close> (\<^verbatim>\<open>metric/writer.go\<close>): the
    bucket arithmetic on doubles, the rewriting of a histogram, and the copy of a scrape.  Shown: the
    result is a valid cumulative histogram, and when the loop of the buckets ends.
  \<^item> \<open>Prom_Api\<close>: the Prometheus client and the LRU cache as records of operations with their
    documented laws, and list instances that satisfy them.
  \<^item> \<open>Collector\<close> (definitions of \<^verbatim>\<open>collector/collector.go\<close>), \<open>Collector_Counters\<close>, \<open>Collector_Gauges\<close>,
    \<open>Collector_Setup\<close>, \<open>Collector_Registration\<close>, \<open>Collector_Databases\<close>: a run of a collector.  Vectors and
    slices of label values are indices into a store, because the code shares and overwrites
    slices.  Shown: the gauges are exactly the rows of the last result, the counters follow a
    resettable source, the number of series is bounded, construction establishes the invariants.
  \<^item> \<open>Server_Model\<close> (\<^verbatim>\<open>server/*.go\<close>): the configuration, the scheduler as a parameter with laws, and the
    locale \<open>config_sync\<close>, the contract of a refresh; \<open>Collector_Server\<close> (\<^verbatim>\<open>collector/server.go\<close>) and
    \<open>Scanner_Server\<close> (\<^verbatim>\<open>scanner/server.go\<close>) interpret it.  The collector server with its lease is a step
    relation, with invariants of every reachable state.
  \<^item> \<open>Scanner_Parser\<close>, \<open>Scanner\<close> (\<^verbatim>\<open>scanner/*.go\<close>): the two line formats and exact counting.
  \<^item> \<open>Http_Server\<close> (\<^verbatim>\<open>http/*.go\<close>): certificates, refresh, and the handler of a scrape.
  \<^item> \<open>Config_Yaml\<close> (\<^verbatim>\<open>cmd/*/yaml.go\<close>): the documents of the commands, their checks and round trips.
  \<^item> \<open>Database\<close> (\<^verbatim>\<open>database/*.go\<close>): opening a pool with retries, and its exchange on a refresh.
  \<^item> \<open>Admin_Cmd\<close>, \<open>Test_Cmd\<close> (\<^verbatim>\<open>cmd/env\<close>, \<^verbatim>\<open>cmd/*/admin.go\<close>): the commands; the locale \<open>admin_kind\<close> is what a
    group of commands needs of a store, with an interpretation for each of the three groups on each
    of the two stores.  \<open>Cmd_Server\<close> (\<^verbatim>\<open>cmd/server\<close>) is the start sequence over the models of the
    servers, and \<open>Main_Program\<close> (\<^verbatim>\<open>main.go\<close>) the set-up of the log and the exit code.  \<open>Command_Line\<close> is
    the tree of commands with the defaults of the flags, \<open>Store_Strings\<close> the \<^verbatim>\<open>String\<close> methods.
  \<^item> \<open>Process_Frames\<close>, \<open>Server_Process\<close> (\<^verbatim>\<open>cmd/server\<close>, \<^verbatim>\<open>main.go\<close>): the running process as a transition
    system, in which the jobs of the scheduler, the lease, \<^verbatim>\<open>SIGHUP\<close>, the scanners, the stop request
    and the routines that wait for it interleave with each other and with other users of the
    database.  Shown, for every reachable state and every failure on the way: both pools stay open
    with their settings, the jobs of the start stay scheduled until the stop request, no step
    touches the row of another node, a removed row stays away, and the stop request lets every
    routine end.  The locale \<open>row_protocol\<close> says how the processes of a cluster share the table of the
    nodes: what one guarantees is what the others rely on.
  \<^item> \<open>Test_Cluster\<close> (\<^verbatim>\<open>testutil/cluster.go\<close>): the fixtures of the integration tests.
  \<^item> This theory: the path of a document from \<^verbatim>\<open>put\<close> through the SQL tables to a job of the collector
    server.

  \<^bold>\<open>Conventions.\<close>  Every operation returns the state on both paths, since the code changes it before
  it fails.  A panic is a value of its own, and \<^verbatim>\<open>log.Fatal\<close> is one of them.  Code outside \<^verbatim>\<open>src/\<close> (the
  driver, Prometheus, the scheduler, the lease, regular expressions, YAML, the package that follows
  files) is an argument of the definitions that call it, and its documented behaviour a named
  hypothesis with an instance that satisfies it.  Integers of the program are \<open>int\<close> with \<open>wrap64\<close>
  where they can overflow; counts of the histograms are words.

  \<^bold>\<open>Bounds and loops.\<close>  The loops without a bound (the buckets of a histogram, the retries of a pool,
  the rounds of a test command) are partial functions in the option type: \<open>None\<close> is not returning,
  and it is shown when they return and when they do not.  No fuel is used.  Statements about exact
  sums of doubles are restricted to integers up to \<open>2 ^ 53\<close>, the range in which additions do not
  round.

  \<^bold>\<open>Not modelled.\<close>  How the command-line library reads its arguments, the listener and the compression
  of the HTTP library, and log messages.  Of the stopper package two documented facts are used: a stop
  request reaches the stoppers made from the stopped one, and the context is cancelled only after a
  stop request.  The start runs as one sequence; the jobs it schedules are steps only after it.
  Goroutines are modelled where their interleaving matters: the lease of the collector server, the
  routine of a scanner, a refresh of a pool, and the routines of the server process; an operation
  under its lock is one step.
\<close>

section \<open>The SQL store behind the servers\<close>

lemma sql_collections_serves:
  assumes "sql_healthy c" "d_store D = sql_collections_store"
  shows "stored D c = sql_coll c" "cs_get (d_store D) n c = (Inr (sql_coll c n), c)"
    "\<exists>ns. cs_names (d_store D) c = (Inr ns, c) \<and> set ns = dom (sql_coll c)"
proof -
  show g: "cs_get (d_store D) n c = (Inr (sql_coll c n), c)" for n
    by (simp add: assms(2) sql_collections_store_def sql_get_state[OF assms(1)])
  show "stored D c = sql_coll c" by (simp add: stored_def g fun_eq_iff)
  obtain ns where ns: "as_query sql_GetCollectionNames c = Inr ns" "set ns = dom (sql_coll c)"
    using sql_collections.names_content[OF assms(1)] by blast
  then show "\<exists>ns. cs_names (d_store D) c = (Inr ns, c) \<and> set ns = dom (sql_coll c)"
    using as_query_state[OF ns(1)] sql_names_state[OF assms(1)] by (simp add: assms(2) sql_collections_store_def)
qed

text \<open>What the store shows of a collection has the descriptions and the kinds of the original.\<close>

lemma coll_shown_ok:
  assumes "sql_healthy c" "coll_descs x \<subseteq> F" "coll_storable x" "0 < quot (Microseconds (coll_Frequency x)) 1000000"
  shows "coll_ok F (coll_Name x) (coll_shown c x)"
proof -
  have "mset (coll_Metrics (coll_shown c x)) = mset (coll_Metrics x)"
    using assms(1) by (simp add: coll_shown_def sql_healthy_def orders_ok_def)
  then have "set (coll_Metrics (coll_shown c x)) = set (coll_Metrics x)" by (rule mset_eq_setD)
  then have "coll_descs (coll_shown c x) = coll_descs x" "known_kinds (coll_shown c x)"
    using assms(3) by (auto simp: coll_descs_def coll_shown_def known_kinds_def coll_storable_def)
  then show ?thesis using assms(2,4) by (simp add: coll_ok_def coll_shown_def)
qed


definition ex_sql_deps :: "(list_vec, list_reg, int \<times> (string, cacheValue) gomap, nat \<times> (nat, task) gomap, conn) deps" where
  "ex_sql_deps = \<lparr>d_libs = ref_libs, d_sched = list_sched_api, d_store = sql_collections_store\<rparr>"

lemma ex_sql_refresh_ok: "refresh_ok ex_sql_deps (coll_descs ex_stored_coll) (ex_server, cli_conn ex_cli, {})"
proof -
  have h: "sql_healthy ex_conn" by (rule ex_conn_ok(2))
  have d: "d_store ex_sql_deps = sql_collections_store" by (simp add: ex_sql_deps_def)
  have "sql_coll ex_conn = Map.empty" by (simp add: fun_eq_iff sql_coll_def ex_conn_def empty_db_def)
  moreover have "coherent ref_libs (coll_descs ex_stored_coll)"
    by (auto simp: coherent_def coll_descs_def ex_stored_coll_def ref_libs_def list_reg_api_def list_vec_api_def)
  moreover have "compat ref_libs F (w_reg ex_world)" for F
    by (auto simp: compat_def ref_libs_def list_reg_api_def ex_world_def)
  moreover have "jobs_inv ex_sql_deps ex_server" "jobs_live ex_sql_deps ex_server"
    by (simp_all add: jobs_inv_def jobs_live_def entry_def live_def used_def ex_server_fields ex_sql_deps_def list_sched_api_def)
  ultimately show ?thesis using sql_collections_serves[OF h d]
    by (simp add: refresh_ok_def ex_cli_def ex_server_fields) (simp add: ex_sql_deps_def ref_libs_ok list_sched_laws)
qed


end
